(* ===== verification/Hipp_Prelude.thy ===== *)
theory Hipp_Prelude
  imports Complex_Main "HOL-Library.Word" "HOL-Library.Multiset"
begin

text \<open>
  Prelude of the development: the Rust integer types, the fragment of the Rust standard library
  that the sources use on slices and vectors (\<open>sort_by\<close>, \<open>dedup\<close>, \<open>HashMap\<close> entries), the
  shared lemma collections and the interface of a comparator.

  Integers. \<open>u8\<close>, \<open>u32\<close>, \<open>u64\<close> and \<open>u128\<close> are machine words (\<open>+\<close> wraps, as in a release
  build); \<open>i64\<close> is an \<open>int\<close> whose arithmetic is wrapped by \<open>i64_wrap\<close>; \<open>usize\<close> values are
  lengths of vectors in memory and are \<open>nat\<close>.

  Sorting. The slice method \<open>sort_by\<close> is stable; for a comparator that is a total preorder on the
  sorted elements every stable sort returns the same list, so the model uses stable insertion.
  A \<open>HashMap\<close> that the code iterates over is an association list with distinct keys; its order
  stands for the unspecified iteration order, and the locale \<open>cmp_total\<close> below shows when sorting
  removes the dependence on it.
\<close>

section \<open>Rust integers\<close>

type_synonym u8 = "8 word"
type_synonym u16 = "16 word"
type_synonym u32 = "32 word"
type_synonym u64 = "64 word"
type_synonym u128 = "128 word"
type_synonym i64 = int
type_synonym usize = nat

named_theorems unit_ok \<open>operations that keep a score inside the unit interval\<close>
named_theorems link_frame \<open>fields of a link that an operation leaves alone\<close>

text \<open>Two's complement wrap-around of 64-bit signed arithmetic (release build).\<close>

definition i64_wrap :: "int \<Rightarrow> i64" where
  "i64_wrap x = (x + 2 ^ 63) mod 2 ^ 64 - 2 ^ 63"

definition i64_sub :: "i64 \<Rightarrow> i64 \<Rightarrow> i64" where
  "i64_sub a b = i64_wrap (a - b)"

definition i64_range :: "int \<Rightarrow> bool" where
  "i64_range x \<longleftrightarrow> - (2 ^ 63) \<le> x \<and> x < 2 ^ 63"

lemma i64_wrap_id [simp]: "i64_range x \<Longrightarrow> i64_wrap x = x"
  by (simp add: i64_range_def i64_wrap_def)

lemma i64_wrap_range: "i64_range (i64_wrap x)"
proof -
  have "0 \<le> (x + 2 ^ 63) mod 2 ^ 64" and "(x + 2 ^ 63) mod 2 ^ 64 < 2 ^ 64"
    by simp_all
  then show ?thesis by (simp add: i64_range_def i64_wrap_def)
qed

text \<open>The methods \<open>saturating_add\<close> and \<open>saturating_sub\<close> of \<open>u32\<close>.\<close>

definition u32_saturating_add :: "u32 \<Rightarrow> u32 \<Rightarrow> u32" where
  "u32_saturating_add a b = (if unat a + unat b < 2 ^ 32 then a + b else - 1)"

definition u32_saturating_sub :: "u32 \<Rightarrow> u32 \<Rightarrow> u32" where
  "u32_saturating_sub a b = (if b \<le> a then a - b else 0)"

section \<open>Comparators and sorting\<close>

datatype ordering = OLess | OEqual | OGreater

primrec then_cmp :: "ordering \<Rightarrow> ordering \<Rightarrow> ordering" where
  "then_cmp OLess o2 = OLess"
| "then_cmp OEqual o2 = o2"
| "then_cmp OGreater o2 = OGreater"

definition cmp_lin :: "'a::linorder \<Rightarrow> 'a \<Rightarrow> ordering" where
  "cmp_lin a b = (if a < b then OLess else if a = b then OEqual else OGreater)"

lemma cmp_lin_simps [simp]:
  "cmp_lin a b = OGreater \<longleftrightarrow> b < a"
  "cmp_lin a b = OLess \<longleftrightarrow> a < b"
  "cmp_lin a b = OEqual \<longleftrightarrow> a = b"
  by (auto simp: cmp_lin_def)

fun insert_by :: "('a \<Rightarrow> 'a \<Rightarrow> ordering) \<Rightarrow> 'a \<Rightarrow> 'a list \<Rightarrow> 'a list" where
  "insert_by cmp x [] = [x]"
| "insert_by cmp x (y # ys) =
     (if cmp x y = OGreater then y # insert_by cmp x ys else x # y # ys)"

fun sort_by :: "('a \<Rightarrow> 'a \<Rightarrow> ordering) \<Rightarrow> 'a list \<Rightarrow> 'a list" where
  "sort_by cmp [] = []"
| "sort_by cmp (x # xs) = insert_by cmp x (sort_by cmp xs)"

lemma mset_insert_by [simp]: "mset (insert_by cmp x xs) = add_mset x (mset xs)"
  by (induction xs) auto

lemma mset_sort_by [simp]: "mset (sort_by cmp xs) = mset xs"
  by (induction xs) auto

lemma set_sort_by [simp]: "set (sort_by cmp xs) = set xs"
  by (metis mset_sort_by set_mset_mset)

lemma length_sort_by [simp]: "length (sort_by cmp xs) = length xs"
  by (metis mset_sort_by size_mset)

lemma distinct_map_sort_by [simp]: "distinct (map f (sort_by cmp xs)) \<longleftrightarrow> distinct (map f xs)"
  by (metis mset_map mset_sort_by mset_eq_imp_distinct_iff)

lemma sort_by_Nil_iff [simp]: "sort_by cmp xs = [] \<longleftrightarrow> xs = []"
  by (metis length_0_conv length_sort_by)

text \<open>
  The contract of a comparator on a carrier (for floats: the elements whose key is not NaN).
\<close>

locale cmp_preorder =
  fixes cmp :: "'a \<Rightarrow> 'a \<Rightarrow> ordering" and carrier :: "'a \<Rightarrow> bool"
  assumes cmp_swap: "\<lbrakk>carrier x; carrier y; cmp x y = OGreater\<rbrakk> \<Longrightarrow> cmp y x \<noteq> OGreater"
    and cmp_trans: "\<lbrakk>carrier x; carrier y; carrier z; cmp x y \<noteq> OGreater; cmp y z \<noteq> OGreater\<rbrakk>
      \<Longrightarrow> cmp x z \<noteq> OGreater"
begin

abbreviation le :: "'a \<Rightarrow> 'a \<Rightarrow> bool" where
  "le x y \<equiv> cmp x y \<noteq> OGreater"

lemma sorted_insert_by:
  assumes "list_all carrier (x # xs)" and "sorted_wrt le xs"
  shows "sorted_wrt le (insert_by cmp x xs)"
  using assms
proof (induction xs)
  case (Cons y ys)
  have set_ins: "set (insert_by cmp x ys) = insert x (set ys)"
    by (metis mset_insert_by set_mset_add_mset_insert set_mset_mset)
  show ?case
  proof (cases "cmp x y = OGreater")
    case True
    then have "le y x" using Cons.prems cmp_swap by simp
    with Cons True set_ins show ?thesis by auto
  next
    case False
    moreover have "le x z" if "z \<in> set ys" for z
      using that Cons.prems False cmp_trans[of x y z] by (auto simp: list_all_iff)
    ultimately show ?thesis using Cons.prems by auto
  qed
qed simp

lemma sorted_sort_by:
  assumes "list_all carrier xs"
  shows "sorted_wrt le (sort_by cmp xs)"
  using assms
proof (induction xs)
  case (Cons x xs)
  then have "list_all carrier (x # sort_by cmp xs)" by (auto simp: list_all_iff)
  with Cons show ?case by (auto intro!: sorted_insert_by)
qed simp

lemma sort_by_sorted_id: "sorted_wrt le xs \<Longrightarrow> sort_by cmp xs = xs"
proof (induction xs)
  case (Cons x xs)
  then show ?case by (cases xs) auto
qed simp

end

text \<open>
  A comparator that never calls two different elements of the carrier equal sorts every
  arrangement of the same elements into the same list.
\<close>

locale cmp_total = cmp_preorder +
  assumes cmp_equal: "\<lbrakk>carrier x; carrier y; cmp x y \<noteq> OGreater; cmp y x \<noteq> OGreater\<rbrakk> \<Longrightarrow> x = y"
begin

lemma sorted_unique:
  "\<lbrakk>list_all carrier xs; mset xs = mset ys; sorted_wrt le xs; sorted_wrt le ys\<rbrakk> \<Longrightarrow> xs = ys"
proof (induction xs arbitrary: ys)
  case (Cons x xs)
  from Cons.prems(2) obtain y ys' where ys: "ys = y # ys'"
    by (cases ys) auto
  have yin: "y \<in> set (x # xs)" and xin: "x \<in> set (y # ys')"
    using Cons.prems(2) ys by (metis list.set_intros(1) set_mset_mset)+
  then have "x = y"
    using Cons.prems ys cmp_equal[of x y] by (auto simp: list_all_iff)
  then show ?case using Cons ys by auto
qed simp

lemma sort_by_perm:
  assumes "list_all carrier xs" and "mset xs = mset ys"
  shows "sort_by cmp xs = sort_by cmp ys"
proof (rule sorted_unique)
  have "list_all carrier ys"
    using assms by (metis list_all_iff set_mset_mset)
  then show "sorted_wrt le (sort_by cmp xs)" "sorted_wrt le (sort_by cmp ys)"
    using assms by (auto intro: sorted_sort_by)
qed (use assms in \<open>auto simp: list_all_iff\<close>)

end

section \<open>Vectors\<close>

text \<open>\<open>Vec::dedup\<close>: removes consecutive repeated elements.\<close>

fun dedup :: "'a list \<Rightarrow> 'a list" where
  "dedup [] = []"
| "dedup [x] = [x]"
| "dedup (x # y # zs) = (if x = y then dedup (x # zs) else x # dedup (y # zs))"

lemma set_dedup [simp]: "set (dedup xs) = set xs"
  by (induction xs rule: dedup.induct) auto

lemma dedup_Nil_iff [simp]: "dedup xs = [] \<longleftrightarrow> xs = []"
  by (induction xs rule: dedup.induct) auto

lemma dedup_sorted_distinct: "sorted xs \<Longrightarrow> distinct (dedup xs) \<and> sorted (dedup xs)"
  by (induction xs rule: dedup.induct) (auto simp: less_le)

text \<open>\<open>Iterator::find\<close> and \<open>Iterator::position\<close>.\<close>

fun find_first :: "('a \<Rightarrow> bool) \<Rightarrow> 'a list \<Rightarrow> 'a option" where
  "find_first P [] = None"
| "find_first P (x # xs) = (if P x then Some x else find_first P xs)"

lemma find_first_Some: "find_first P xs = Some x \<Longrightarrow> x \<in> set xs \<and> P x"
  by (induction xs) (auto split: if_splits)

lemma find_first_None [simp]: "find_first P xs = None \<longleftrightarrow> (\<forall>x \<in> set xs. \<not> P x)"
  by (induction xs) auto

section \<open>Hash maps that are iterated\<close>

text \<open>
  \<open>entry(k).and_modify(f).or_insert(v)\<close> on an association list with distinct keys.
\<close>

fun entry_upsert :: "'k \<Rightarrow> ('v \<Rightarrow> 'v) \<Rightarrow> 'v \<Rightarrow> ('k \<times> 'v) list \<Rightarrow> ('k \<times> 'v) list" where
  "entry_upsert k f v [] = [(k, v)]"
| "entry_upsert k f v ((k', v') # m) =
     (if k = k' then (k', f v') # m else (k', v') # entry_upsert k f v m)"

lemma map_of_entry_upsert:
  "map_of (entry_upsert k f v m) =
     (map_of m)(k \<mapsto> (case map_of m k of None \<Rightarrow> v | Some v' \<Rightarrow> f v'))"
  by (induction m) auto

lemma keys_entry_upsert: "fst ` set (entry_upsert k f v m) = insert k (fst ` set m)"
proof (induction m)
  case (Cons a m)
  then show ?case by (cases a) (simp add: insert_commute)
qed simp

lemma distinct_entry_upsert:
  "distinct (map fst m) \<Longrightarrow> distinct (map fst (entry_upsert k f v m))"
proof (induction m)
  case (Cons a m)
  then show ?case using keys_entry_upsert[of k f v m] by (cases a) auto
qed simp

end
