(* ===== verification/Rust_Float.thy ===== *)
theory Rust_Float
  imports Hipp_Prelude "HOL-Library.Log_Nat"
begin

text \<open>
  IEEE 754 binary32 and binary64 arithmetic as Rust uses it. A finite value is the rational number
  it denotes; every arithmetic operation is the exact rational operation followed by rounding to
  nearest, ties to even, with gradual underflow and overflow to an infinity. Comparisons with NaN
  are false, \<open>min\<close> and \<open>max\<close> ignore a NaN operand, \<open>clamp\<close> panics (\<open>None\<close>) when its bounds
  are not ordered. The two zeros are one value: no operation of the modelled sources tells them
  apart (every division has a divisor that is tested or known to be positive).

  The first section proves that rounding to a binary format is monotone, idempotent and odd; the
  locale \<open>rounding\<close> collects these laws, and is interpreted for both formats.
\<close>

section \<open>Rounding a rational to a binary format\<close>

text \<open>\<open>bexp q\<close> is the binary exponent of a positive rational, \<open>rne\<close> rounds to the nearest
  integer (ties to even), \<open>round_bin p emin\<close> rounds to \<open>p\<close> significant bits with least
  exponent \<open>emin\<close>.\<close>

definition bexp :: "rat \<Rightarrow> int" where
  "bexp q = (let (n, d) = quotient_of q; k = bitlen n - bitlen d in
     if 2 powi k \<le> q then k else k - 1)"
definition rne :: "rat \<Rightarrow> int" where
  "rne x = (let f = \<lfloor>x\<rfloor>; r = x - of_int f in
     if r < 1/2 then f else if 1/2 < r then f + 1 else if even f then f else f + 1)"
definition ulp_exp :: "int \<Rightarrow> int \<Rightarrow> rat \<Rightarrow> int" where
  "ulp_exp p emin q = max (bexp \<bar>q\<bar>) emin - (p - 1)"
definition round_bin :: "int \<Rightarrow> int \<Rightarrow> rat \<Rightarrow> rat" where
  "round_bin p emin q = (if q = 0 then 0 else
     let e = ulp_exp p emin q in of_int (rne (q / 2 powi e)) * 2 powi e)"

lemma bitlen_powi:
  assumes "0 < n"
  shows "(2::rat) powi (bitlen n - 1) \<le> of_int n" and "(of_int n :: rat) < 2 powi bitlen n"
proof -
  have b: "1 \<le> bitlen n" using assms
    using bitlen_alt_def[of n] bitlen_nonneg[of n] bitlen_eq_zero_iff[of n] by linarith
  from bitlen_bounds[OF assms] have "(of_int (2 ^ nat (bitlen n - 1)) :: rat) \<le> of_int n"
    and "(of_int n :: rat) < of_int (2 ^ nat (bitlen n))"
    by (simp_all only: of_int_le_iff of_int_less_iff)
  with b show "(2::rat) powi (bitlen n - 1) \<le> of_int n" and "(of_int n :: rat) < 2 powi bitlen n"
    by (simp_all add: power_int_def)
qed

lemma bexp_bounds:
  assumes "0 < q"
  shows "2 powi bexp q \<le> q" and "q < 2 powi (bexp q + 1)"
proof -
  obtain n d where nd: "quotient_of q = (n, d)" by (cases "quotient_of q")
  have d: "0 < d" and q: "q = of_int n / of_int d"
    using quotient_of_denom_pos[OF nd] quotient_of_div[OF nd] by auto
  have n: "0 < n" using assms d q by (simp add: zero_less_divide_iff)
  define k where "k = bitlen n - bitlen d"
  have dp: "(0::rat) < of_int d" using d by simp
  have lo: "2 powi (k - 1) \<le> q"
  proof -
    have "(2::rat) powi (k - 1) = 2 powi (bitlen n - 1) / 2 powi bitlen d"
      by (simp add: k_def power_int_diff power_int_add algebra_simps)
    also have "\<dots> \<le> of_int n / of_int d"
      using bitlen_powi[OF n] bitlen_powi[OF d] dp n by (intro frac_le) auto
    finally show ?thesis using q by simp
  qed
  have hi: "q < 2 powi (k + 1)"
  proof -
    have "of_int n / of_int d < (2::rat) powi bitlen n / 2 powi (bitlen d - 1)"
      using bitlen_powi[OF n] bitlen_powi[OF d] dp n by (intro frac_less) auto
    also have "\<dots> = 2 powi (k + 1)"
      by (simp add: k_def power_int_diff power_int_add)
    finally show ?thesis using q by simp
  qed
  have e: "bexp q = (if 2 powi k \<le> q then k else k - 1)"
    by (simp add: bexp_def nd k_def)
  show "2 powi bexp q \<le> q" using lo e by auto
  show "q < 2 powi (bexp q + 1)" using hi e by auto
qed

lemma powi2_less_iff: "(2::rat) powi a < 2 powi b \<longleftrightarrow> a < b"
  by (meson linorder_not_le one_less_numeral_iff power_int_increasing power_int_strict_increasing
      semiring_norm(76) order_less_imp_le)

lemma powi2_le_iff: "(2::rat) powi a \<le> 2 powi b \<longleftrightarrow> a \<le> b"
  by (simp add: linorder_not_less [symmetric] powi2_less_iff)

lemma bexp_less: "0 < q \<Longrightarrow> q < 2 powi k \<Longrightarrow> bexp q < k"
  using bexp_bounds[of q] by (meson order_le_less_trans powi2_less_iff)
lemma bexp_ge: "0 < q \<Longrightarrow> 2 powi k \<le> q \<Longrightarrow> k \<le> bexp q"
  using bexp_bounds[of q] by (smt (verit) order_le_less_trans powi2_less_iff)
lemma bexp_mono: "0 < q \<Longrightarrow> q \<le> r \<Longrightarrow> bexp q \<le> bexp r"
  using bexp_bounds[of q] bexp_ge[of r "bexp q"] by (auto intro: order_trans)

lemma rne_bounds: "\<lfloor>x\<rfloor> \<le> rne x" "rne x \<le> \<lfloor>x\<rfloor> + 1"
  by (auto simp: rne_def Let_def)
lemma rne_of_int [simp]: "rne (of_int i) = i"
  by (simp add: rne_def)
lemma rne_err: "\<bar>of_int (rne x) - x\<bar> \<le> 1/2"
proof -
  have "of_int \<lfloor>x\<rfloor> \<le> x" "x < of_int \<lfloor>x\<rfloor> + 1" by linarith+
  then show ?thesis by (auto simp: rne_def Let_def)
qed
lemma rne_mono: "x \<le> y \<Longrightarrow> rne x \<le> rne y"
proof -
  assume xy: "x \<le> y"
  show ?thesis
  proof (cases "\<lfloor>x\<rfloor> = \<lfloor>y\<rfloor>")
    case True
    then show ?thesis using xy by (auto simp: rne_def Let_def)
  next
    case False
    then have "\<lfloor>x\<rfloor> + 1 \<le> \<lfloor>y\<rfloor>" using floor_mono[OF xy] by linarith
    then show ?thesis using rne_bounds[of x] rne_bounds[of y] by linarith
  qed
qed
lemma rne_uminus: "rne (- x) = - rne x"
proof (cases "x = of_int \<lfloor>x\<rfloor>")
  case True
  then show ?thesis by (metis of_int_minus rne_of_int)
next
  case False
  then have f: "\<lfloor>- x\<rfloor> = - \<lfloor>x\<rfloor> - 1"
    by (simp add: floor_minus ceiling_altdef)
  show ?thesis unfolding rne_def Let_def f by (auto simp: field_simps)
qed

lemma round_bin_0 [simp]: "round_bin p emin 0 = 0"
  by (simp add: round_bin_def)

lemma ulp_exp_uminus [simp]: "ulp_exp p emin (- q) = ulp_exp p emin q"
  by (simp add: ulp_exp_def)

lemma round_bin_uminus: "round_bin p emin (- q) = - round_bin p emin q"
  by (simp add: round_bin_def Let_def rne_uminus flip: minus_divide_left)

lemma powi2_nat: "0 \<le> k \<Longrightarrow> (2::rat) powi k = of_int (2 ^ nat k)"
  by (simp add: power_int_def)

lemma powi2_split: "u \<le> k \<Longrightarrow> (2::rat) powi u * 2 ^ nat (k - u) = 2 powi k"
  using powi2_nat[of "k - u"] power_int_add[of "2::rat" u "k - u"] by simp

lemma round_bin_grid:
  assumes "ulp_exp p emin q \<le> e" "q = of_int m * 2 powi e"
  shows "round_bin p emin q = q"
proof -
  let ?u = "ulp_exp p emin q"
  have "q / 2 powi ?u = of_int (m * 2 ^ nat (e - ?u))"
    using assms powi2_split[of "ulp_exp p emin q" e] by (simp add: field_simps)
  then have "of_int (rne (q / 2 powi ?u)) * 2 powi ?u = q"
    by (metis rne_of_int nonzero_divide_eq_eq power_int_eq_0_iff zero_neq_numeral)
  then show ?thesis by (simp add: round_bin_def Let_def)
qed

lemma round_bin_le_pow:
  assumes "0 < q" "q \<le> 2 powi k" "ulp_exp p emin q \<le> k"
  shows "round_bin p emin q \<le> 2 powi k"
proof -
  let ?u = "ulp_exp p emin q"
  have "q / 2 powi ?u \<le> of_int (2 ^ nat (k - ?u))"
    using assms powi2_split[of "ulp_exp p emin q" k] by (simp add: field_simps)
  then have "rne (q / 2 powi ?u) \<le> 2 ^ nat (k - ?u)"
    using rne_mono rne_of_int by metis
  then have "(of_int (rne (q / 2 powi ?u)) :: rat) \<le> 2 powi (k - ?u)"
    using assms(3) by (simp add: powi2_nat)
  then have "of_int (rne (q / 2 powi ?u)) * (2::rat) powi ?u \<le> 2 powi (k - ?u) * 2 powi ?u"
    by (rule mult_right_mono) simp
  then show ?thesis using assms(1) by (simp add: round_bin_def Let_def power_int_diff)
qed

lemma round_bin_ge_pow:
  assumes "0 < q" "2 powi k \<le> q" "ulp_exp p emin q \<le> k"
  shows "2 powi k \<le> round_bin p emin q"
proof -
  let ?u = "ulp_exp p emin q"
  have "of_int (2 ^ nat (k - ?u)) \<le> q / 2 powi ?u"
    using assms powi2_split[of "ulp_exp p emin q" k] by (simp add: field_simps)
  then have "2 ^ nat (k - ?u) \<le> rne (q / 2 powi ?u)"
    using rne_mono rne_of_int by metis
  then have "2 powi (k - ?u) \<le> (of_int (rne (q / 2 powi ?u)) :: rat)"
    using assms(3) by (simp add: powi2_nat del: of_int_power of_int_numeral)
  then have "2 powi (k - ?u) * 2 powi ?u \<le> of_int (rne (q / 2 powi ?u)) * (2::rat) powi ?u"
    by (rule mult_right_mono) simp
  then show ?thesis using assms(1) by (simp add: round_bin_def Let_def power_int_diff)
qed

lemma round_bin_nonneg: "0 \<le> q \<Longrightarrow> 0 \<le> round_bin p emin q"
  using rne_mono[of 0] rne_of_int[of 0]
  by (auto simp: round_bin_def Let_def)

lemma round_bin_mono_pos:
  assumes p: "1 \<le> p" and q: "0 < q" "q \<le> r"
  shows "round_bin p emin q \<le> round_bin p emin r"
proof (cases "ulp_exp p emin q = ulp_exp p emin r")
  case True
  have "rne (q / 2 powi ulp_exp p emin r) \<le> rne (r / 2 powi ulp_exp p emin r)"
    using q by (intro rne_mono divide_right_mono) auto
  then show ?thesis using q True by (simp add: round_bin_def Let_def mult_right_mono)
next
  case False
  have b: "bexp q \<le> bexp r" using q by (rule bexp_mono)
  with False have e: "emin < bexp r" "bexp q < bexp r"
    using q by (auto simp: ulp_exp_def max_def split: if_splits)
  have r: "0 < r" using q by simp
  have "q < 2 powi bexp r"
    using bexp_bounds(2)[OF q(1)] e(2) powi2_le_iff[of "bexp q + 1" "bexp r"] by fastforce
  moreover have "ulp_exp p emin q \<le> bexp r" "ulp_exp p emin r \<le> bexp r"
    using p e q r by (auto simp: ulp_exp_def)
  ultimately show ?thesis
    using round_bin_le_pow[OF q(1), of "bexp r"] round_bin_ge_pow[OF r, of "bexp r"] bexp_bounds[OF r]
    by (meson less_imp_le order_trans)
qed

lemma round_bin_mono:
  assumes p: "1 \<le> p" and qr: "q \<le> r"
  shows "round_bin p emin q \<le> round_bin p emin r"
proof -
  consider "0 < q" | "q \<le> 0" "0 \<le> r" | "r < 0" by linarith
  then show ?thesis
  proof cases
    case 1 then show ?thesis using p qr by (intro round_bin_mono_pos)
  next
    case 2
    then have "0 \<le> round_bin p emin (- q)" "0 \<le> round_bin p emin r"
      by (simp_all add: round_bin_nonneg)
    then show ?thesis by (simp add: round_bin_uminus)
  next
    case 3
    then have "round_bin p emin (- r) \<le> round_bin p emin (- q)"
      using p qr by (intro round_bin_mono_pos) auto
    then show ?thesis by (simp add: round_bin_uminus)
  qed
qed

lemma round_bin_idem_pos:
  assumes p: "1 \<le> p" and q: "0 < q"
  shows "round_bin p emin (round_bin p emin q) = round_bin p emin q"
proof (cases "round_bin p emin q = 0")
  case False
  let ?r = "round_bin p emin q" and ?u = "ulp_exp p emin q"
  define k where "k = ?u + p"
  have r: "0 < ?r" using False round_bin_nonneg[of q p emin] q by linarith
  have k: "max (bexp q) emin + 1 = k" using q by (simp add: ulp_exp_def k_def)
  have qk: "q \<le> 2 powi k"
    using bexp_bounds(2)[OF q] powi2_le_iff[of "bexp q + 1" k] k by fastforce
  have rk: "?r \<le> 2 powi k"
    using p by (intro round_bin_le_pow q qk) (simp add: k_def)
  show ?thesis
  proof (cases "bexp ?r < k")
    case True
    then have "ulp_exp p emin ?r \<le> ?u" using k r by (simp add: ulp_exp_def k_def)
    moreover have "?r = of_int (rne (q / 2 powi ?u)) * 2 powi ?u"
      using q by (simp add: round_bin_def Let_def)
    ultimately show ?thesis by (rule round_bin_grid)
  next
    case False
    then have "2 powi k \<le> ?r" using bexp_bounds(1)[OF r] powi2_le_iff[of k "bexp ?r"] by linarith
    with rk have e: "?r = of_int 1 * 2 powi k" by simp
    moreover have "bexp ?r \<le> k"
      using e bexp_less[OF r, of "k + 1"] by (simp add: powi2_less_iff)
    ultimately show ?thesis
      using p r k by (intro round_bin_grid[OF _ e]) (simp add: ulp_exp_def)
  qed
qed simp

lemma round_bin_idem:
  assumes p: "1 \<le> p"
  shows "round_bin p emin (round_bin p emin q) = round_bin p emin q"
proof -
  consider "0 < q" | "q = 0" | "0 < - q" by linarith
  then show ?thesis
    using round_bin_idem_pos[OF p, of q] round_bin_idem_pos[OF p, of "- q"]
    by cases (simp_all add: round_bin_uminus)
qed

lemma round_bin_of_int:
  assumes p: "1 \<le> p" and e: "emin \<le> 0" and i: "\<bar>i\<bar> < 2 ^ nat p"
  shows "round_bin p emin (of_int i) = of_int i"
proof (cases "i = 0")
  case False
  have "(of_int \<bar>i\<bar> :: rat) < of_int (2 ^ nat p)" using i by (simp only: of_int_less_iff)
  then have "\<bar>of_int i\<bar> < (2::rat) powi p" using p by (simp add: power_int_def)
  then have "bexp \<bar>of_int i\<bar> < p" using False by (intro bexp_less) auto
  then have "ulp_exp p emin (of_int i) \<le> 0" using e p by (simp add: ulp_exp_def)
  then show ?thesis by (rule round_bin_grid[where m = i]) simp
qed simp

lemma round_bin_err:
  "\<bar>round_bin p emin q - q\<bar> \<le> 2 powi ulp_exp p emin q / 2"
proof (cases "q = 0")
  case False
  let ?u = "ulp_exp p emin q"
  have u: "(0::rat) < 2 powi ?u" by simp
  have "round_bin p emin q - q = (of_int (rne (q / 2 powi ?u)) - q / 2 powi ?u) * 2 powi ?u"
    using False by (simp add: round_bin_def Let_def algebra_simps)
  then have "\<bar>round_bin p emin q - q\<bar> = \<bar>of_int (rne (q / 2 powi ?u)) - q / 2 powi ?u\<bar> * 2 powi ?u"
    by (simp add: abs_mult)
  also have "\<dots> \<le> 1/2 * 2 powi ?u" using rne_err u by (intro mult_right_mono) auto
  finally show ?thesis by simp
qed simp

text \<open>The laws of rounding that the arithmetic below relies on.\<close>

locale rounding =
  fixes R :: "rat \<Rightarrow> rat"
  assumes R_mono: "q \<le> r \<Longrightarrow> R q \<le> R r"
    and R_idem: "R (R q) = R q"
    and R_uminus: "R (- q) = - R q"
    and R_one: "R 1 = 1"
begin

lemma R_zero: "R 0 = 0"
  using R_uminus[of 0] by simp

lemma R_le: "R y = y \<Longrightarrow> q \<le> y \<Longrightarrow> R q \<le> y"
  using R_mono[of q y] by simp

lemma R_ge: "R y = y \<Longrightarrow> y \<le> q \<Longrightarrow> y \<le> R q"
  using R_mono[of y q] by simp

lemma R_nonneg: "0 \<le> q \<Longrightarrow> 0 \<le> R q"
  using R_ge[OF R_zero] .

lemma R_unit: "0 \<le> q \<Longrightarrow> q \<le> 1 \<Longrightarrow> 0 \<le> R q \<and> R q \<le> 1"
  using R_nonneg R_le[OF R_one] by blast

lemma R_mult_le:
  assumes "R a = a" "0 \<le> a" "0 \<le> b" "b \<le> 1"
  shows "R (a * b) \<le> a"
  using assms by (intro R_le) (auto simp: mult_left_le)

end

section \<open>binary32\<close>

definition round32 :: "rat \<Rightarrow> rat" where
  "round32 = round_bin 24 (- 126)"

definition f32_max_finite :: rat where
  "f32_max_finite = (2 ^ 24 - 1) * 2 ^ 104"

interpretation r32: rounding round32
proof
  show "round32 1 = 1"
    using round_bin_of_int[of 24 "- 126" 1] by (simp add: round32_def)
qed (auto simp: round32_def intro: round_bin_mono round_bin_idem round_bin_uminus)

lemma round32_of_int: "\<bar>i\<bar> < 2 ^ 24 \<Longrightarrow> round32 (of_int i) = of_int i"
  using round_bin_of_int[of 24 "- 126" i] by (simp add: round32_def)

lemma round32_f32_max: "round32 f32_max_finite = f32_max_finite"
  by code_simp

datatype f32 = F32 rat | F32_Inf | F32_NegInf | F32_NaN

text \<open>The value of a decimal literal, or of an exact result.\<close>

definition f32_of_rat :: "rat \<Rightarrow> f32" where
  "f32_of_rat q = (let r = round32 q in
     if f32_max_finite < r then F32_Inf
     else if r < - f32_max_finite then F32_NegInf else F32 r)"

fun f32_add :: "f32 \<Rightarrow> f32 \<Rightarrow> f32" where
  "f32_add (F32 a) (F32 b) = f32_of_rat (a + b)"
| "f32_add F32_NaN _ = F32_NaN"
| "f32_add _ F32_NaN = F32_NaN"
| "f32_add F32_Inf F32_NegInf = F32_NaN"
| "f32_add F32_NegInf F32_Inf = F32_NaN"
| "f32_add F32_Inf _ = F32_Inf"
| "f32_add _ F32_Inf = F32_Inf"
| "f32_add F32_NegInf _ = F32_NegInf"
| "f32_add _ F32_NegInf = F32_NegInf"

fun f32_neg :: "f32 \<Rightarrow> f32" where
  "f32_neg (F32 a) = F32 (- a)"
| "f32_neg F32_Inf = F32_NegInf"
| "f32_neg F32_NegInf = F32_Inf"
| "f32_neg F32_NaN = F32_NaN"

definition f32_signed_inf :: "bool \<Rightarrow> f32" where
  "f32_signed_inf neg = (if neg then F32_NegInf else F32_Inf)"

fun f32_mul :: "f32 \<Rightarrow> f32 \<Rightarrow> f32" where
  "f32_mul (F32 a) (F32 b) = f32_of_rat (a * b)"
| "f32_mul F32_NaN _ = F32_NaN"
| "f32_mul _ F32_NaN = F32_NaN"
| "f32_mul (F32 a) F32_Inf = (if a = 0 then F32_NaN else f32_signed_inf (a < 0))"
| "f32_mul (F32 a) F32_NegInf = (if a = 0 then F32_NaN else f32_signed_inf (0 < a))"
| "f32_mul F32_Inf (F32 a) = (if a = 0 then F32_NaN else f32_signed_inf (a < 0))"
| "f32_mul F32_NegInf (F32 a) = (if a = 0 then F32_NaN else f32_signed_inf (0 < a))"
| "f32_mul F32_Inf F32_Inf = F32_Inf"
| "f32_mul F32_NegInf F32_NegInf = F32_Inf"
| "f32_mul F32_Inf F32_NegInf = F32_NegInf"
| "f32_mul F32_NegInf F32_Inf = F32_NegInf"

fun f32_div :: "f32 \<Rightarrow> f32 \<Rightarrow> f32" where
  "f32_div (F32 a) (F32 b) =
     (if b = 0 then (if a = 0 then F32_NaN else f32_signed_inf (a < 0)) else f32_of_rat (a / b))"
| "f32_div F32_NaN _ = F32_NaN"
| "f32_div _ F32_NaN = F32_NaN"
| "f32_div (F32 a) _ = F32 0"
| "f32_div F32_Inf (F32 b) = f32_signed_inf (b < 0)"
| "f32_div F32_NegInf (F32 b) = f32_signed_inf (0 \<le> b)"
| "f32_div _ _ = F32_NaN"

fun f32_le :: "f32 \<Rightarrow> f32 \<Rightarrow> bool" where
  "f32_le F32_NaN _ = False"
| "f32_le _ F32_NaN = False"
| "f32_le (F32 a) (F32 b) = (a \<le> b)"
| "f32_le F32_NegInf _ = True"
| "f32_le _ F32_Inf = True"
| "f32_le _ _ = False"

instantiation f32 :: "{zero, one, plus, minus, uminus, times, inverse, ord}"
begin

definition zero_f32 :: f32 where "zero_f32 = F32 0"
definition one_f32 :: f32 where "one_f32 = F32 1"
definition plus_f32 :: "f32 \<Rightarrow> f32 \<Rightarrow> f32" where "plus_f32 = f32_add"
definition uminus_f32 :: "f32 \<Rightarrow> f32" where "uminus_f32 = f32_neg"
definition minus_f32 :: "f32 \<Rightarrow> f32 \<Rightarrow> f32" where "minus_f32 a b = f32_add a (f32_neg b)"
definition times_f32 :: "f32 \<Rightarrow> f32 \<Rightarrow> f32" where "times_f32 = f32_mul"
definition divide_f32 :: "f32 \<Rightarrow> f32 \<Rightarrow> f32" where "divide_f32 = f32_div"
definition inverse_f32 :: "f32 \<Rightarrow> f32" where "inverse_f32 x = f32_div (F32 1) x"
definition less_eq_f32 :: "f32 \<Rightarrow> f32 \<Rightarrow> bool" where "less_eq_f32 = f32_le"
definition less_f32 :: "f32 \<Rightarrow> f32 \<Rightarrow> bool" where "less_f32 a b \<longleftrightarrow> f32_le a b \<and> \<not> f32_le b a"

instance ..

end


subsection \<open>The methods the sources call\<close>

definition f32_is_nan :: "f32 \<Rightarrow> bool" where
  "f32_is_nan x \<longleftrightarrow> x = F32_NaN"

text \<open>The operator \<open>==\<close>: false on NaN.\<close>

definition f32_eq :: "f32 \<Rightarrow> f32 \<Rightarrow> bool" where
  "f32_eq a b \<longleftrightarrow> a \<le> b \<and> b \<le> a"

definition f32_max :: "f32 \<Rightarrow> f32 \<Rightarrow> f32" where
  "f32_max a b = (if a = F32_NaN then b else if b = F32_NaN then a else if a \<le> b then b else a)"

definition f32_min :: "f32 \<Rightarrow> f32 \<Rightarrow> f32" where
  "f32_min a b = (if a = F32_NaN then b else if b = F32_NaN then a else if a \<le> b then a else b)"

text \<open>\<open>clamp\<close> panics unless \<open>lo \<le> hi\<close>; \<open>clamp01\<close> is \<open>clamp(0.0, 1.0)\<close>, whose bounds are ordered.\<close>

definition f32_clamp :: "f32 \<Rightarrow> f32 \<Rightarrow> f32 \<Rightarrow> f32 option" where
  "f32_clamp x lo hi =
     (if lo \<le> hi then Some (if x < lo then lo else if hi < x then hi else x) else None)"

definition clamp01 :: "f32 \<Rightarrow> f32" where
  "clamp01 x = (if x < 0 then 0 else if 1 < x then 1 else x)"

fun f32_abs :: "f32 \<Rightarrow> f32" where
  "f32_abs (F32 a) = F32 \<bar>a\<bar>"
| "f32_abs F32_NaN = F32_NaN"
| "f32_abs _ = F32_Inf"

text \<open>\<open>partial_cmp(..).unwrap_or(Ordering::Equal)\<close>.\<close>

definition f32_partial_cmp_or_eq :: "f32 \<Rightarrow> f32 \<Rightarrow> ordering" where
  "f32_partial_cmp_or_eq a b = (if a < b then OLess else if b < a then OGreater else OEqual)"

definition f32_of_nat :: "nat \<Rightarrow> f32" where
  "f32_of_nat n = f32_of_rat (of_nat n)"

definition f32_of_u32 :: "u32 \<Rightarrow> f32" where
  "f32_of_u32 w = f32_of_nat (unat w)"

text \<open>The cast \<open>as u32\<close>: truncates, saturates, sends NaN to zero.\<close>

fun f32_to_u32 :: "f32 \<Rightarrow> u32" where
  "f32_to_u32 (F32 a) =
     (if a \<le> 0 then 0 else if 2 ^ 32 \<le> a then - 1 else of_int \<lfloor>a\<rfloor>)"
| "f32_to_u32 F32_Inf = - 1"
| "f32_to_u32 _ = 0"

definition f32_EPSILON :: f32 where
  "f32_EPSILON = F32 (1 / 2 ^ 23)"

text \<open>\<open>powi\<close> by repeated squaring, the algorithm of the compiler run-time.\<close>

function powi_loop :: "f32 \<Rightarrow> nat \<Rightarrow> f32 \<Rightarrow> f32" where
  "powi_loop a n r =
     (let r' = (if odd n then r * a else r) in
      if n div 2 = 0 then r' else powi_loop (a * a) (n div 2) r')"
  by pat_completeness auto
termination
  by (relation "measure (\<lambda>(a, n, r). n)") auto

declare powi_loop.simps [simp del]

definition f32_powi :: "f32 \<Rightarrow> int \<Rightarrow> f32" where
  "f32_powi a i = (if i < 0 then 1 / powi_loop a (nat (- i)) 1 else powi_loop a (nat i) 1)"

subsection \<open>Laws of comparison\<close>

lemma f32_le_simps [simp]:
  "F32 a \<le> F32 b \<longleftrightarrow> a \<le> b"
  "\<not> F32_NaN \<le> x" "\<not> x \<le> F32_NaN"
  "F32 a \<le> F32_Inf" "F32_NegInf \<le> F32 a" "F32_NegInf \<le> F32_Inf"
  "F32_Inf \<le> F32_Inf" "F32_NegInf \<le> F32_NegInf"
  "\<not> F32_Inf \<le> F32 a" "\<not> F32 a \<le> F32_NegInf" "\<not> F32_Inf \<le> F32_NegInf"
  by (cases x; simp add: less_eq_f32_def)+

lemma f32_less_le: "(x::f32) < y \<longleftrightarrow> x \<le> y \<and> \<not> y \<le> x"
  by (simp add: less_f32_def less_eq_f32_def)

lemma f32_less_simps [simp]:
  "F32 a < F32 b \<longleftrightarrow> a < b"
  "\<not> F32_NaN < x" "\<not> x < F32_NaN"
  "F32 a < F32_Inf" "F32_NegInf < F32 a" "\<not> F32_Inf < F32 a" "\<not> F32 a < F32_NegInf"
  "\<not> F32_Inf < F32_Inf" "\<not> F32_NegInf < F32_NegInf"
  "F32_NegInf < F32_Inf" "\<not> F32_Inf < F32_NegInf"
  by (auto simp: f32_less_le)

lemma f32_zero_one [simp]: "(0::f32) = F32 0" "(1::f32) = F32 1"
  by (simp_all add: zero_f32_def one_f32_def)

lemma f32_le_trans: "(x::f32) \<le> y \<Longrightarrow> y \<le> z \<Longrightarrow> x \<le> z"
  by (cases x; cases y; cases z) auto

lemma f32_le_refl: "x \<noteq> F32_NaN \<Longrightarrow> (x::f32) \<le> x"
  by (cases x) auto

lemma f32_linear: "x \<noteq> F32_NaN \<Longrightarrow> y \<noteq> F32_NaN \<Longrightarrow> \<not> x \<le> y \<Longrightarrow> (y::f32) < x"
  by (cases x; cases y) auto

lemma f32_le_antisym: "(x::f32) \<le> y \<Longrightarrow> y \<le> x \<Longrightarrow> x = y"
  by (cases x; cases y) auto

lemma f32_le_not_nan: "(x::f32) \<le> y \<Longrightarrow> x \<noteq> F32_NaN \<and> y \<noteq> F32_NaN"
  by (cases x; cases y) auto

lemma f32_not_less: "x \<noteq> F32_NaN \<Longrightarrow> y \<noteq> F32_NaN \<Longrightarrow> \<not> (x::f32) < y \<longleftrightarrow> y \<le> x"
  by (cases x; cases y) auto

lemma f32_max_le_iff:
  "x \<noteq> F32_NaN \<Longrightarrow> y \<noteq> F32_NaN \<Longrightarrow> f32_max x y \<le> z \<longleftrightarrow> x \<le> z \<and> y \<le> z"
  by (cases x; cases y; cases z) (auto simp: f32_max_def)

lemma f32_max_ge: "x \<noteq> F32_NaN \<Longrightarrow> x \<le> f32_max x y" "y \<noteq> F32_NaN \<Longrightarrow> y \<le> f32_max x y"
  by (cases x; cases y; auto simp: f32_max_def)+

lemma f32_min_le: "x \<noteq> F32_NaN \<Longrightarrow> f32_min x y \<le> x" "y \<noteq> F32_NaN \<Longrightarrow> f32_min x y \<le> y"
  by (cases x; cases y; auto simp: f32_min_def)+

lemma f32_min_cases: "f32_min x y = x \<or> f32_min x y = y"
  by (auto simp: f32_min_def)

lemma f32_max_cases: "f32_max x y = x \<or> f32_max x y = y"
  by (auto simp: f32_max_def)

lemma f32_max_commute: "f32_max x y = f32_max y x"
  by (cases x; cases y) (auto simp: f32_max_def)

lemma f32_min_commute: "f32_min x y = f32_min y x"
  by (cases x; cases y) (auto simp: f32_min_def)

lemma f32_max_left_commute: "f32_max x (f32_max y z) = f32_max y (f32_max x z)"
  by (cases x; cases y; cases z) (auto simp: f32_max_def)

lemma f32_cmp_simps:
  "x \<noteq> F32_NaN \<Longrightarrow> y \<noteq> F32_NaN \<Longrightarrow> f32_partial_cmp_or_eq x y = OGreater \<longleftrightarrow> y < x"
  "x \<noteq> F32_NaN \<Longrightarrow> y \<noteq> F32_NaN \<Longrightarrow> f32_partial_cmp_or_eq x y = OLess \<longleftrightarrow> x < y"
  "x \<noteq> F32_NaN \<Longrightarrow> y \<noteq> F32_NaN \<Longrightarrow> f32_partial_cmp_or_eq x y = OEqual \<longleftrightarrow> x = y"
  by (cases x; cases y; auto simp: f32_partial_cmp_or_eq_def)+

subsection \<open>Representable values and bounds of the arithmetic\<close>

fun f32_valid :: "f32 \<Rightarrow> bool" where
  "f32_valid (F32 q) \<longleftrightarrow> round32 q = q \<and> \<bar>q\<bar> \<le> f32_max_finite"
| "f32_valid _ \<longleftrightarrow> True"

text \<open>A representable number of the closed unit interval.\<close>

fun unit_f32 :: "f32 \<Rightarrow> bool" where
  "unit_f32 (F32 q) \<longleftrightarrow> 0 \<le> q \<and> q \<le> 1 \<and> round32 q = q"
| "unit_f32 _ \<longleftrightarrow> False"

lemma f32_arith_simps [simp]:
  "F32 a + F32 b = f32_of_rat (a + b)"
  "F32 a * F32 b = f32_of_rat (a * b)"
  "F32 a - F32 b = f32_of_rat (a - b)"
  "- F32 a = F32 (- a)"
  "F32_NaN + x = F32_NaN" "x + F32_NaN = F32_NaN" "F32_NaN * x = F32_NaN" "x * F32_NaN = F32_NaN"
  by (cases x; simp add: plus_f32_def times_f32_def minus_f32_def uminus_f32_def)+

lemma f32_div_simp: "b \<noteq> 0 \<Longrightarrow> F32 a / F32 b = f32_of_rat (a / b)"
  by (simp add: divide_f32_def)

lemma round32_01 [simp]: "round32 0 = 0" "round32 1 = 1"
  by (rule r32.R_zero, rule r32.R_one)

lemma f32_max_finite_ge [simp]: "16777216 \<le> f32_max_finite" "1 \<le> f32_max_finite" "0 \<le> f32_max_finite"
proof -
  show b: "16777216 \<le> f32_max_finite" by (simp add: f32_max_finite_def)
  show "1 \<le> f32_max_finite" "0 \<le> f32_max_finite"
    by (rule order_trans[OF _ b], simp)+
qed

lemma f32_of_rat_valid [simp]: "f32_valid (f32_of_rat q)"
  by (auto simp: f32_of_rat_def Let_def r32.R_idem)

lemma f32_of_rat_not_nan [simp]: "f32_of_rat q \<noteq> F32_NaN"
  by (simp add: f32_of_rat_def Let_def)

lemma f32_of_rat_id: "f32_valid (F32 q) \<Longrightarrow> f32_of_rat q = F32 q"
  by (auto simp: f32_of_rat_def)

lemma f32_of_rat_mono: "q \<le> r \<Longrightarrow> f32_of_rat q \<le> f32_of_rat r"
  using r32.R_mono[of q r] by (auto simp: f32_of_rat_def Let_def)

lemma f32_of_rat_le: "f32_valid (F32 y) \<Longrightarrow> q \<le> y \<Longrightarrow> f32_of_rat q \<le> F32 y"
  using f32_of_rat_mono f32_of_rat_id by metis

lemma f32_of_rat_ge: "f32_valid (F32 y) \<Longrightarrow> y \<le> q \<Longrightarrow> F32 y \<le> f32_of_rat q"
  using f32_of_rat_mono f32_of_rat_id by metis

lemma f32_valid_01 [simp]: "f32_valid (F32 0)" "f32_valid (F32 1)"
  by simp_all

lemma f32_of_rat_nonneg: "0 \<le> q \<Longrightarrow> F32 0 \<le> f32_of_rat q"
  by (rule f32_of_rat_ge) simp_all

lemma unit_f32_valid: "unit_f32 x \<Longrightarrow> f32_valid x"
  using order_trans[OF _ f32_max_finite_ge(2)] by (cases x) auto

lemma unit_f32E:
  assumes "unit_f32 x"
  obtains q where "x = F32 q" "0 \<le> q" "q \<le> 1" "round32 q = q"
  using assms by (cases x) auto

lemma unit_f32_iff: "unit_f32 x \<longleftrightarrow> f32_valid x \<and> F32 0 \<le> x \<and> x \<le> F32 1"
  using order_trans[OF _ f32_max_finite_ge(2)] by (cases x) auto

lemma unit_f32_01 [simp, unit_ok]: "unit_f32 (F32 0)" "unit_f32 (F32 1)"
  by simp_all

lemma unit_f32_of_rat [unit_ok]: "0 \<le> q \<Longrightarrow> q \<le> 1 \<Longrightarrow> unit_f32 (f32_of_rat q)"
  by (simp add: unit_f32_iff f32_of_rat_nonneg f32_of_rat_le)

lemma unit_f32_mult [unit_ok]: "unit_f32 x \<Longrightarrow> unit_f32 y \<Longrightarrow> unit_f32 (x * y)"
  by (elim unit_f32E) (simp add: unit_f32_of_rat mult_le_one)

lemma f32_mult_le_left:
  assumes "f32_valid (F32 a)" "0 \<le> a" "unit_f32 y"
  shows "F32 a * y \<le> F32 a"
  using assms by (elim unit_f32E) (auto intro!: f32_of_rat_le mult_left_le)

lemma unit_f32_mult_le: "unit_f32 x \<Longrightarrow> unit_f32 y \<Longrightarrow> x * y \<le> x"
  by (elim unit_f32E) (metis f32_mult_le_left unit_f32.simps(1) unit_f32_valid)

lemma f32_mult_mono:
  assumes "F32 a \<le> F32 b" "0 \<le> c"
  shows "F32 a * F32 c \<le> F32 b * F32 c"
  using assms by (auto intro!: f32_of_rat_mono mult_right_mono)

lemma f32_add_ge:
  assumes "f32_valid (F32 a)" "F32 0 \<le> d"
  shows "F32 a \<le> F32 a + d"
proof (cases d)
  case (F32 b)
  then show ?thesis using assms by (auto intro!: f32_of_rat_ge)
qed (use assms in \<open>auto simp: plus_f32_def\<close>)

lemma f32_sub_le:
  assumes "f32_valid (F32 a)" "0 \<le> b"
  shows "F32 a - F32 b \<le> F32 a"
  using assms by (auto intro!: f32_of_rat_le)

lemma f32_valid_ops:
  "f32_valid (x + y)" "f32_valid (x * y)" "f32_valid (x - y)" "f32_valid (x / y)"
proof -
  show "f32_valid (x + y)" "f32_valid (x - y)"
    by (cases x; cases y; simp add: plus_f32_def minus_f32_def)+
  show "f32_valid (x * y)"
    by (cases x; cases y; simp add: times_f32_def f32_signed_inf_def)
  show "f32_valid (x / y)"
    by (cases x; cases y) (auto simp: divide_f32_def f32_signed_inf_def)
qed

lemma f32_valid_minmax:
  "f32_valid x \<Longrightarrow> f32_valid y \<Longrightarrow> f32_valid (f32_min x y)"
  "f32_valid x \<Longrightarrow> f32_valid y \<Longrightarrow> f32_valid (f32_max x y)"
  using f32_min_cases[of x y] f32_max_cases[of x y] by auto

lemma unit_f32_clamp01 [unit_ok]: "f32_valid x \<Longrightarrow> x \<noteq> F32_NaN \<Longrightarrow> unit_f32 (clamp01 x)"
  by (cases x) (auto simp: clamp01_def)

lemma clamp01_unit_id: "unit_f32 x \<Longrightarrow> clamp01 x = x"
  by (cases x) (auto simp: clamp01_def)

lemma clamp01_clamp: "f32_clamp x 0 1 = Some (clamp01 x)"
  by (simp add: f32_clamp_def clamp01_def)

lemma unit_powi_loop: "unit_f32 a \<Longrightarrow> unit_f32 r \<Longrightarrow> unit_f32 (powi_loop a n r)"
proof (induction a n r rule: powi_loop.induct)
  case (1 a n r)
  show ?case
  proof (cases "n div 2 = 0")
    case True
    with "1.prems" show ?thesis
      by (subst powi_loop.simps) (simp add: Let_def unit_f32_mult)
  next
    case False
    have "unit_f32 (powi_loop (a * a) (n div 2) (if odd n then r * a else r))"
      using "1.prems" by (intro "1.IH"[OF refl False]) (auto intro: unit_f32_mult)
    with False show ?thesis by (subst powi_loop.simps) (simp add: Let_def)
  qed
qed

lemma unit_f32_powi [unit_ok]: "unit_f32 a \<Longrightarrow> 0 \<le> i \<Longrightarrow> unit_f32 (f32_powi a i)"
  using unit_powi_loop[OF _ unit_f32_01(2)] by (simp add: f32_powi_def)

lemma f32_of_nat_exact: "n < 2 ^ 24 \<Longrightarrow> f32_of_nat n = F32 (of_nat n)"
proof -
  assume n: "n < 2 ^ 24"
  then have "(of_nat n :: rat) \<le> of_nat (2 ^ 24)" by (simp only: of_nat_le_iff)
  also have "\<dots> = 16777216" by simp
  also have "\<dots> \<le> f32_max_finite" by simp
  finally have "(of_nat n :: rat) \<le> f32_max_finite" .
  moreover have "round32 (of_nat n) = of_nat n"
    using round32_of_int[of "int n"] n by simp
  ultimately show ?thesis unfolding f32_of_nat_def by (intro f32_of_rat_id) simp
qed

text \<open>A comparator on float keys, largest first, as the sources write it.\<close>

definition cmp_f32_desc :: "('a \<Rightarrow> f32) \<Rightarrow> 'a \<Rightarrow> 'a \<Rightarrow> ordering" where
  "cmp_f32_desc key a b = f32_partial_cmp_or_eq (key b) (key a)"

interpretation f32_desc: cmp_preorder "cmp_f32_desc key" "\<lambda>x. key x \<noteq> F32_NaN" for key
proof unfold_locales
  fix x y z :: 'a
  assume c: "key x \<noteq> F32_NaN" "key y \<noteq> F32_NaN" "key z \<noteq> F32_NaN"
  have le: "cmp_f32_desc key a b \<noteq> OGreater \<longleftrightarrow> key b \<le> key a"
    if "key a \<noteq> F32_NaN" "key b \<noteq> F32_NaN" for a b
    using that by (simp add: cmp_f32_desc_def f32_cmp_simps f32_not_less)
  show "cmp_f32_desc key x y \<noteq> OGreater \<Longrightarrow> cmp_f32_desc key y z \<noteq> OGreater
      \<Longrightarrow> cmp_f32_desc key x z \<noteq> OGreater"
    using c by (simp add: le) (rule f32_le_trans)
next
  fix x y :: 'a
  assume "key x \<noteq> F32_NaN" "key y \<noteq> F32_NaN" "cmp_f32_desc key x y = OGreater"
  then show "cmp_f32_desc key y x \<noteq> OGreater"
    by (simp add: cmp_f32_desc_def f32_cmp_simps f32_less_le)
qed

lemma sorted_desc_by:
  assumes "list_all (\<lambda>x. key x \<noteq> F32_NaN) xs"
  shows "sorted_wrt (\<lambda>a b. key b \<le> key a) (sort_by (cmp_f32_desc key) xs)"
proof -
  have "list_all (\<lambda>x. key x \<noteq> F32_NaN) (sort_by (cmp_f32_desc key) xs)"
    using assms by (simp add: list_all_iff)
  then show ?thesis
    using f32_desc.sorted_sort_by[OF assms]
    by (auto simp: sorted_wrt_iff_nth_less list_all_length cmp_f32_desc_def f32_cmp_simps f32_not_less)
qed

text \<open>The same with ties broken by an identifier: a total order on pairs with distinct identifiers.\<close>

definition cmp_f32_desc_id :: "'k::linorder \<times> f32 \<Rightarrow> 'k \<times> f32 \<Rightarrow> ordering" where
  "cmp_f32_desc_id a b =
     then_cmp (f32_partial_cmp_or_eq (snd b) (snd a)) (cmp_lin (fst a) (fst b))"

lemma cmp_f32_desc_id_le:
  "snd a \<noteq> F32_NaN \<Longrightarrow> snd b \<noteq> F32_NaN \<Longrightarrow>
   cmp_f32_desc_id a b \<noteq> OGreater \<longleftrightarrow> snd b < snd a \<or> (snd a = snd b \<and> fst a \<le> fst b)"
proof (cases "f32_partial_cmp_or_eq (snd b) (snd a)")
  assume n: "snd a \<noteq> F32_NaN" "snd b \<noteq> F32_NaN"
  case OLess
  with n show ?thesis
    using f32_cmp_simps(2)[of "snd b" "snd a"] by (simp add: cmp_f32_desc_id_def)
next
  assume n: "snd a \<noteq> F32_NaN" "snd b \<noteq> F32_NaN"
  case OEqual
  with n show ?thesis
    using f32_cmp_simps(3)[of "snd b" "snd a"]
    by (simp add: cmp_f32_desc_id_def f32_less_le not_less)
next
  assume n: "snd a \<noteq> F32_NaN" "snd b \<noteq> F32_NaN"
  case OGreater
  with n show ?thesis
    using f32_cmp_simps(1)[of "snd b" "snd a"]
    by (auto simp: cmp_f32_desc_id_def f32_less_le)
qed

lemma f32_trichotomy:
  "a \<noteq> F32_NaN \<Longrightarrow> b \<noteq> F32_NaN \<Longrightarrow> a < b \<or> a = b \<or> b < (a::f32)"
  by (cases a; cases b) auto

lemma f32_less_trans: "(a::f32) < b \<Longrightarrow> b < c \<Longrightarrow> a < c"
  by (cases a; cases b; cases c) auto

lemma f32_less_irrefl [simp]: "\<not> (a::f32) < a"
  by (simp add: f32_less_le)

interpretation f32_desc_id: cmp_total
  "cmp_f32_desc_id :: 'k::linorder \<times> f32 \<Rightarrow> _" "\<lambda>x. snd x \<noteq> F32_NaN"
proof unfold_locales
  fix x y :: "'k \<times> f32"
  assume c: "snd x \<noteq> F32_NaN" "snd y \<noteq> F32_NaN" and g: "cmp_f32_desc_id x y = OGreater"
  have "\<not> (snd y < snd x \<or> snd x = snd y \<and> fst x \<le> fst y)"
    using g cmp_f32_desc_id_le[OF c] by simp
  then have "snd x < snd y \<or> snd y = snd x \<and> fst y \<le> fst x"
    using f32_trichotomy[OF c] linear[of "fst x" "fst y"] by metis
  then show "cmp_f32_desc_id y x \<noteq> OGreater"
    by (simp only: cmp_f32_desc_id_le[OF c(2) c(1)] simp_thms)
next
  fix x y :: "'k \<times> f32"
  assume c: "snd x \<noteq> F32_NaN" "snd y \<noteq> F32_NaN"
    and g: "cmp_f32_desc_id x y \<noteq> OGreater" "cmp_f32_desc_id y x \<noteq> OGreater"
  have "snd y < snd x \<or> snd x = snd y \<and> fst x \<le> fst y"
    "snd x < snd y \<or> snd y = snd x \<and> fst y \<le> fst x"
    using g by (simp_all only: cmp_f32_desc_id_le[OF c] cmp_f32_desc_id_le[OF c(2) c(1)])
  then show "x = y"
    by (metis f32_less_irrefl f32_less_trans order_antisym prod_eq_iff)
next
  fix x y z :: "'k \<times> f32"
  assume c: "snd x \<noteq> F32_NaN" "snd y \<noteq> F32_NaN" "snd z \<noteq> F32_NaN"
    and g: "cmp_f32_desc_id x y \<noteq> OGreater" "cmp_f32_desc_id y z \<noteq> OGreater"
  have "snd y < snd x \<or> snd x = snd y \<and> fst x \<le> fst y"
    "snd z < snd y \<or> snd y = snd z \<and> fst y \<le> fst z"
    using g by (simp_all only: cmp_f32_desc_id_le[OF c(1,2)] cmp_f32_desc_id_le[OF c(2,3)])
  then have "snd z < snd x \<or> snd x = snd z \<and> fst x \<le> fst z"
    by (metis f32_less_trans order_trans)
  then show "cmp_f32_desc_id x z \<noteq> OGreater"
    by (simp only: cmp_f32_desc_id_le[OF c(1,3)] simp_thms)
qed

section \<open>binary64\<close>

text \<open>The forgetting curve is computed in \<open>f64\<close>: products, quotients, \<open>max\<close>, \<open>powi\<close> and casts.\<close>

definition round64 :: "rat \<Rightarrow> rat" where
  "round64 = round_bin 53 (- 1022)"

definition f64_max_finite :: rat where
  "f64_max_finite = (2 ^ 53 - 1) * 2 ^ 971"

interpretation r64: rounding round64
proof
  show "round64 1 = 1"
    using round_bin_of_int[of 53 "- 1022" 1] by (simp add: round64_def)
qed (auto simp: round64_def intro: round_bin_mono round_bin_idem round_bin_uminus)

datatype f64 = F64 rat | F64_Inf | F64_NegInf | F64_NaN

definition f64_of_rat :: "rat \<Rightarrow> f64" where
  "f64_of_rat q = (let r = round64 q in
     if f64_max_finite < r then F64_Inf
     else if r < - f64_max_finite then F64_NegInf else F64 r)"

definition f64_signed_inf :: "bool \<Rightarrow> f64" where
  "f64_signed_inf neg = (if neg then F64_NegInf else F64_Inf)"

fun f64_mul :: "f64 \<Rightarrow> f64 \<Rightarrow> f64" where
  "f64_mul (F64 a) (F64 b) = f64_of_rat (a * b)"
| "f64_mul F64_NaN _ = F64_NaN"
| "f64_mul _ F64_NaN = F64_NaN"
| "f64_mul (F64 a) F64_Inf = (if a = 0 then F64_NaN else f64_signed_inf (a < 0))"
| "f64_mul (F64 a) F64_NegInf = (if a = 0 then F64_NaN else f64_signed_inf (0 < a))"
| "f64_mul F64_Inf (F64 a) = (if a = 0 then F64_NaN else f64_signed_inf (a < 0))"
| "f64_mul F64_NegInf (F64 a) = (if a = 0 then F64_NaN else f64_signed_inf (0 < a))"
| "f64_mul F64_Inf F64_Inf = F64_Inf"
| "f64_mul F64_NegInf F64_NegInf = F64_Inf"
| "f64_mul F64_Inf F64_NegInf = F64_NegInf"
| "f64_mul F64_NegInf F64_Inf = F64_NegInf"

fun f64_div :: "f64 \<Rightarrow> f64 \<Rightarrow> f64" where
  "f64_div (F64 a) (F64 b) =
     (if b = 0 then (if a = 0 then F64_NaN else f64_signed_inf (a < 0)) else f64_of_rat (a / b))"
| "f64_div F64_NaN _ = F64_NaN"
| "f64_div _ F64_NaN = F64_NaN"
| "f64_div (F64 a) _ = F64 0"
| "f64_div F64_Inf (F64 b) = f64_signed_inf (b < 0)"
| "f64_div F64_NegInf (F64 b) = f64_signed_inf (0 \<le> b)"
| "f64_div _ _ = F64_NaN"

fun f64_le :: "f64 \<Rightarrow> f64 \<Rightarrow> bool" where
  "f64_le F64_NaN _ = False"
| "f64_le _ F64_NaN = False"
| "f64_le (F64 a) (F64 b) = (a \<le> b)"
| "f64_le F64_NegInf _ = True"
| "f64_le _ F64_Inf = True"
| "f64_le _ _ = False"

definition f64_less :: "f64 \<Rightarrow> f64 \<Rightarrow> bool" where
  "f64_less a b \<longleftrightarrow> f64_le a b \<and> \<not> f64_le b a"

definition f64_max :: "f64 \<Rightarrow> f64 \<Rightarrow> f64" where
  "f64_max a b = (if a = F64_NaN then b else if b = F64_NaN then a else if f64_le a b then b else a)"

function f64_powi_loop :: "f64 \<Rightarrow> nat \<Rightarrow> f64 \<Rightarrow> f64" where
  "f64_powi_loop a n r =
     (let r' = (if odd n then f64_mul r a else r) in
      if n div 2 = 0 then r' else f64_powi_loop (f64_mul a a) (n div 2) r')"
  by pat_completeness auto
termination
  by (relation "measure (\<lambda>(a, n, r). n)") auto

declare f64_powi_loop.simps [simp del]

definition f64_powi :: "f64 \<Rightarrow> nat \<Rightarrow> f64" where
  "f64_powi a n = f64_powi_loop a n (F64 1)"

text \<open>Casts: every \<open>f32\<close> is an \<open>f64\<close>; the cast back rounds.\<close>

fun f64_of_f32 :: "f32 \<Rightarrow> f64" where
  "f64_of_f32 (F32 q) = F64 q"
| "f64_of_f32 F32_Inf = F64_Inf"
| "f64_of_f32 F32_NegInf = F64_NegInf"
| "f64_of_f32 F32_NaN = F64_NaN"

fun f32_of_f64 :: "f64 \<Rightarrow> f32" where
  "f32_of_f64 (F64 q) = f32_of_rat q"
| "f32_of_f64 F64_Inf = F32_Inf"
| "f32_of_f64 F64_NegInf = F32_NegInf"
| "f32_of_f64 F64_NaN = F32_NaN"

definition f64_of_i64 :: "i64 \<Rightarrow> f64" where
  "f64_of_i64 i = f64_of_rat (of_int i)"

lemma f64_of_rat_unit:
  assumes "0 \<le> q" "q \<le> 1"
  shows "f64_of_rat q = F64 (round64 q)" "0 \<le> round64 q" "round64 q \<le> 1"
proof -
  show b: "0 \<le> round64 q" "round64 q \<le> 1" using r64.R_unit[OF assms] by auto
  have "1 \<le> f64_max_finite" by (simp add: f64_max_finite_def)
  then show "f64_of_rat q = F64 (round64 q)"
    using b by (simp add: f64_of_rat_def)
qed

lemma f64_of_rat_int:
  assumes "\<bar>i\<bar> < 2 ^ 53"
  shows "f64_of_rat (of_int i) = F64 (of_int i)"
proof -
  have "round64 (of_int i) = of_int i"
    using round_bin_of_int[of 53 "- 1022" i] assms by (simp add: round64_def)
  moreover have "(of_int \<bar>i\<bar> :: rat) \<le> of_int (2 ^ 53)"
    using assms by (simp only: of_int_le_iff)
  moreover have "(of_int (2 ^ 53) :: rat) \<le> f64_max_finite"
    by (simp add: f64_max_finite_def)
  ultimately have "round64 (of_int i) = of_int i" "\<bar>of_int i\<bar> \<le> f64_max_finite"
    by (simp_all only: of_int_abs)
  then show ?thesis by (simp add: f64_of_rat_def Let_def abs_le_iff not_less)
qed

lemma f64_of_rat_numeral [simp]:
  "(numeral k :: int) < 9007199254740992 \<Longrightarrow> f64_of_rat (numeral k) = F64 (numeral k)"
  using f64_of_rat_int[of "numeral k"] by simp

text \<open>A representable \<open>f32\<close> is representable in \<open>f64\<close>.\<close>

lemma round64_round32: "round32 q = q \<Longrightarrow> round64 q = q"
proof (cases "q = 0")
  case True
  then show ?thesis by (simp add: r64.R_zero)
next
  case False
  let ?u = "ulp_exp 24 (- 126) q"
  assume "round32 q = q"
  then have "q = of_int (rne (q / 2 powi ?u)) * 2 powi ?u"
    using False by (simp add: round32_def round_bin_def Let_def)
  moreover have "ulp_exp 53 (- 1022) q \<le> ?u"
    by (simp add: ulp_exp_def max_def)
  ultimately show ?thesis unfolding round64_def by (intro round_bin_grid)
qed

section \<open>Printing\<close>

text \<open>Decimal digits of a natural number, and the format \<open>{:.1}\<close> of a float (rounded half to even on
  the exact value).\<close>

fun nat_str :: "nat \<Rightarrow> string" where
  "nat_str n =
     (if n < 10 then [char_of (48 + n)] else nat_str (n div 10) @ [char_of (48 + n mod 10)])"

declare nat_str.simps [simp del]

fun fmt_f32_1 :: "f32 \<Rightarrow> string" where
  "fmt_f32_1 (F32 q) =
     (let n = nat (rne (\<bar>q\<bar> * 10)) in
      (if q < 0 then ''-'' else []) @ nat_str (n div 10) @ ''.'' @ nat_str (n mod 10))"
| "fmt_f32_1 F32_Inf = ''inf''"
| "fmt_f32_1 F32_NegInf = ''-inf''"
| "fmt_f32_1 F32_NaN = ''NaN''"

section \<open>Values of the decimal literals\<close>

named_theorems f32_lits \<open>rounded values of the float literals of the sources\<close>

lemma f32_lit_0_12 [f32_lits]: "f32_of_rat (3/25) = F32 (16106127/134217728)"
  by code_simp

lemma f32_lit_0_08 [f32_lits]: "f32_of_rat (2/25) = F32 (10737418/134217728)"
  by code_simp

lemma f32_lit_0_3 [f32_lits]: "f32_of_rat (3/10) = F32 (10066330/33554432)"
  by code_simp

lemma f32_lit_0_4 [f32_lits]: "f32_of_rat (2/5) = F32 (13421773/33554432)"
  by code_simp

end
