(* ===== verification/Core_Types.thy ===== *)
theory Core_Types
  imports Rust_Float
begin

text \<open>
  The data model of \<open>hippmem-core\<close>: identifiers, bounded scores, time stamps, the memory unit and
  its parts (\<open>ids.rs\<close>, \<open>score.rs\<close>, \<open>error.rs\<close>, \<open>model/unit.rs\<close>, \<open>model/understanding.rs\<close>,
  \<open>model/links.rs\<close>). A struct is a record with the fields of the source, prefixed where two structs
  share a field name; an enum is a datatype with the constructors of the source, prefixed by the
  initials of the enum. \<open>String\<close> is a list of bytes. The invariant \<open>link_wf\<close> says that the scores
  of an edge are representable numbers of the unit interval.
\<close>

section \<open>Identifiers\<close>

datatype memory_id = MemoryId (as_u128: u128)

datatype vector_id = VectorId (vec_as_u128: u128)

datatype timestamp = Timestamp (as_i64: i64)

type_synonym entity_key = u64
type_synonym topic_key = u64
type_synonym goal_key = u64
type_synonym event_key = u64
type_synonym causal_key = u64
type_synonym emotion_key = u8
type_synonym temporal_key = u32

instantiation memory_id :: linorder
begin

definition less_eq_memory_id :: "memory_id \<Rightarrow> memory_id \<Rightarrow> bool" where
  "less_eq_memory_id a b \<longleftrightarrow> as_u128 a \<le> as_u128 b"

definition less_memory_id :: "memory_id \<Rightarrow> memory_id \<Rightarrow> bool" where
  "less_memory_id a b \<longleftrightarrow> as_u128 a < as_u128 b"

instance
  by standard (auto simp: less_eq_memory_id_def less_memory_id_def memory_id.expand)

end

instantiation timestamp :: linorder
begin

definition less_eq_timestamp :: "timestamp \<Rightarrow> timestamp \<Rightarrow> bool" where
  "less_eq_timestamp a b \<longleftrightarrow> as_i64 a \<le> as_i64 b"

definition less_timestamp :: "timestamp \<Rightarrow> timestamp \<Rightarrow> bool" where
  "less_timestamp a b \<longleftrightarrow> as_i64 a < as_i64 b"

instance
  by standard (auto simp: less_eq_timestamp_def less_timestamp_def timestamp.expand)

end

definition from_millis :: "i64 \<Rightarrow> timestamp" where
  "from_millis ms = Timestamp ms"

section \<open>Bounded scores\<close>

datatype unit_score = UnitScore (score_value: f32)

definition unit_score_new :: "f32 \<Rightarrow> unit_score" where
  "unit_score_new v = (if f32_is_nan v then UnitScore 0 else UnitScore (clamp01 v))"

definition unit_score_default :: unit_score where
  "unit_score_default = UnitScore (f32_of_rat (5/10))"

definition score_wf :: "unit_score \<Rightarrow> bool" where
  "score_wf s \<longleftrightarrow> unit_f32 (score_value s)"

lemma score_wf_new [unit_ok]: "f32_valid v \<Longrightarrow> score_wf (unit_score_new v)"
  by (simp add: unit_score_new_def score_wf_def f32_is_nan_def unit_f32_clamp01)

lemma score_value_new: "unit_f32 v \<Longrightarrow> score_value (unit_score_new v) = v"
  by (cases v) (auto simp: unit_score_new_def f32_is_nan_def clamp01_def)

lemma score_wf_default: "score_wf unit_score_default"
  by (simp add: unit_score_default_def score_wf_def unit_f32_of_rat)

section \<open>Errors\<close>

datatype core_error =
    SchemaTooNew (found: u16) (current: u16)
  | Validation string
  | Serialization string
  | Internal string

fun found_version :: "core_error \<Rightarrow> u16" where
  "found_version (SchemaTooNew f c) = f"
| "found_version _ = 0"

fun current_version :: "core_error \<Rightarrow> u16" where
  "current_version (SchemaTooNew f c) = c"
| "current_version _ = 0"

section \<open>Memory units (model/unit.rs)\<close>

datatype language = Lang_Zh | Lang_En | Lang_Code | Lang_Mixed | Lang_Other u16

datatype content_type =
    CT_UserStatement | CT_AssistantObservation | CT_ToolResult | CT_Decision | CT_Preference
  | CT_Event | CT_TaskState | CT_ProjectKnowledge | CT_Reflection | CT_Correction

datatype source_kind =
  SK_Conversation | SK_File | SK_Tool | SK_ExternalSystem | SK_MemoryRef | SK_Other

record text_span =
  span_start :: u32
  span_end :: u32

record source_ref =
  sr_kind :: source_kind
  sr_locator :: string
  sr_span :: "text_span option"

record memory_content =
  mc_raw :: string
  mc_summary :: "string option"
  mc_normalized :: "string option"
  mc_language :: language
  mc_content_type :: content_type

record write_context =
  conversation_id :: "u64 option"
  session_id :: "u64 option"
  project_id :: "u64 option"
  task_id :: "u64 option"
  user_id :: "u64 option"
  local_time :: timestamp
  preceding_memory_ids :: "memory_id list"
  source_refs :: "source_ref list"

datatype memory_stage = MS_Raw | MS_Indexed | MS_Enriched | MS_Consolidated

datatype memory_lifecycle =
    LC_Active
  | LC_Compressed memory_id
  | LC_Archived
  | LC_Superseded memory_id
  | LC_Deprecated
  | LC_Negated memory_id

datatype generated_by =
  GB_UserDirect | GB_Extractor string | GB_Consolidation | GB_Rule

record revision_mark =
  rm_at :: timestamp
  rm_reason :: string
  rm_by :: generated_by

record provenance =
  pv_origin :: source_kind
  pv_generated_by :: generated_by
  pv_reliability :: unit_score
  pv_evidence_refs :: "source_ref list"
  pv_revision_history :: "revision_mark list"

section \<open>Understanding frames (model/understanding.rs)\<close>

datatype entity_type =
  ET_Person | ET_Project | ET_Library | ET_File | ET_Org | ET_Concept | ET_Other

record entity_mention =
  em_text :: string
  em_canonical :: string
  em_entity_type :: entity_type
  em_span :: "text_span option"
  em_confidence :: unit_score

record event_frame =
  ev_action :: string
  ev_participants :: "string list"
  ev_occurred_at :: "timestamp option"
  ev_outcome :: "string option"
  ev_confidence :: unit_score

datatype goal_status = GS_Active | GS_Achieved | GS_Abandoned | GS_Blocked | GS_Unknown

record goal_frame =
  gf_description :: string
  gf_status :: goal_status
  gf_constraints :: "string list"
  gf_confidence :: unit_score

record decision_frame =
  df_decision :: string
  df_rationale :: "string option"
  df_decided_at :: "timestamp option"
  df_reverted :: bool
  df_confidence :: unit_score

datatype polarity = Like | Dislike | Neutral

record preference_frame =
  pf_object :: string
  pf_polarity :: polarity
  pf_strength :: unit_score
  pf_still_valid :: bool
  pf_confidence :: unit_score

datatype emotion_kind =
    EK_Joy | EK_Sadness | EK_Anger | EK_Fear | EK_Surprise | EK_Disgust | EK_Frustration
  | EK_Anxiety | EK_Satisfaction | EK_Neutral | EK_Other

record emotion_frame =
  ef_emotion :: emotion_kind
  ef_intensity :: unit_score
  ef_trigger :: "string option"
  ef_confidence :: unit_score

datatype causal_kind = CK_Explicit | CK_Implicit

record causal_claim =
  cc_cause :: string
  cc_effect :: string
  cc_kind :: causal_kind
  cc_evidence_span :: "text_span option"
  cc_confidence :: unit_score

record contradiction_hint =
  ch_statement_a :: string
  ch_conflicts_with :: "memory_id option"
  ch_note :: string
  ch_confidence :: unit_score

record topic_tag =
  tt_label :: string
  tt_confidence :: unit_score

record memory_understanding =
  mu_entities :: "entity_mention list"
  mu_events :: "event_frame list"
  mu_goals :: "goal_frame list"
  mu_decisions :: "decision_frame list"
  mu_preferences :: "preference_frame list"
  mu_emotions :: "emotion_frame list"
  mu_causal_claims :: "causal_claim list"
  mu_contradictions :: "contradiction_hint list"
  mu_topics :: "topic_tag list"
  mu_importance :: unit_score
  mu_confidence :: unit_score

section \<open>Association keys and edges (model/links.rs)\<close>

text \<open>The fixed-size arrays \<open>[u64; 4]\<close>, \<open>[u64; 2]\<close> and \<open>[u32; 16]\<close> are lists of that length.\<close>

record lexical_signature =
  ls_simhash :: "u64 list"

record semantic_signature =
  ss_lexical_simhash :: "u64 list"
  ss_dense_embedding_ref :: "vector_id option"
  ss_binary_code :: "u64 list"
  ss_topic_minhash :: "u32 list"

record association_keys =
  ak_entity_keys :: "entity_key list"
  ak_temporal_keys :: "temporal_key list"
  ak_lexical_signature :: lexical_signature
  ak_semantic_signature :: semantic_signature
  ak_topic_keys :: "topic_key list"
  ak_emotion_keys :: "emotion_key list"
  ak_goal_keys :: "goal_key list"
  ak_event_keys :: "event_key list"
  ak_causal_keys :: "causal_key list"

datatype link_type =
    LT_EntityOverlap | LT_TemporalAdjacent | LT_SemanticSimilar | LT_TopicRelated | LT_SameGoal
  | LT_SameEvent | LT_Causal | LT_EmotionalResonance | LT_Contradiction | LT_Correction
  | LT_Elaboration | LT_CoActivation | LT_Supersedes | LT_Deprecated

datatype link_direction = Undirected | Forward | Backward

datatype match_dimension =
    MD_Entity | MD_Semantic | MD_Temporal | MD_Topic | MD_Goal | MD_Event | MD_Emotion
  | MD_Causal | MD_CoContext | MD_Importance

record link_evidence =
  le_contributing_dimensions :: "match_dimension list"
  le_score_breakdown :: "(match_dimension \<times> f32) list"
  le_text_spans :: "text_span list"
  le_note :: "string option"

datatype observation_state = Confirmed | Observing timestamp

fun is_observing :: "observation_state \<Rightarrow> bool" where
  "is_observing (Observing _) = True"
| "is_observing Confirmed = False"

record association_link =
  target_id :: memory_id
  link_type :: link_type
  direction :: link_direction
  strength :: unit_score
  confidence :: unit_score
  evidence :: link_evidence
  formed_at :: timestamp
  last_activated_at :: "timestamp option"
  activation_count :: u32
  observation :: observation_state

record co_activation_count =
  ca_with :: memory_id
  ca_count :: u32
  ca_last_at :: timestamp

record activation_state =
  last_retrieved_at :: "timestamp option"
  retrieval_count :: u32
  co_activations :: "co_activation_count list"
  usage_score :: unit_score

datatype recall_channel =
    RC_Bm25 | RC_EntityInverted | RC_SemanticDense | RC_SemanticBinary | RC_Temporal
  | RC_TopicCluster | RC_Goal | RC_Event | RC_Causal | RC_RecentActivation | RC_GraphSpreading

record activation_step =
  step_from :: "memory_id option"
  step_to :: memory_id
  step_via_link :: "link_type option"
  step_channel :: "recall_channel option"
  step_hop :: u8
  step_energy_in :: f32
  step_energy_out :: f32

datatype retrieval_mode = Fast | Balanced | Deep | Diagnostic

datatype memory_warning =
    MW_HasCorrection memory_id
  | MW_HasContradiction memory_id
  | MW_Superseded memory_id
  | MW_Deprecated
  | MW_LowConfidence
  | MW_StaleFreshness

section \<open>The memory unit\<close>

record memory_unit =
  schema_version :: u16
  mem_id :: memory_id
  created_at :: timestamp
  updated_at :: timestamp
  content :: memory_content
  mem_context :: write_context
  understanding :: memory_understanding
  keys :: association_keys
  links :: "association_link list"
  activation :: activation_state
  lifecycle :: memory_lifecycle
  provenance_of :: provenance
  stage :: memory_stage

record retrieval_result =
  rr_memory :: memory_unit
  rr_final_score :: f32
  rr_activation_trace :: "activation_step list"
  rr_matched_dimensions :: "match_dimension list"
  rr_warnings :: "memory_warning list"

section \<open>Well-formed edges\<close>

text \<open>
  The documented invariants of \<open>MemoryUnit.links\<close> (\<open>model/unit.rs\<close>): one edge per pair of target
  and type, no edge from a unit to itself; and of \<open>UnitScore\<close>: strength and confidence in the
  unit interval.
\<close>

definition link_key :: "association_link \<Rightarrow> memory_id \<times> link_type" where
  "link_key l = (target_id l, link_type l)"

definition link_wf :: "association_link \<Rightarrow> bool" where
  "link_wf l \<longleftrightarrow> score_wf (strength l) \<and> score_wf (confidence l)"

definition links_wf :: "association_link list \<Rightarrow> bool" where
  "links_wf ls \<longleftrightarrow> list_all link_wf ls"

definition links_unique :: "association_link list \<Rightarrow> bool" where
  "links_unique ls \<longleftrightarrow> distinct (map link_key ls)"

definition no_self_loop :: "memory_unit \<Rightarrow> bool" where
  "no_self_loop u \<longleftrightarrow> (\<forall>l \<in> set (links u). target_id l \<noteq> mem_id u)"

abbreviation link_strength :: "association_link \<Rightarrow> f32" where
  "link_strength l \<equiv> score_value (strength l)"

lemma link_wf_strength: "link_wf l \<Longrightarrow> unit_f32 (link_strength l)"
  by (simp add: link_wf_def score_wf_def)

lemma link_wf_set_strength [unit_ok]:
  "link_wf l \<Longrightarrow> f32_valid v \<Longrightarrow> link_wf (l\<lparr>strength := unit_score_new v\<rparr>)"
  by (simp add: link_wf_def score_wf_new)

section \<open>A concrete unit and a concrete edge\<close>

text \<open>A unit with an identifier, a text and edges, and an edge, for the concrete instances of the
  theorems.\<close>

definition demo_unit :: "nat \<Rightarrow> string \<Rightarrow> association_link list \<Rightarrow> memory_unit" where
  "demo_unit i raw ls =
     \<lparr>schema_version = 1, mem_id = MemoryId (of_nat i), created_at = Timestamp 0,
      updated_at = Timestamp 0,
      content = \<lparr>mc_raw = raw, mc_summary = None, mc_normalized = None, mc_language = Lang_En,
        mc_content_type = CT_UserStatement\<rparr>,
      mem_context = \<lparr>conversation_id = None, session_id = None, project_id = None, task_id = None,
        user_id = None, local_time = Timestamp 0, preceding_memory_ids = [], source_refs = []\<rparr>,
      understanding = \<lparr>mu_entities = [], mu_events = [], mu_goals = [], mu_decisions = [],
        mu_preferences = [], mu_emotions = [], mu_causal_claims = [], mu_contradictions = [],
        mu_topics = [], mu_importance = unit_score_default, mu_confidence = unit_score_default\<rparr>,
      keys = \<lparr>ak_entity_keys = [], ak_temporal_keys = [],
        ak_lexical_signature = \<lparr>ls_simhash = [0, 0, 0, 0]\<rparr>,
        ak_semantic_signature = \<lparr>ss_lexical_simhash = [0, 0, 0, 0], ss_dense_embedding_ref = None,
          ss_binary_code = [0, 0], ss_topic_minhash = replicate 16 0\<rparr>,
        ak_topic_keys = [], ak_emotion_keys = [], ak_goal_keys = [], ak_event_keys = [],
        ak_causal_keys = []\<rparr>,
      links = ls,
      activation = \<lparr>last_retrieved_at = None, retrieval_count = 0, co_activations = [],
        usage_score = unit_score_default\<rparr>,
      lifecycle = LC_Active,
      provenance_of = \<lparr>pv_origin = SK_Conversation, pv_generated_by = GB_UserDirect,
        pv_reliability = unit_score_default, pv_evidence_refs = [], pv_revision_history = []\<rparr>,
      stage = MS_Indexed\<rparr>"

lemma demo_unit_simps [simp]:
  "mem_id (demo_unit i raw ls) = MemoryId (of_nat i)"
  "links (demo_unit i raw ls) = ls"
  "lifecycle (demo_unit i raw ls) = LC_Active"
  "mc_raw (content (demo_unit i raw ls)) = raw"
  by (simp_all add: demo_unit_def)

definition demo_link :: "nat \<Rightarrow> link_type \<Rightarrow> rat \<Rightarrow> association_link" where
  "demo_link t lt s =
     \<lparr>target_id = MemoryId (of_nat t), link_type = lt, direction = Forward,
      strength = unit_score_new (f32_of_rat s), confidence = unit_score_new (f32_of_rat (1/2)),
      evidence = \<lparr>le_contributing_dimensions = [], le_score_breakdown = [], le_text_spans = [],
        le_note = None\<rparr>, formed_at = Timestamp 0, last_activated_at = None,
      activation_count = 0, observation = Confirmed\<rparr>"

lemma demo_link_wf: "link_wf (demo_link t lt s)"
  by (simp add: demo_link_def link_wf_def score_wf_new)

end
