(* ===== verification/Core_Time.thy ===== *)
theory Core_Time
  imports Core_Types
begin

text \<open>
  The clock and the civil calendar of \<open>hippmem-core/src/time.rs\<close>. Division of \<open>i64\<close> truncates;
  \<open>month\<close> and \<open>day\<close> are \<open>u32\<close> values (small naturals here), and the casts of the reverse function
  are written out. The theorems are that the two functions are inverse to each other: on every day
  number, and on every valid date of the proleptic Gregorian calendar.
\<close>

record fixed_clock =
  fc_timestamp :: timestamp

definition fixed_clock_new :: "timestamp \<Rightarrow> fixed_clock" where
  "fixed_clock_new t = \<lparr>fc_timestamp = t\<rparr>"

definition fixed_clock_set :: "fixed_clock \<Rightarrow> timestamp \<Rightarrow> fixed_clock" where
  "fixed_clock_set c t = c\<lparr>fc_timestamp := t\<rparr>"

definition fixed_clock_now :: "fixed_clock \<Rightarrow> timestamp" where
  "fixed_clock_now c = fc_timestamp c"

definition trunc_div :: "int \<Rightarrow> int \<Rightarrow> int" where
  "trunc_div a b = sgn a * sgn b * (\<bar>a\<bar> div \<bar>b\<bar>)"

definition days_from_civil :: "i64 \<Rightarrow> nat \<Rightarrow> nat \<Rightarrow> i64" where
  "days_from_civil year month day =
     (let y = (if month \<le> 2 then year - 1 else year);
          era = trunc_div (if 0 \<le> y then y else y - 399) 400;
          yoe = y - era * 400;
          doy = trunc_div (153 * int (if 2 < month then month - 3 else month + 9) + 2) 5
                + int day - 1;
          doe = yoe * 365 + trunc_div yoe 4 - trunc_div yoe 100 + doy
      in era * 146097 + doe - 719468)"

definition civil_from_days :: "i64 \<Rightarrow> i64 \<times> nat \<times> nat" where
  "civil_from_days days =
     (let z = days + 719468;
          era = trunc_div (if 0 \<le> z then z else z - 146096) 146097;
          doe = z - era * 146097;
          yoe = trunc_div (doe - trunc_div doe 1460 + trunc_div doe 36524 - trunc_div doe 146096) 365;
          y = yoe + era * 400;
          doy = doe - (365 * yoe + trunc_div yoe 4 - trunc_div yoe 100);
          mp = trunc_div (5 * doy + 2) 153;
          d = nat ((doy - trunc_div (153 * mp + 2) 5 + 1) mod 2 ^ 32);
          m = nat ((if mp < 10 then mp + 3 else mp - 9) mod 2 ^ 32)
      in (if m \<le> 2 then y + 1 else y, m, d))"

lemma trunc_div_nonneg [simp]: "0 \<le> a \<Longrightarrow> 0 < b \<Longrightarrow> trunc_div a b = a div b"
  by (cases "a = 0") (auto simp: trunc_div_def)

text \<open>The adjusted dividend makes the truncating division of an era a floor division.\<close>

lemma trunc_div_era:
  assumes "0 < b" "c = b - 1"
  shows "trunc_div (if 0 \<le> y then y else y - c) b = y div b"
proof (cases "0 \<le> y")
  case False
  define t where "t = - y + (b - 1)"
  have t: "0 \<le> t" and e: "y - c = - t" using False assms by (auto simp: t_def)
  have "t div b = - (y div b)"
  proof (rule int_div_pos_eq[where r = "b - 1 - y mod b"])
    show "t = b * - (y div b) + (b - 1 - y mod b)"
      using mult_div_mod_eq[of b y] unfolding t_def by linarith
  qed (use assms pos_mod_bound[of b y] pos_mod_sign[of b y] in linarith)+
  moreover have "trunc_div (- t) b = - (t div b)"
    using t assms by (cases "t = 0") (auto simp: trunc_div_def sgn_if)
  ultimately show ?thesis using False e by simp
qed (use assms in simp)

section \<open>The days of an era\<close>

definition year_start :: "int \<Rightarrow> int" where
  "year_start y = 365 * y + y div 4 - y div 100"

definition year_pos :: "int \<Rightarrow> int" where
  "year_pos doe = doe - doe div 1460 + doe div 36524 - doe div 146096"

definition year_bound :: "int \<Rightarrow> int" where
  "year_bound y = (if y = 399 then 146097 else year_start (y + 1))"

definition leap_year :: "int \<Rightarrow> bool" where
  "leap_year y \<longleftrightarrow> y mod 4 = 0 \<and> (y mod 100 \<noteq> 0 \<or> y mod 400 = 0)"

lemma year_table: "list_all (\<lambda>y. 365 * y \<le> year_pos (year_start y) \<and>
    year_pos (year_bound y - 1) < 365 * (y + 1) \<and> year_bound y - year_start y = (if leap_year (y + 1) then 366 else 365) \<and>
    year_start y < year_bound y \<and> (y < 399 \<longrightarrow> year_bound y = year_start (y + 1))) [0..399]"
  by code_simp

lemma year_pos_step:
  assumes "0 \<le> d" "d < 146096"
  shows "year_pos d \<le> year_pos (d + 1)"
proof (cases "d = 146095")
  case True
  then show ?thesis by (simp add: year_pos_def)
next
  case False
  then have z: "(d + 1) div 146096 = 0" "d div 146096 = 0" using assms by simp_all
  have "(d + 1) div 1460 \<le> d div 1460 + 1" by linarith
  moreover have "d div 36524 \<le> (d + 1) div 36524" by (rule zdiv_mono1) simp_all
  ultimately show ?thesis unfolding year_pos_def z by linarith
qed

lemma year_pos_mono:
  assumes "0 \<le> a" "a \<le> b" "b \<le> 146096"
  shows "year_pos a \<le> year_pos b"
proof -
  have "b \<le> 146096 \<longrightarrow> year_pos a \<le> year_pos b"
    using assms(2)
  proof (induction b rule: int_ge_induct)
    case (step i)
    then show ?case using year_pos_step[of i] assms(1) by linarith
  qed simp
  then show ?thesis using assms(3) by blast
qed

lemma year_table_at:
  assumes "0 \<le> y" "y \<le> 399"
  shows "365 * y \<le> year_pos (year_start y)" "year_pos (year_bound y - 1) < 365 * (y + 1)"
    "year_bound y - year_start y = (if leap_year (y + 1) then 366 else 365)" "year_start y < year_bound y"
    "y < 399 \<Longrightarrow> year_bound y = year_start (y + 1)"
  using year_table assms by (auto simp: list_all_iff)

lemma year_start_mono:
  assumes "0 \<le> x" "x \<le> y" "y \<le> 399"
  shows "year_start x \<le> year_start y"
proof -
  have "y div 100 - x div 100 \<le> y - x" "x div 4 \<le> y div 4"
    using assms by (linarith, simp add: zdiv_mono1)
  then show ?thesis using assms unfolding year_start_def by linarith
qed

lemma year_start_nonneg: "0 \<le> y \<Longrightarrow> y \<le> 399 \<Longrightarrow> 0 \<le> year_start y"
  using year_start_mono[of 0 y] by (simp add: year_start_def[of 0])

lemma year_bound_le: "0 \<le> y \<Longrightarrow> y \<le> 399 \<Longrightarrow> year_bound y \<le> 146097"
  using year_start_mono[of "y + 1" 399] year_table_at(4)[of 399]
  by (cases "y = 399") (auto simp: year_bound_def)

text \<open>Every day of an era lies in exactly one of its 400 years, and the formula finds it.\<close>

lemma year_of_day:
  assumes y: "0 \<le> y" "y \<le> 399" and d: "year_start y \<le> doe" "doe < year_bound y"
  shows "year_pos doe div 365 = y"
proof -
  have s: "0 \<le> year_start y" using y by (rule year_start_nonneg)
  have "year_pos (year_start y) \<le> year_pos doe" "year_pos doe \<le> year_pos (year_bound y - 1)"
    using d s year_bound_le[OF y] by (auto intro!: year_pos_mono)
  with year_table_at(1,2)[OF y] have "365 * y \<le> year_pos doe" "year_pos doe < 365 * (y + 1)"
    by linarith+
  then show ?thesis by (intro int_div_pos_eq[where r = "year_pos doe - 365 * y"]) auto
qed

lemma year_exists:
  assumes "0 \<le> doe" "doe < 146097"
  shows "\<exists>y. 0 \<le> y \<and> y \<le> 399 \<and> year_start y \<le> doe \<and> doe < year_bound y"
proof -
  define S where "S = {y \<in> {0..399}. year_start y \<le> doe}"
  have fin: "finite S" unfolding S_def by (rule finite_subset[of _ "{0..399}"]) auto
  moreover have "0 \<in> S" using assms by (simp add: S_def year_start_def)
  ultimately have m: "Max S \<in> S" using Max_in by blast
  have "doe < year_bound (Max S)"
  proof (cases "Max S = 399")
    case True
    then show ?thesis using assms by (simp add: year_bound_def)
  next
    case False
    then have "Max S + 1 \<notin> S" using Max_ge[OF fin] by fastforce
    then show ?thesis using m False by (auto simp: S_def year_bound_def)
  qed
  then show ?thesis using m by (auto simp: S_def)
qed

lemma year_of_day_bounds:
  assumes "0 \<le> doe" "doe < 146097"
  defines "yoe \<equiv> year_pos doe div 365"
  shows "0 \<le> yoe" "yoe \<le> 399" "year_start yoe \<le> doe" "doe < year_bound yoe"
  using year_exists[OF assms(1,2)] year_of_day unfolding yoe_def by auto

section \<open>Days of a year, counted from the first of March\<close>

definition month_start :: "int \<Rightarrow> int" where
  "month_start mp = (153 * mp + 2) div 5"

lemma month_of_doy:
  assumes "0 \<le> mp" "mp \<le> 11" "month_start mp \<le> doy" "doy < month_start (mp + 1) \<or> mp = 11 \<and> doy \<le> 365"
  shows "(5 * doy + 2) div 153 = mp"
proof (rule int_div_pos_eq[where r = "5 * doy + 2 - 153 * mp"])
  show "0 \<le> 5 * doy + 2 - 153 * mp" "5 * doy + 2 - 153 * mp < 153"
    using assms unfolding month_start_def by (auto; linarith)+
qed auto

lemma month_of_doy_bounds:
  assumes "0 \<le> doy" "doy \<le> 365"
  shows "0 \<le> (5 * doy + 2) div 153" "(5 * doy + 2) div 153 \<le> 11"
    "month_start ((5 * doy + 2) div 153) \<le> doy" "doy - month_start ((5 * doy + 2) div 153) \<le> 30"
proof -
  let ?mp = "(5 * doy + 2) div 153"
  have m: "153 * ?mp \<le> 5 * doy + 2" "5 * doy + 2 < 153 * ?mp + 153" by linarith+
  show "0 \<le> ?mp" "?mp \<le> 11" using assms by linarith+
  show "month_start ?mp \<le> doy" "doy - month_start ?mp \<le> 30"
    using m unfolding month_start_def by linarith+
qed

section \<open>The two conversions\<close>

text \<open>Both functions over the floor-division quantities of the sections above.\<close>

lemma days_from_civil_eq:
  fixes year :: int and month day :: nat
  assumes "1 \<le> month" "month \<le> 12"
  defines "y \<equiv> (if month \<le> 2 then year - 1 else year)"
    and "mp \<equiv> int (if 2 < month then month - 3 else month + 9)"
  shows "days_from_civil year month day =
    y div 400 * 146097 + year_start (y mod 400) + month_start mp + int day - 719469"
proof -
  have era: "trunc_div (if 0 \<le> y then y else y - 399) 400 = y div 400"
    by (rule trunc_div_era) simp_all
  have yoe: "y - y div 400 * 400 = y mod 400" by (simp add: minus_div_mult_eq_mod)
  have mp: "trunc_div (153 * mp + 2) 5 = month_start mp"
    by (simp add: month_start_def mp_def)
  show ?thesis
    unfolding days_from_civil_def Let_def y_def[symmetric] mp_def[symmetric] era yoe mp
    by (simp add: year_start_def)
qed

lemma civil_from_days_cases:
  obtains era yoe mp dd where
    "days = era * 146097 + year_start yoe + month_start mp + dd - 719468"
    "civil_from_days days =
      (if mp < 10 then yoe + era * 400 else yoe + era * 400 + 1,
       nat (if mp < 10 then mp + 3 else mp - 9), nat (dd + 1))"
    "0 \<le> yoe" "yoe \<le> 399" "0 \<le> mp" "mp \<le> 11" "0 \<le> dd" "dd \<le> 30"
    "yoe = year_pos ((days + 719468) mod 146097) div 365" "era = (days + 719468) div 146097"
    "mp = (5 * ((days + 719468) mod 146097 - year_start yoe) + 2) div 153"
proof -
  define z where "z = days + 719468"
  define era where "era = z div 146097"
  define doe where "doe = z mod 146097"
  define yoe where "yoe = year_pos doe div 365"
  define doy where "doy = doe - year_start yoe"
  define mp where "mp = (5 * doy + 2) div 153"
  have era: "trunc_div (if 0 \<le> z then z else z - 146096) 146097 = era"
    unfolding era_def by (rule trunc_div_era) simp_all
  have doe: "z - era * 146097 = doe" by (simp add: doe_def era_def minus_div_mult_eq_mod)
  have db: "0 \<le> doe" "doe < 146097" by (simp_all add: doe_def)
  note y = year_of_day_bounds[OF db, folded yoe_def]
  have dy: "0 \<le> doy" "doy \<le> 365"
    using y(3,4) year_table_at(3)[OF y(1,2)] by (auto simp: doy_def split: if_splits)
  note m = month_of_doy_bounds[OF dy, folded mp_def]
  have pos: "0 \<le> year_pos doe" using year_pos_mono[of 0 doe] db by (simp add: year_pos_def)
  have yoe: "trunc_div (doe - trunc_div doe 1460 + trunc_div doe 36524 - trunc_div doe 146096) 365 = yoe"
    using db pos by (simp add: yoe_def year_pos_def)
  have doy: "doe - (365 * yoe + trunc_div yoe 4 - trunc_div yoe 100) = doy"
    using y by (simp add: doy_def year_start_def)
  have mp: "trunc_div (5 * doy + 2) 153 = mp" using dy by (simp add: mp_def)
  have ms: "trunc_div (153 * mp + 2) 5 = month_start mp" using m by (simp add: month_start_def)
  have small: "x mod 2 ^ 32 = x" if "0 \<le> x" "x \<le> 31" for x :: int
    using that by (intro mod_pos_pos_trivial) auto
  have d: "(doy - month_start mp + 1) mod 2 ^ 32 = doy - month_start mp + 1"
    using m(3,4) by (intro small) linarith+
  have mm: "(if mp < 10 then mp + 3 else mp - 9) mod 2 ^ 32 = (if mp < 10 then mp + 3 else mp - 9)"
    using m(1,2) by (intro small) (simp_all split: if_splits)
  have le2: "nat (if mp < 10 then mp + 3 else mp - 9) \<le> 2 \<longleftrightarrow> \<not> mp < 10"
    using m by (auto split: if_splits)
  show thesis
  proof (rule that[of era yoe mp "doy - month_start mp"])
    show "days = era * 146097 + year_start yoe + month_start mp + (doy - month_start mp) - 719468"
      using doe unfolding doy_def z_def by linarith
    show "civil_from_days days = (if mp < 10 then yoe + era * 400 else yoe + era * 400 + 1,
       nat (if mp < 10 then mp + 3 else mp - 9), nat (doy - month_start mp + 1))"
      unfolding civil_from_days_def Let_def z_def[symmetric] era doe yoe doy mp ms d mm le2
      by simp
    show "yoe = year_pos ((days + 719468) mod 146097) div 365"
      by (simp only: yoe_def doe_def z_def)
    show "era = (days + 719468) div 146097" by (simp only: era_def z_def)
    show "mp = (5 * ((days + 719468) mod 146097 - year_start yoe) + 2) div 153"
      by (simp only: mp_def doy_def doe_def z_def)
    show "0 \<le> doy - month_start mp" using m(3) by linarith
  qed (fact y(1) y(2) m)+
qed

definition days_in_month :: "int \<Rightarrow> nat \<Rightarrow> nat" where
  "days_in_month y m =
     (if m = 2 then (if leap_year y then 29 else 28)
      else if m \<in> {4, 6, 9, 11} then 30 else 31)"

definition valid_date :: "int \<Rightarrow> nat \<Rightarrow> nat \<Rightarrow> bool" where
  "valid_date y m d \<longleftrightarrow> 1 \<le> m \<and> m \<le> 12 \<and> 1 \<le> d \<and> d \<le> days_in_month y m"

lemma days_civil_days:
  "(case civil_from_days days of (y, m, d) \<Rightarrow> days_from_civil y m d) = days"
proof (rule civil_from_days_cases[of days])
  fix era yoe mp dd
  assume days: "days = era * 146097 + year_start yoe + month_start mp + dd - 719468"
    and civ: "civil_from_days days = (if mp < 10 then yoe + era * 400 else yoe + era * 400 + 1,
       nat (if mp < 10 then mp + 3 else mp - 9), nat (dd + 1))"
    and b: "0 \<le> yoe" "yoe \<le> 399" "0 \<le> mp" "mp \<le> 11" "0 \<le> dd" "dd \<le> 30"
  define m where "m = nat (if mp < 10 then mp + 3 else mp - 9)"
  define y where "y = (if mp < 10 then yoe + era * 400 else yoe + era * 400 + 1)"
  have m: "1 \<le> m" "m \<le> 12" "m \<le> 2 \<longleftrightarrow> \<not> mp < 10" using b by (auto simp: m_def)
  have y: "(if m \<le> 2 then y - 1 else y) = yoe + era * 400" using m by (auto simp: y_def)
  have mp: "int (if 2 < m then m - 3 else m + 9) = mp" using b m by (auto simp: m_def)
  have "(yoe + era * 400) div 400 = era" "(yoe + era * 400) mod 400 = yoe"
    using b by auto
  then have "days_from_civil y m (nat (dd + 1)) = days"
    unfolding days_from_civil_eq[OF m(1,2)] y mp using b days by simp
  then show ?thesis unfolding civ prod.case m_def y_def .
qed

lemma leap_year_mod: "leap_year (y mod 400 + 1) \<longleftrightarrow> leap_year (y + 1)"
proof -
  have "(y mod 400 + 1) mod n = (y + 1) mod n" if "n dvd 400" for n
    using mod_add_left_eq[of "y mod 400" n 1] mod_add_left_eq[of y n 1] mod_mod_cancel[OF that, of y]
    by simp
  then show ?thesis by (simp add: leap_year_def)
qed

text \<open>The day of a valid date within its year that begins in March.\<close>

lemma valid_date_doy:
  fixes m d :: nat and y :: int
  assumes "valid_date y m d"
  defines "mp \<equiv> int (if 2 < m then m - 3 else m + 9)"
    and "Y \<equiv> (if m \<le> 2 then y - 1 else y)"
  shows "0 \<le> mp" "mp \<le> 11" "month_start mp + int d - 1 < month_start (mp + 1) \<or>
      mp = 11 \<and> month_start mp + int d - 1 \<le> 365"
    "month_start mp + int d - 1 < (if leap_year (Y + 1) then 366 else 365)"
proof -
  have m: "1 \<le> m" "m \<le> 12" and d: "1 \<le> d" "d \<le> days_in_month y m"
    using assms(1) by (simp_all add: valid_date_def)
  from m(2) have "m = 0 \<or> m = 1 \<or> m = 2 \<or> m = 3 \<or> m = 4 \<or> m = 5 \<or> m = 6 \<or> m = 7 \<or> m = 8
      \<or> m = 9 \<or> m = 10 \<or> m = 11 \<or> m = 12"
    by (simp add: numeral_eq_Suc le_Suc_eq)
  with m(1) consider "m = 1" | "m = 2" | "m = 3" | "m = 4" | "m = 5" | "m = 6" | "m = 7" | "m = 8"
    | "m = 9" | "m = 10" | "m = 11" | "m = 12" by fastforce
  note mcases = this
  show "0 \<le> mp" by (simp add: mp_def)
  show "mp \<le> 11" using mcases by cases (simp_all add: mp_def)
  show "month_start mp + int d - 1 < month_start (mp + 1) \<or>
      mp = 11 \<and> month_start mp + int d - 1 \<le> 365"
    using mcases d
    by cases (simp_all add: mp_def month_start_def days_in_month_def split: if_splits)
  show "month_start mp + int d - 1 < (if leap_year (Y + 1) then 366 else 365)"
    using mcases d
    by cases (simp_all add: mp_def Y_def month_start_def days_in_month_def split: if_splits)
qed

lemma civil_days_civil:
  assumes v: "valid_date y m d"
  shows "civil_from_days (days_from_civil y m d) = (y, m, d)"
proof -
  define mp where "mp = int (if 2 < m then m - 3 else m + 9)"
  define Y where "Y = (if m \<le> 2 then y - 1 else y)"
  define days where "days = days_from_civil y m d"
  define doy where "doy = month_start mp + int d - 1"
  define doe where "doe = year_start (Y mod 400) + doy"
  note doy = valid_date_doy[OF v, folded mp_def Y_def, folded doy_def]
  have m: "1 \<le> m" "m \<le> 12" "1 \<le> d" using v by (simp_all add: valid_date_def)
  have z: "days + 719468 = doe + Y div 400 * 146097"
    using days_from_civil_eq[OF m(1,2), of y d, folded mp_def Y_def]
    by (simp add: days_def doe_def doy_def)
  have yb: "0 \<le> Y mod 400" "Y mod 400 \<le> 399" by simp_all
  have ms: "0 \<le> month_start mp" using doy(1) by (simp add: month_start_def)
  have db: "year_start (Y mod 400) \<le> doe" "doe < year_bound (Y mod 400)"
    using ms m(3) doy(4) year_table_at(3)[OF yb] by (auto simp: doe_def doy_def leap_year_mod)
  have "0 \<le> doe" using db(1) year_start_nonneg[OF yb] by linarith
  moreover have "doe < 146097" using db(2) year_bound_le[OF yb] by linarith
  ultimately have era: "(days + 719468) div 146097 = Y div 400"
    and mod: "(days + 719468) mod 146097 = doe"
    unfolding z by (simp_all add: div_mult_self1 mod_mult_self1)
  have yoe: "year_pos doe div 365 = Y mod 400" by (rule year_of_day[OF yb db])
  have mpe: "(5 * (doe - year_start (Y mod 400)) + 2) div 153 = mp"
    using month_of_doy[OF doy(1,2) _ doy(3)] m(3) by (simp add: doe_def doy_def)
  show ?thesis
  proof (rule civil_from_days_cases[of days])
    fix era' yoe' mp' dd
    assume days: "days = era' * 146097 + year_start yoe' + month_start mp' + dd - 719468"
      and civ: "civil_from_days days = (if mp' < 10 then yoe' + era' * 400 else yoe' + era' * 400 + 1,
         nat (if mp' < 10 then mp' + 3 else mp' - 9), nat (dd + 1))"
      and e: "yoe' = year_pos ((days + 719468) mod 146097) div 365" "era' = (days + 719468) div 146097"
         "mp' = (5 * ((days + 719468) mod 146097 - year_start yoe') + 2) div 153"
    have eq: "yoe' = Y mod 400" "era' = Y div 400" "mp' = mp"
      using e era yoe mpe unfolding mod by simp_all
    have dd: "dd = int d - 1"
      using days z unfolding eq doe_def doy_def by linarith
    have Ye: "Y mod 400 + Y div 400 * 400 = Y" by (rule mod_div_mult_eq)
    have mm: "mp < 10 \<longleftrightarrow> 2 < m" "nat (if 2 < m then mp + 3 else mp - 9) = m"
      using m by (auto simp: mp_def)
    show ?thesis
      unfolding days_def[symmetric] civ eq dd Ye mm using m
      by (simp add: Y_def)
  qed
qed



end
