(* ===== verification/Link_Updates.thy ===== *)
theory Link_Updates
  imports Core_Types
begin

text \<open>
  The contract of an operation that rewrites or drops single edges of a unit, as the consolidation
  and feedback steps do: it keeps the target and the type of an edge, its scores stay in the unit
  interval, and a strength at or above the retention floor 0.12 stays there. The locale
  \<open>edge_retain\<close> is the contract of \<open>retain_mut\<close> (an edge may be dropped), \<open>edge_update\<close> the one of
  \<open>iter_mut\<close>; the second gives the first. Every step of the model is an interpretation.
\<close>

definition retention_floor :: f32 where
  "retention_floor = f32_of_rat (12/100)"

definition retained :: "association_link \<Rightarrow> bool" where
  "retained l \<longleftrightarrow> retention_floor \<le> link_strength l"

text \<open>\<open>Vec::retain_mut\<close>: the closure updates an edge and says whether it stays.\<close>

fun retain_mut :: "('a \<Rightarrow> 'a option) \<Rightarrow> 'a list \<Rightarrow> 'a list" where
  "retain_mut f [] = []"
| "retain_mut f (x # xs) =
     (case f x of None \<Rightarrow> retain_mut f xs | Some y \<Rightarrow> y # retain_mut f xs)"

lemma set_retain_mut: "set (retain_mut f xs) = {y. \<exists>x \<in> set xs. f x = Some y}"
  by (induction xs) (auto split: option.splits)

lemma length_retain_mut: "length (retain_mut f xs) \<le> length xs"
  by (induction xs) (auto split: option.splits)

lemma retain_mut_Some [simp]: "retain_mut (\<lambda>x. Some (f x)) xs = map f xs"
  by (induction xs) auto

lemma distinct_map_retain_mut:
  assumes "distinct (map k xs)" and "\<And>x y. f x = Some y \<Longrightarrow> k y = k x"
  shows "distinct (map k (retain_mut f xs))"
  using assms(1)
proof (induction xs)
  case (Cons x xs)
  have "k ` set (retain_mut f xs) \<subseteq> k ` set xs"
    using assms(2) by (fastforce simp: set_retain_mut)
  with Cons assms(2) show ?case by (auto split: option.splits)
qed simp

locale edge_retain =
  fixes upd :: "association_link \<Rightarrow> association_link option"
  assumes keep_key: "upd l = Some l' \<Longrightarrow> link_key l' = link_key l"
    and keep_wf: "upd l = Some l' \<Longrightarrow> link_wf l \<Longrightarrow> link_wf l'"
    and keep_retained: "upd l = Some l' \<Longrightarrow> link_wf l \<Longrightarrow> retained l \<Longrightarrow> retained l'"
begin

lemma links_wf_retain: "links_wf ls \<Longrightarrow> links_wf (retain_mut upd ls)"
  by (auto simp: links_wf_def list_all_iff set_retain_mut dest: keep_wf)

lemma links_unique_retain: "links_unique ls \<Longrightarrow> links_unique (retain_mut upd ls)"
  unfolding links_unique_def by (erule distinct_map_retain_mut) (rule keep_key)

lemma retained_retain:
  "links_wf ls \<Longrightarrow> list_all retained ls \<Longrightarrow> list_all retained (retain_mut upd ls)"
  by (auto simp: links_wf_def list_all_iff set_retain_mut dest: keep_retained)

lemma keys_retain: "link_key ` set (retain_mut upd ls) \<subseteq> link_key ` set ls"
  using keep_key by (fastforce simp: set_retain_mut)

lemma targets_retain: "target_id ` set (retain_mut upd ls) \<subseteq> target_id ` set ls"
  using keep_key by (fastforce simp: set_retain_mut link_key_def)

end

locale edge_update =
  fixes f :: "association_link \<Rightarrow> association_link"
  assumes upd_key: "link_key (f l) = link_key l"
    and upd_wf: "link_wf l \<Longrightarrow> link_wf (f l)"
    and upd_retained: "link_wf l \<Longrightarrow> retained l \<Longrightarrow> retained (f l)"
begin

lemma links_wf_map: "links_wf ls \<Longrightarrow> links_wf (map f ls)"
  by (auto simp: links_wf_def list_all_iff upd_wf)

lemma links_unique_map: "links_unique ls \<Longrightarrow> links_unique (map f ls)"
proof -
  have "map link_key (map f ls) = map link_key ls" by (simp add: upd_key)
  then show "links_unique ls \<Longrightarrow> links_unique (map f ls)"
    unfolding links_unique_def by metis
qed

lemma retained_map: "links_wf ls \<Longrightarrow> list_all retained ls \<Longrightarrow> list_all retained (map f ls)"
  by (auto simp: links_wf_def list_all_iff upd_retained)

lemma upd_target: "target_id (f l) = target_id l" and upd_type: "link_type (f l) = link_type l"
  using upd_key[of l] by (simp_all add: link_key_def)

end

sublocale edge_update \<subseteq> edge_retain "\<lambda>l. Some (f l)"
  by unfold_locales (auto simp: upd_key upd_wf upd_retained)

section \<open>Changing the strength of an edge\<close>

text \<open>Bounds of \<open>UnitScore::new\<close> applied to a computed strength.\<close>

lemma score_new_ge:
  assumes "unit_f32 s" "s \<le> v"
  shows "s \<le> score_value (unit_score_new v)"
  using assms by (cases s; cases v) (auto simp: unit_score_new_def f32_is_nan_def clamp01_def)

lemma score_new_le:
  assumes "unit_f32 s" "v \<le> s"
  shows "score_value (unit_score_new v) \<le> s"
  using assms by (cases s; cases v) (auto simp: unit_score_new_def f32_is_nan_def clamp01_def)

lemma retention_floor_unit: "unit_f32 retention_floor"
  by (simp add: retention_floor_def unit_f32_of_rat)

lemma retained_new:
  "retention_floor \<le> v \<Longrightarrow> retained (l\<lparr>strength := unit_score_new v\<rparr>)"
  using score_new_ge[OF retention_floor_unit] by (simp add: retained_def)

lemma f32_min_ge: "x \<le> y \<Longrightarrow> x \<le> z \<Longrightarrow> x \<le> f32_min y z"
  by (cases x; cases y; cases z) (auto simp: f32_min_def)

lemma f32_nonneg_mult_min:
  assumes "0 \<le> a" "F32 0 \<le> w" "0 \<le> c"
  shows "F32 0 \<le> F32 a * f32_min w (F32 c)"
  using assms by (cases w) (auto simp: f32_min_def intro: f32_of_rat_nonneg)

end
