(* ===== verification/Consolidation_Hebbian.thy ===== *)
theory Consolidation_Hebbian
  imports Link_Updates
begin

text \<open>
  Hebbian learning on the association graph (\<open>hippmem-consolidation/src/hebbian.rs\<close>): the activation
  log and its co-activation pairs, reinforcement of edges, the reverse step for rejected memories,
  creation of edges between co-activated memories, and the simple decay and compaction of the same
  file. The loops over a pair table kept in a \<open>HashMap\<close> build an association list; the pairs are
  returned sorted by their identifiers, which removes the iteration order.
\<close>

section \<open>The activation log\<close>

record activation_entry =
  ae_memory_id :: memory_id
  ae_activated_at :: timestamp
  ae_energy :: f32

record activation_log =
  entries :: "activation_entry list"

definition log_record :: "activation_log \<Rightarrow> memory_id \<Rightarrow> timestamp \<Rightarrow> f32 \<Rightarrow> activation_log" where
  "log_record alog i now e =
     alog\<lparr>entries := entries alog @ [\<lparr>ae_memory_id = i, ae_activated_at = now, ae_energy = e\<rparr>]\<rparr>"

type_synonym co_pair = "memory_id \<times> memory_id \<times> f32"

definition pair_key :: "activation_entry \<Rightarrow> activation_entry \<Rightarrow> memory_id \<times> memory_id" where
  "pair_key a b =
     (if ae_memory_id a < ae_memory_id b then (ae_memory_id a, ae_memory_id b)
      else (ae_memory_id b, ae_memory_id a))"

definition in_window :: "i64 \<Rightarrow> activation_entry \<Rightarrow> activation_entry \<Rightarrow> bool" where
  "in_window w a b \<longleftrightarrow>
     i64_wrap \<bar>i64_sub (as_i64 (ae_activated_at a)) (as_i64 (ae_activated_at b))\<bar> < w"

type_synonym pair_table = "((memory_id \<times> memory_id) \<times> f32) list"

definition add_pair :: "i64 \<Rightarrow> activation_entry \<Rightarrow> activation_entry \<Rightarrow> pair_table \<Rightarrow> pair_table" where
  "add_pair w a b m =
     (if in_window w a b
      then let e = f32_min (ae_energy a) (ae_energy b) in
           entry_upsert (pair_key a b) (\<lambda>v. v + e) (0 + e) m
      else m)"

fun pairs_with :: "i64 \<Rightarrow> activation_entry \<Rightarrow> activation_entry list \<Rightarrow> pair_table \<Rightarrow> pair_table" where
  "pairs_with w a [] m = m"
| "pairs_with w a (b # bs) m = pairs_with w a bs (add_pair w a b m)"

fun pair_table_of :: "i64 \<Rightarrow> activation_entry list \<Rightarrow> pair_table \<Rightarrow> pair_table" where
  "pair_table_of w [] m = m"
| "pair_table_of w (a # as) m = pair_table_of w as (pairs_with w a as m)"

definition cmp_pair_key :: "(memory_id \<times> memory_id) \<times> f32 \<Rightarrow> (memory_id \<times> memory_id) \<times> f32 \<Rightarrow> ordering" where
  "cmp_pair_key x y =
     then_cmp (cmp_lin (fst (fst x)) (fst (fst y))) (cmp_lin (snd (fst x)) (snd (fst y)))"

definition sorted_pairs :: "pair_table \<Rightarrow> co_pair list" where
  "sorted_pairs m = map (\<lambda>((a, b), c). (a, b, c)) (sort_by cmp_pair_key m)"

definition co_activation_pairs :: "activation_log \<Rightarrow> i64 \<Rightarrow> co_pair list" where
  "co_activation_pairs alog w = sorted_pairs (pair_table_of w (entries alog) [])"

section \<open>Reinforcement, rejection, new edges\<close>

record hebbian_params =
  learning_rate :: f32
  coactivation_threshold :: u32
  strength_max :: f32

definition hebbian_params_default :: hebbian_params where
  "hebbian_params_default =
     \<lparr>learning_rate = f32_of_rat (8/100), coactivation_threshold = 3, strength_max = 1\<rparr>"

definition reinforce_link ::
    "hebbian_params \<Rightarrow> timestamp \<Rightarrow> co_pair \<Rightarrow> association_link \<Rightarrow> association_link" where
  "reinforce_link p now pr l =
     (case pr of (a, b, w) \<Rightarrow>
        if f32_of_u32 (coactivation_threshold p) \<le> w \<and> (target_id l = a \<or> target_id l = b)
        then let delta = learning_rate p * f32_min w (f32_of_rat 5);
                 new_strength = f32_min (link_strength l + delta) (strength_max p)
             in l\<lparr>strength := unit_score_new new_strength, last_activated_at := Some now,
                  activation_count := activation_count l + 1\<rparr>
        else l)"

definition hebbian_reinforce ::
    "association_link list \<Rightarrow> co_pair list \<Rightarrow> hebbian_params \<Rightarrow> timestamp \<Rightarrow> association_link list" where
  "hebbian_reinforce ls pairs p now = map (fold (reinforce_link p now) pairs) ls"

text \<open>The edge a rejection touches, and what it does to it (\<open>None\<close>: the change is below epsilon).\<close>

definition weaken_link ::
    "hebbian_params \<Rightarrow> timestamp \<Rightarrow> association_link \<Rightarrow> association_link option" where
  "weaken_link p now l =
     (let new_strength = f32_max (link_strength l - learning_rate p) (f32_of_rat (12/100))
      in if f32_EPSILON < f32_abs (new_strength - link_strength l)
         then Some (l\<lparr>strength := unit_score_new new_strength, last_activated_at := Some now,
                      activation_count := u32_saturating_sub (activation_count l) 1\<rparr>)
         else None)"

fun reject_weaken ::
    "memory_id \<Rightarrow> association_link list \<Rightarrow> memory_id list \<Rightarrow> hebbian_params \<Rightarrow> timestamp
      \<Rightarrow> association_link list \<times> usize" where
  "reject_weaken owner [] rejected p now = ([], 0)"
| "reject_weaken owner (l # ls) rejected p now =
     (let (ls', n) = reject_weaken owner ls rejected p now in
      if owner \<in> set rejected \<or> target_id l \<in> set rejected
      then (case weaken_link p now l of Some l' \<Rightarrow> (l' # ls', n + 1) | None \<Rightarrow> (l # ls', n))
      else (l # ls', n))"

definition empty_evidence :: "string option \<Rightarrow> link_evidence" where
  "empty_evidence note =
     \<lparr>le_contributing_dimensions = [], le_score_breakdown = [], le_text_spans = [], le_note = note\<rparr>"

definition coactivation_link :: "memory_id \<Rightarrow> f32 \<Rightarrow> timestamp \<Rightarrow> association_link" where
  "coactivation_link b w now =
     \<lparr>target_id = b, link_type = LT_Causal, direction = Forward,
      strength = unit_score_new (f32_of_rat (3/10)), confidence = unit_score_new (f32_of_rat (4/10)),
      evidence = empty_evidence (Some (''co-activated '' @ fmt_f32_1 w @ '' times'')),
      formed_at = now, last_activated_at = Some now,
      activation_count = f32_to_u32 (f32_min w (f32_of_rat 5)), observation = Observing now\<rparr>"

definition build_coactivation_links ::
    "co_pair list \<Rightarrow> f32 \<Rightarrow> timestamp \<Rightarrow> (memory_id \<times> association_link) list" where
  "build_coactivation_links pairs threshold now =
     map (\<lambda>(a, b, w). (a, coactivation_link b w now)) (filter (\<lambda>(a, b, w). threshold \<le> w) pairs)"

section \<open>Simple decay and compaction of units\<close>

record simple_decay_params =
  sd_decay_per_cycle :: f32
  sd_min_retained_strength :: f32

definition simple_decay_params_default :: simple_decay_params where
  "simple_decay_params_default =
     \<lparr>sd_decay_per_cycle = f32_of_rat (97/100), sd_min_retained_strength = f32_of_rat (12/100)\<rparr>"

definition last_active_ms :: "association_link \<Rightarrow> i64" where
  "last_active_ms l =
     as_i64 (case last_activated_at l of Some t \<Rightarrow> t | None \<Rightarrow> formed_at l)"

definition apply_decay ::
    "association_link list \<Rightarrow> simple_decay_params \<Rightarrow> timestamp \<Rightarrow> association_link list" where
  "apply_decay ls p now =
     map (\<lambda>l. if 86400000 < i64_sub (as_i64 now) (last_active_ms l)
              then l\<lparr>strength := unit_score_new
                      (f32_max (link_strength l * sd_decay_per_cycle p) (sd_min_retained_strength p))\<rparr>
              else l) ls"

definition compact_unit :: "f32 \<Rightarrow> i64 \<Rightarrow> timestamp \<Rightarrow> memory_unit \<Rightarrow> memory_unit" where
  "compact_unit link_threshold stale_ms now u =
     (let u' = u\<lparr>links := filter (\<lambda>l. link_threshold \<le> link_strength l) (links u)\<rparr> in
      if links u' = [] \<and> stale_ms < i64_sub (as_i64 now) (as_i64 (updated_at u)) \<and>
         lifecycle u = LC_Active
      then u'\<lparr>lifecycle := LC_Deprecated\<rparr> else u')"

definition compact_units :: "memory_unit list \<Rightarrow> f32 \<Rightarrow> i64 \<Rightarrow> timestamp \<Rightarrow> memory_unit list" where
  "compact_units us link_threshold stale_ms now = map (compact_unit link_threshold stale_ms now) us"

record summary_params =
  trigger_count :: usize

definition summary_params_default :: summary_params where
  "summary_params_default = \<lparr>trigger_count = 12\<rparr>"

section \<open>Co-activation pairs\<close>

lemma keys_add_pair:
  "fst ` set (add_pair w a b m) =
     (if in_window w a b then insert (pair_key a b) (fst ` set m) else fst ` set m)"
  by (simp add: add_pair_def Let_def keys_entry_upsert)

lemma distinct_add_pair: "distinct (map fst m) \<Longrightarrow> distinct (map fst (add_pair w a b m))"
  by (simp add: add_pair_def Let_def distinct_entry_upsert)

lemma keys_pairs_with:
  "fst ` set (pairs_with w a bs m) = fst ` set m \<union> {pair_key a b | b. b \<in> set bs \<and> in_window w a b}"
  by (induction bs arbitrary: m) (auto simp: keys_add_pair)

lemma distinct_pairs_with: "distinct (map fst m) \<Longrightarrow> distinct (map fst (pairs_with w a bs m))"
  by (induction bs arbitrary: m) (simp_all add: distinct_add_pair)

lemma distinct_pair_table: "distinct (map fst m) \<Longrightarrow> distinct (map fst (pair_table_of w es m))"
  by (induction es arbitrary: m) (simp_all add: distinct_pairs_with)

text \<open>The pairs of entries the double loop visits.\<close>

fun later_pairs :: "'a list \<Rightarrow> ('a \<times> 'a) set" where
  "later_pairs [] = {}"
| "later_pairs (x # xs) = Pair x ` set xs \<union> later_pairs xs"

lemma later_pairs_iff:
  "(x, y) \<in> later_pairs xs \<longleftrightarrow> (\<exists>i j. i < j \<and> j < length xs \<and> xs ! i = x \<and> xs ! j = y)"
proof (induction xs)
  case (Cons z zs)
  show ?case
  proof
    assume "(x, y) \<in> later_pairs (z # zs)"
    then consider "x = z" "y \<in> set zs" | "(x, y) \<in> later_pairs zs" by auto
    then show "\<exists>i j. i < j \<and> j < length (z # zs) \<and> (z # zs) ! i = x \<and> (z # zs) ! j = y"
    proof cases
      case 1
      then obtain j where "j < length zs" "zs ! j = y" by (auto simp: in_set_conv_nth)
      with 1 show ?thesis by (intro exI[of _ 0] exI[of _ "Suc j"]) auto
    next
      case 2
      then obtain i j where "i < j" "j < length zs" "zs ! i = x" "zs ! j = y"
        using Cons.IH by blast
      then show ?thesis by (intro exI[of _ "Suc i"] exI[of _ "Suc j"]) auto
    qed
  next
    assume "\<exists>i j. i < j \<and> j < length (z # zs) \<and> (z # zs) ! i = x \<and> (z # zs) ! j = y"
    then obtain i j where ij: "i < j" "j < length (z # zs)" "(z # zs) ! i = x" "(z # zs) ! j = y"
      by blast
    then obtain j' where j': "j = Suc j'" by (cases j) auto
    show "(x, y) \<in> later_pairs (z # zs)"
    proof (cases i)
      case 0
      with ij j' have "x = z" "y \<in> set zs" by auto
      then show ?thesis by simp
    next
      case (Suc i')
      with ij j' have "(x, y) \<in> later_pairs zs" unfolding Cons.IH by auto
      then show ?thesis by simp
    qed
  qed
qed simp

lemma keys_pair_table:
  "fst ` set (pair_table_of w es m) =
     fst ` set m \<union> {pair_key a b | a b. (a, b) \<in> later_pairs es \<and> in_window w a b}"
  by (induction es arbitrary: m) (auto simp: keys_pairs_with)

text \<open>Sorting by the pair of identifiers does not depend on the order of the table.\<close>

lemma cmp_pair_key_le:
  "cmp_pair_key x y \<noteq> OGreater \<longleftrightarrow>
     fst (fst x) < fst (fst y) \<or> fst (fst x) = fst (fst y) \<and> snd (fst x) \<le> snd (fst y)"
  by (cases "cmp_lin (fst (fst x)) (fst (fst y))")
     (auto simp: cmp_pair_key_def cmp_lin_def not_less split: if_splits)

interpretation pair_keys: cmp_preorder cmp_pair_key "\<lambda>_. True"
proof unfold_locales
  show "cmp_pair_key y x \<noteq> OGreater" if "cmp_pair_key x y = OGreater" for x y
    using that cmp_pair_key_le[of x y] cmp_pair_key_le[of y x] by fastforce
  show "cmp_pair_key x z \<noteq> OGreater"
    if "cmp_pair_key x y \<noteq> OGreater" "cmp_pair_key y z \<noteq> OGreater" for x y z
    using that unfolding cmp_pair_key_le by fastforce
qed

lemma pair_keys_total:
  assumes "distinct (map fst m)"
  shows "cmp_total cmp_pair_key (\<lambda>x. x \<in> set m)"
proof unfold_locales
  fix x y
  assume "x \<in> set m" "y \<in> set m" "cmp_pair_key x y \<noteq> OGreater" "cmp_pair_key y x \<noteq> OGreater"
  then have "fst x = fst y" "x \<in> set m" "y \<in> set m"
    unfolding cmp_pair_key_le by (auto simp: prod_eq_iff)
  then show "x = y" using assms by (metis distinct_map inj_onD)
next
  show "cmp_pair_key y x \<noteq> OGreater" if "cmp_pair_key x y = OGreater" for x y
    using that by (rule pair_keys.cmp_swap[OF TrueI TrueI])
  show "cmp_pair_key x z \<noteq> OGreater"
    if "cmp_pair_key x y \<noteq> OGreater" "cmp_pair_key y z \<noteq> OGreater" for x y z
    using that by (rule pair_keys.cmp_trans[OF TrueI TrueI TrueI])
qed

lemma sorted_pairs_perm:
  assumes "distinct (map fst m)" "mset m' = mset m"
  shows "sorted_pairs m' = sorted_pairs m"
  using cmp_total.sort_by_perm[OF pair_keys_total[OF assms(1)], of m m'] assms(2)
  by (simp add: sorted_pairs_def list_all_iff)

lemma keys_sorted_pairs: "(\<lambda>(a, b, c). (a, b)) ` set (sorted_pairs m) = fst ` set m"
  by (force simp: sorted_pairs_def)

lemma co_pairs_in_iff:
  "(\<exists>c. (a, b, c) \<in> set (co_activation_pairs alog w)) \<longleftrightarrow>
     (\<exists>i j. i < j \<and> j < length (entries alog) \<and> in_window w (entries alog ! i) (entries alog ! j) \<and>
        (a, b) = pair_key (entries alog ! i) (entries alog ! j))"
proof -
  have "(\<exists>c. (a, b, c) \<in> set (co_activation_pairs alog w)) \<longleftrightarrow>
      (a, b) \<in> (\<lambda>(a, b, c). (a, b)) ` set (co_activation_pairs alog w)"
    by force
  also have "\<dots> \<longleftrightarrow> (\<exists>x y. (x, y) \<in> later_pairs (entries alog) \<and> in_window w x y \<and> (a, b) = pair_key x y)"
    unfolding co_activation_pairs_def keys_sorted_pairs keys_pair_table by auto
  also have "\<dots> \<longleftrightarrow> (\<exists>i j. i < j \<and> j < length (entries alog) \<and>
      in_window w (entries alog ! i) (entries alog ! j) \<and> (a, b) = pair_key (entries alog ! i) (entries alog ! j))"
    unfolding later_pairs_iff by blast
  finally show ?thesis .
qed

lemma map_keys_sorted_pairs:
  "map (\<lambda>(a, b, c). (a, b)) (sorted_pairs m) = map fst (sort_by cmp_pair_key m)"
  by (simp add: sorted_pairs_def case_prod_unfold comp_def)

lemma sorted_wrt_co_pairs:
  "sorted_wrt (\<lambda>(a, b, _) (a', b', _). a < a' \<or> a = a' \<and> b < b') (co_activation_pairs alog w)"
proof -
  let ?m = "pair_table_of w (entries alog) []"
  have d: "distinct (map fst (sort_by cmp_pair_key ?m))" by (simp add: distinct_pair_table)
  have "sorted_wrt (\<lambda>x y. cmp_pair_key x y \<noteq> OGreater \<and> fst x \<noteq> fst y) (sort_by cmp_pair_key ?m)"
    using pair_keys.sorted_sort_by[of ?m] d
    by (simp add: sorted_wrt_iff_nth_less distinct_conv_nth list_all_iff)
  then have "sorted_wrt (\<lambda>x y. fst (fst x) < fst (fst y) \<or>
      fst (fst x) = fst (fst y) \<and> snd (fst x) < snd (fst y)) (sort_by cmp_pair_key ?m)"
    by (rule sorted_wrt_mono_rel[rotated]) (auto simp: cmp_pair_key_le prod_eq_iff less_le)
  then show ?thesis
    unfolding co_activation_pairs_def sorted_pairs_def sorted_wrt_map
    by (rule sorted_wrt_mono_rel[rotated]) (auto simp: case_prod_unfold)
qed

lemma pair_key_le: "fst (pair_key a b) \<le> snd (pair_key a b)"
  by (auto simp: pair_key_def)

section \<open>Edge operations meet the contract of edge updates\<close>

lemma heb_default_simps:
  "f32_of_u32 (coactivation_threshold hebbian_params_default) = F32 3"
  "strength_max hebbian_params_default = F32 1"
  "learning_rate hebbian_params_default = F32 (10737418/134217728)"
  "f32_of_rat 5 = F32 5"
proof -
  show "f32_of_u32 (coactivation_threshold hebbian_params_default) = F32 3"
    by (simp add: hebbian_params_default_def f32_of_u32_def f32_of_nat_exact)
  show "f32_of_rat 5 = F32 5" using f32_of_nat_exact[of 5] by (simp add: f32_of_nat_def)
qed (simp_all add: hebbian_params_default_def f32_lits)

lemma reinforce_link_ge:
  assumes "link_wf l"
  shows "link_strength l \<le> link_strength (reinforce_link hebbian_params_default now pr l)"
proof -
  obtain a b w where pr: "pr = (a, b, w)" by (cases pr)
  obtain q where q: "link_strength l = F32 q" "0 \<le> q" "q \<le> 1" "round32 q = q"
    using link_wf_strength[OF assms] by (rule unit_f32E)
  have u: "unit_f32 (F32 q)" using q by simp
  let ?d = "F32 (10737418/134217728) * f32_min w (F32 5)"
  have "F32 q \<le> f32_min (F32 q + ?d) (F32 1)" if "F32 3 \<le> w"
  proof (rule f32_min_ge)
    have "F32 0 \<le> w" using that by (rule f32_le_trans[rotated]) simp
    then have "F32 0 \<le> ?d" by (intro f32_nonneg_mult_min) simp_all
    then show "F32 q \<le> F32 q + ?d" by (rule f32_add_ge[OF unit_f32_valid[OF u]])
  qed (use q in simp)
  then show ?thesis
    using q f32_le_refl[of "F32 q"] score_new_ge[OF u]
    by (simp add: reinforce_link_def pr Let_def heb_default_simps)
qed

interpretation reinforce: edge_update "reinforce_link hebbian_params_default now pr" for now pr
proof unfold_locales
  fix l
  show "link_key (reinforce_link hebbian_params_default now pr l) = link_key l"
    by (cases pr) (simp add: reinforce_link_def link_key_def Let_def)
  show "link_wf (reinforce_link hebbian_params_default now pr l)" if "link_wf l"
    using that
    by (cases pr)
       (simp add: reinforce_link_def link_wf_def Let_def score_wf_new f32_valid_minmax
          f32_valid_ops heb_default_simps)
  show "retained (reinforce_link hebbian_params_default now pr l)" if "link_wf l" "retained l"
    using that reinforce_link_ge[of l now pr] f32_le_trans unfolding retained_def by blast
qed

lemma fold_reinforce_contract:
  "link_key (fold (reinforce_link hebbian_params_default now) prs l) = link_key l"
  "link_wf l \<Longrightarrow> link_wf (fold (reinforce_link hebbian_params_default now) prs l)"
  "link_wf l \<Longrightarrow> retained l \<Longrightarrow> retained (fold (reinforce_link hebbian_params_default now) prs l)"
  "link_wf l \<Longrightarrow>
     link_strength l \<le> link_strength (fold (reinforce_link hebbian_params_default now) prs l)"
proof (induction prs arbitrary: l)
  case Nil
  {
    case 4
    then show ?case using link_wf_strength[of l] by (auto elim: unit_f32E)
  }
next
  case (Cons pr prs)
  {
    case 4
    then show ?case
      using reinforce_link_ge[of l now pr] Cons(4)[OF reinforce.upd_wf] f32_le_trans by fastforce
  }
qed (simp_all add: reinforce.upd_key reinforce.upd_wf reinforce.upd_retained)

interpretation hebbian: edge_update "fold (reinforce_link hebbian_params_default now) prs" for now prs
  by unfold_locales (fact fold_reinforce_contract)+

text \<open>A rejection as an update of one edge.\<close>

definition reject_link ::
    "memory_id \<Rightarrow> memory_id list \<Rightarrow> hebbian_params \<Rightarrow> timestamp \<Rightarrow> association_link \<Rightarrow> association_link"
    where
  "reject_link owner rejected p now l =
     (if owner \<in> set rejected \<or> target_id l \<in> set rejected
      then (case weaken_link p now l of Some l' \<Rightarrow> l' | None \<Rightarrow> l) else l)"

definition reject_hits ::
    "memory_id \<Rightarrow> memory_id list \<Rightarrow> hebbian_params \<Rightarrow> timestamp \<Rightarrow> association_link \<Rightarrow> bool" where
  "reject_hits owner rejected p now l \<longleftrightarrow>
     (owner \<in> set rejected \<or> target_id l \<in> set rejected) \<and> weaken_link p now l \<noteq> None"

lemma reject_weaken_eq:
  "reject_weaken owner ls rejected p now =
     (map (reject_link owner rejected p now) ls,
      length (filter (reject_hits owner rejected p now) ls))"
  by (induction ls) (auto simp: reject_link_def reject_hits_def split: option.splits)

lemma weaken_link_strength:
  assumes "link_wf l" "weaken_link hebbian_params_default now l = Some l'"
  shows "retained l'" and "link_wf l'" and "retained l \<Longrightarrow> link_strength l' \<le> link_strength l"
    and "link_key l' = link_key l"
proof -
  obtain q where q: "link_strength l = F32 q" "0 \<le> q" "q \<le> 1" "round32 q = q"
    using link_wf_strength[OF assms(1)] by (rule unit_f32E)
  define v where "v = f32_max (F32 q - F32 (10737418/134217728)) retention_floor"
  have v: "f32_max (link_strength l - learning_rate hebbian_params_default) (f32_of_rat (12/100)) = v"
    by (simp add: v_def q heb_default_simps retention_floor_def)
  have l': "l' = l\<lparr>strength := unit_score_new v, last_activated_at := Some now,
      activation_count := u32_saturating_sub (activation_count l) 1\<rparr>"
    using assms(2) unfolding weaken_link_def Let_def v by (simp split: if_splits)
  have fn: "retention_floor \<noteq> F32_NaN" using retention_floor_unit by (auto elim: unit_f32E)
  have "retention_floor \<le> v" using f32_max_ge(2)[OF fn] by (simp add: v_def)
  then show "retained l'" using retained_new by (simp add: l' retained_def)
  have "f32_valid v"
    unfolding v_def by (intro f32_valid_minmax f32_valid_ops unit_f32_valid retention_floor_unit)
  then show "link_wf l'" using assms(1) by (simp add: l' link_wf_def score_wf_new)
  show "link_key l' = link_key l" by (simp add: l' link_key_def)
  assume "retained l"
  then have "retention_floor \<le> F32 q" by (simp add: retained_def q)
  moreover have "F32 q - F32 (10737418/134217728) \<le> F32 q"
    using q by (intro f32_sub_le unit_f32_valid) simp_all
  ultimately have "v \<le> F32 q"
    unfolding v_def using f32_max_cases by (metis f32_le_not_nan f32_max_le_iff)
  then show "link_strength l' \<le> link_strength l"
    using score_new_le[of "F32 q" v] q by (simp add: l')
qed

lemma reject_link_contract:
  assumes "link_wf l"
  shows "link_key (reject_link owner rejected hebbian_params_default now l) = link_key l"
    and "link_wf (reject_link owner rejected hebbian_params_default now l)"
    and "retained l \<Longrightarrow> retained (reject_link owner rejected hebbian_params_default now l)"
    and "retained l \<Longrightarrow>
      link_strength (reject_link owner rejected hebbian_params_default now l) \<le> link_strength l"
  using assms weaken_link_strength[OF assms, of now] link_wf_strength[OF assms]
  by (auto simp: reject_link_def split: option.splits elim!: unit_f32E)

lemma reject_link_key: "link_key (reject_link owner rejected p now l) = link_key l"
  by (auto simp: reject_link_def weaken_link_def Let_def link_key_def split: option.splits if_splits)

interpretation reject: edge_update "reject_link owner rejected hebbian_params_default now"
  for owner rejected now
  by unfold_locales (auto simp: reject_link_key intro: reject_link_contract)

section \<open>New edges\<close>

lemma coactivation_link_wf: "link_wf (coactivation_link b w now)" "retained (coactivation_link b w now)"
proof -
  have u: "unit_f32 (f32_of_rat (3/10))" "unit_f32 (f32_of_rat (4/10))"
    by (simp_all add: unit_f32_of_rat)
  then show "link_wf (coactivation_link b w now)"
    by (simp add: coactivation_link_def link_wf_def score_wf_new unit_f32_valid)
  have "retention_floor \<le> f32_of_rat (3/10)"
    unfolding retention_floor_def by (rule f32_of_rat_mono) simp
  then show "retained (coactivation_link b w now)"
    using score_value_new[OF u(1)] by (simp add: retained_def coactivation_link_def)
qed

lemma build_coactivation_links_in:
  assumes "(a, l) \<in> set (build_coactivation_links pairs th now)"
  obtains b w where "(a, b, w) \<in> set pairs" "th \<le> w" "l = coactivation_link b w now"
  using assms by (auto simp: build_coactivation_links_def)

section \<open>Properties\<close>


text \<open>
  The pairs do not depend on the iteration order of the hash map that collects them: sorting
  any permutation of the collected table gives the same list, so a consolidation cycle sees the
  same pairs in every run.
\<close>

theorem co_activation_pairs_order_independent:
  assumes "mset table = mset (pair_table_of w (entries alog) [])"
  shows "sorted_pairs table = co_activation_pairs alog w"
  unfolding co_activation_pairs_def
  by (rule sorted_pairs_perm[OF _ assms]) (simp add: distinct_pair_table)

definition demo_entry :: "nat \<Rightarrow> int \<Rightarrow> activation_entry" where
  "demo_entry i t = \<lparr>ae_memory_id = MemoryId (of_nat i), ae_activated_at = Timestamp t, ae_energy = 1\<rparr>"

definition demo_log :: activation_log where
  "demo_log = \<lparr>entries = [demo_entry 1 0, demo_entry 2 10, demo_entry 3 20]\<rparr>"

theorem co_activation_pairs_order_independent_witness:
  "sorted_pairs (rev (pair_table_of 100 (entries demo_log) [])) = co_activation_pairs demo_log 100"
  by (rule co_activation_pairs_order_independent) simp

text \<open>
  Hebbian reinforcement with the default parameters keeps the list of edges with their targets
  and types, never lowers a strength, and keeps every score in the unit interval.
\<close>

theorem hebbian_reinforce_strengthens:
  assumes "links_wf ls"
  shows "map link_key (hebbian_reinforce ls prs hebbian_params_default now) = map link_key ls \<and>
    links_wf (hebbian_reinforce ls prs hebbian_params_default now) \<and>
    list_all2 (\<lambda>l l'. link_strength l \<le> link_strength l') ls
      (hebbian_reinforce ls prs hebbian_params_default now)"
  using assms hebbian.links_wf_map[OF assms]
  by (auto simp: hebbian_reinforce_def hebbian.upd_key list_all2_conv_all_nth links_wf_def
      list_all_iff intro: fold_reinforce_contract(4))

theorem hebbian_reinforce_strengthens_witness:
  "links_wf (hebbian_reinforce [demo_link 2 LT_EntityOverlap (2/5)]
     [(MemoryId 1, MemoryId 2, f32_of_rat 5)] hebbian_params_default (Timestamp 1000))"
  using hebbian_reinforce_strengthens[of "[demo_link 2 LT_EntityOverlap (2/5)]"]
  by (simp add: links_wf_def demo_link_wf)

text \<open>
  A targeted rejection with the default parameters weakens exactly the edges of the rejected
  memories: an edge whose owner and target are not rejected is unchanged; no strength that was at
  or above the floor 0.12 rises or falls below the floor; targets, types and score ranges are kept;
  and the count returned is the number of edges that were changed.
\<close>

theorem reject_weaken_weakens:
  assumes "links_wf ls" "list_all retained ls"
    and "reject_weaken owner ls rejected hebbian_params_default now = (ls', n)"
  shows "map link_key ls' = map link_key ls \<and> links_wf ls' \<and> list_all retained ls' \<and>
    list_all2 (\<lambda>l l'. link_strength l' \<le> link_strength l \<and>
      (owner \<notin> set rejected \<and> target_id l \<notin> set rejected \<longrightarrow> l' = l)) ls ls' \<and>
    n = length (filter (reject_hits owner rejected hebbian_params_default now) ls)"
proof -
  have eq: "ls' = map (reject_link owner rejected hebbian_params_default now) ls"
    "n = length (filter (reject_hits owner rejected hebbian_params_default now) ls)"
    using assms(3) by (simp_all add: reject_weaken_eq)
  have "list_all2 (\<lambda>l l'. link_strength l' \<le> link_strength l \<and>
      (owner \<notin> set rejected \<and> target_id l \<notin> set rejected \<longrightarrow> l' = l)) ls ls'"
    using assms(1,2) unfolding eq
    by (auto simp: list_all2_conv_all_nth links_wf_def list_all_iff reject_link_contract(4))
       (simp add: reject_link_def)
  moreover have "map link_key ls' = map link_key ls" by (simp add: eq reject_link_key)
  ultimately show ?thesis
    using reject.links_wf_map[OF assms(1)] reject.retained_map[OF assms(1,2)] eq by blast
qed

theorem reject_weaken_weakens_witness:
  "map link_key (fst (reject_weaken (MemoryId 1) [demo_link 2 LT_EntityOverlap (2/5)]
     [MemoryId 2] hebbian_params_default (Timestamp 1000))) = [(MemoryId 2, LT_EntityOverlap)]"
proof -
  let ?ls = "[demo_link 2 LT_EntityOverlap (2/5)]"
  have wf: "links_wf ?ls" by (simp add: links_wf_def demo_link_wf)
  have "retention_floor \<le> f32_of_rat (2/5)"
    unfolding retention_floor_def by (rule f32_of_rat_mono) simp
  then have r: "list_all retained ?ls"
    using score_value_new[of "f32_of_rat (2/5)"]
    by (simp add: retained_def demo_link_def unit_f32_of_rat)
  obtain ls' n where rw: "reject_weaken (MemoryId 1) ?ls [MemoryId 2] hebbian_params_default
      (Timestamp 1000) = (ls', n)" by (rule prod.exhaust)
  have "map link_key ls' = map link_key ?ls" using reject_weaken_weakens[OF wf r rw] by blast
  then show ?thesis unfolding rw by (simp add: link_key_def demo_link_def)
qed

end
