(* ===== verification/Forgetting_Curve.thy ===== *)
theory Forgetting_Curve
  imports Core_Types
begin

text \<open>
  The arithmetic of the forgetting curve, shared by the decay of edges (\<open>decay.rs\<close>) and of context
  links (\<open>context_links.rs\<close>): a strength is multiplied by \<open>0.5\<close> to the power of the inactive time
  over a half-life that doubles with every review. The power function of the platform's math
  library is a parameter; \<open>powf_half_ok\<close> and \<open>powf_zero_ok\<close> are what the code relies on.
\<close>

definition powf_half_ok :: "(f64 \<Rightarrow> f64 \<Rightarrow> f64) \<Rightarrow> bool" where
  "powf_half_ok powf \<longleftrightarrow>
     (\<forall>x. f64_le (F64 0) x \<longrightarrow> (\<exists>d. powf (F64 (1/2)) x = F64 d \<and> 0 \<le> d \<and> d \<le> 1))"

lemma f64_of_rat_nonneg: "0 \<le> q \<Longrightarrow> f64_le (F64 0) (f64_of_rat q)"
proof -
  assume "0 \<le> q"
  then have "0 \<le> round64 q" by (rule r64.R_nonneg)
  moreover have "0 \<le> f64_max_finite" by (simp add: f64_max_finite_def)
  ultimately show ?thesis by (auto simp: f64_of_rat_def Let_def)
qed

text \<open>The half-life of the default parameters: one day times a power of two, exactly.\<close>

lemma f64_half_life:
  assumes "n \<le> 6"
  shows "f64_mul (f64_of_i64 86400000) (f64_powi (F64 2) n) = F64 (86400000 * 2 ^ n)"
proof -
  have base: "f64_of_i64 86400000 = F64 86400000" by (simp add: f64_of_i64_def)
  from assms consider "n = 0" | "n = 1" | "n = 2" | "n = 3" | "n = 4" | "n = 5" | "n = 6"
    by (fastforce simp: numeral_eq_Suc le_Suc_eq)
  then show ?thesis
    by cases (simp_all add: base f64_powi_def f64_powi_loop.simps Let_def)
qed

definition powf_zero_ok :: "(f64 \<Rightarrow> f64 \<Rightarrow> f64) \<Rightarrow> bool" where
  "powf_zero_ok powf \<longleftrightarrow> powf (F64 (1/2)) (F64 0) = F64 1"

lemma f64_half_life_u32:
  "f64_mul (f64_of_i64 86400000) (f64_powi (F64 2) (unat (min n (6 :: u32)))) =
     F64 (86400000 * 2 ^ unat (min n 6))"
proof -
  have "min n 6 \<le> (6 :: u32)" by simp
  then show ?thesis by (intro f64_half_life) (simp add: word_le_nat_alt)
qed

lemma decay_exponent_nonneg:
  "f64_le (F64 0) (f64_div (f64_of_i64 (max ms 0))
      (f64_mul (f64_of_i64 86400000) (f64_powi (F64 2) (unat (min n (6 :: u32))))))"
proof -
  have pos: "(0::rat) < 86400000 * 2 ^ k" for k :: nat by simp
  have "f64_le (F64 0) (f64_of_i64 (max ms 0))"
    unfolding f64_of_i64_def by (rule f64_of_rat_nonneg) simp
  then show ?thesis
    unfolding f64_half_life_u32 using pos
    by (cases "f64_of_i64 (max ms 0)") (auto simp: f64_signed_inf_def intro!: f64_of_rat_nonneg)
qed

text \<open>The decayed strength lies between zero and the strength.\<close>

lemma decayed_product_bounds:
  assumes "powf_half_ok powf" "0 \<le> q" "q \<le> 1" "round32 q = q" "f64_le (F64 0) x"
  obtains r where "f64_mul (f64_of_f32 (F32 q)) (powf (F64 (1/2)) x) = F64 r" "0 \<le> r" "r \<le> q"
proof -
  obtain d where d: "0 \<le> d" "d \<le> 1"
    and eq: "f64_mul (f64_of_f32 (F32 q)) (powf (F64 (1/2)) x) = f64_of_rat (q * d)"
    using assms(1,5) by (auto simp: powf_half_ok_def)
  have u: "0 \<le> q * d" "q * d \<le> 1" using d assms by (auto intro: mult_le_one)
  have "round64 (q * d) \<le> q"
    using r64.R_mult_le[OF round64_round32[OF assms(4)]] assms d by blast
  then show thesis using f64_of_rat_unit[OF u] eq that by metis
qed

text \<open>A step function that meets \<open>powf_half_ok\<close>: the power of one half at the integer part.\<close>

definition powf_step :: "f64 \<Rightarrow> f64 \<Rightarrow> f64" where
  "powf_step b x = (case x of F64 q \<Rightarrow> f64_of_rat ((1/2) ^ nat \<lfloor>q\<rfloor>) | _ \<Rightarrow> F64 0)"

lemma powf_step_ok: "powf_half_ok powf_step"
  unfolding powf_half_ok_def
proof (intro allI impI)
  fix x
  have "f64_of_rat ((1/2) ^ n) = F64 (round64 ((1/2) ^ n)) \<and>
      0 \<le> round64 ((1/2) ^ n) \<and> round64 ((1/2) ^ n) \<le> 1" for n :: nat
    using f64_of_rat_unit[of "(1/2) ^ n"] by (simp add: power_le_one)
  then show "\<exists>d. powf_step (F64 (1/2)) x = F64 d \<and> 0 \<le> d \<and> d \<le> 1"
    by (cases x) (simp_all add: powf_step_def)
qed

lemma powf_step_zero: "powf_zero_ok powf_step"
  using f64_of_rat_int[of 1] by (simp add: powf_zero_ok_def powf_step_def)

end
