(* ===== verification/Consolidation_Decay.thy ===== *)
theory Consolidation_Decay
  imports Consolidation_Hebbian Forgetting_Curve
begin

text \<open>
  The forgetting curve and edge compaction (\<open>hippmem-consolidation/src/decay.rs\<close>,
  \<open>compaction.rs\<close>). The real power \<open>0.5f64.powf(x)\<close> is a parameter \<open>powf\<close>: the platform's
  mathematical library computes it. What the results need of it is \<open>powf_half_ok\<close>: for a
  non-negative exponent the power of one half is a number between zero and one.
\<close>

section \<open>Forgetting curve\<close>

record decay_params =
  half_life_base_ms :: i64
  half_life_max_doublings :: u32
  min_retained_strength :: f32

definition decay_params_default :: decay_params where
  "decay_params_default =
     \<lparr>half_life_base_ms = 86400000, half_life_max_doublings = 6,
      min_retained_strength = f32_of_rat (12/100)\<rparr>"

definition PROTECTED_TYPES :: "link_type list" where
  "PROTECTED_TYPES = [LT_Causal, LT_Correction, LT_Contradiction, LT_Supersedes]"

definition is_protected :: "association_link \<Rightarrow> bool" where
  "is_protected l =
     (if is_observing (observation l) then False else link_type l \<in> set PROTECTED_TYPES)"

definition decayed_strength ::
    "(f64 \<Rightarrow> f64 \<Rightarrow> f64) \<Rightarrow> decay_params \<Rightarrow> timestamp \<Rightarrow> association_link \<Rightarrow> f64" where
  "decayed_strength powf p now l =
     (let inactive_ms = max (i64_sub (as_i64 now) (last_active_ms l)) 0;
          doublings = min (activation_count l) (half_life_max_doublings p);
          half_life = f64_mul (f64_of_i64 (half_life_base_ms p)) (f64_powi (F64 2) (unat doublings));
          decay = powf (F64 (1/2)) (f64_div (f64_of_i64 inactive_ms) half_life)
      in f64_mul (f64_of_f32 (link_strength l)) decay)"

definition decay_link ::
    "(f64 \<Rightarrow> f64 \<Rightarrow> f64) \<Rightarrow> decay_params \<Rightarrow> timestamp \<Rightarrow> association_link \<Rightarrow> association_link option"
    where
  "decay_link powf p now l =
     (if is_protected l then Some l
      else let raw_decayed = decayed_strength powf p now l in
           if is_observing (observation l) \<and>
              f64_less raw_decayed (f64_of_f32 (min_retained_strength p))
           then None
           else Some (l\<lparr>strength := unit_score_new
                  (f32_of_f64 (f64_max raw_decayed (f64_of_f32 (min_retained_strength p))))\<rparr>))"

definition apply_decay_with_protection ::
    "(f64 \<Rightarrow> f64 \<Rightarrow> f64) \<Rightarrow> association_link list \<Rightarrow> decay_params \<Rightarrow> timestamp
      \<Rightarrow> association_link list" where
  "apply_decay_with_protection powf ls p now = retain_mut (decay_link powf p now) ls"

section \<open>Compaction\<close>

record compaction_params =
  cp_min_retained_strength :: f32
  cp_degree_limit :: usize

definition compaction_params_default :: compaction_params where
  "compaction_params_default =
     \<lparr>cp_min_retained_strength = f32_of_rat (12/100), cp_degree_limit = 64\<rparr>"

definition compaction_protected :: "association_link \<Rightarrow> bool" where
  "compaction_protected l \<longleftrightarrow> link_type l \<in> set PROTECTED_TYPES \<and> \<not> is_observing (observation l)"

definition compaction_keep :: "compaction_params \<Rightarrow> association_link \<Rightarrow> bool" where
  "compaction_keep p l \<longleftrightarrow>
     compaction_protected l \<or> cp_min_retained_strength p \<le> link_strength l"

definition compact_edges ::
    "association_link list \<Rightarrow> compaction_params \<Rightarrow> association_link list \<times> association_link list" where
  "compact_edges ls p =
     (let kept = filter (compaction_keep p) ls;
          archived = filter (\<lambda>l. \<not> compaction_keep p l) ls
      in if cp_degree_limit p < length kept
         then let sorted = sort_by (cmp_f32_desc link_strength) kept
              in (take (cp_degree_limit p) sorted, archived @ drop (cp_degree_limit p) sorted)
         else (kept, archived))"

section \<open>Decay meets the contract of edge updates\<close>

lemma decayed_strength_bounds:
  assumes "powf_half_ok powf" "link_strength l = F32 q" "0 \<le> q" "q \<le> 1" "round32 q = q"
  obtains r where "decayed_strength powf decay_params_default now l = F64 r" "0 \<le> r" "r \<le> q"
proof -
  have "decayed_strength powf decay_params_default now l = f64_mul (f64_of_f32 (F32 q))
      (powf (F64 (1/2)) (f64_div (f64_of_i64 (max (i64_sub (as_i64 now) (last_active_ms l)) 0))
        (f64_mul (f64_of_i64 86400000) (f64_powi (F64 2) (unat (min (activation_count l) 6))))))"
    by (simp add: decayed_strength_def decay_params_default_def Let_def assms(2))
  then show thesis
    using decayed_product_bounds[OF assms(1,3-5) decay_exponent_nonneg] that by metis
qed

lemma decay_link_contract:
  assumes "powf_half_ok powf" "link_wf l"
    and some: "decay_link powf decay_params_default now l = Some l'"
  shows "link_key l' = link_key l" and "link_wf l'" and "retained l \<Longrightarrow> retained l'"
    and "\<not> is_protected l \<Longrightarrow> retained l'"
    and "retained l \<Longrightarrow> link_strength l' \<le> link_strength l"
    and "is_protected l \<Longrightarrow> l' = l"
proof -
  obtain q where q: "link_strength l = F32 q" "0 \<le> q" "q \<le> 1" "round32 q = q"
    using link_wf_strength[OF assms(2)] by (rule unit_f32E)
  obtain r where r: "decayed_strength powf decay_params_default now l = F64 r" "0 \<le> r" "r \<le> q"
    using decayed_strength_bounds[OF assms(1) q] .
  obtain m where m: "retention_floor = F32 m" "0 \<le> m" "m \<le> 1" "round32 m = m"
    using retention_floor_unit by (rule unit_f32E)
  have mr: "min_retained_strength decay_params_default = F32 m"
    using m by (simp add: decay_params_default_def retention_floor_def)
  have fmax: "f64_max (F64 r) (F64 m) = F64 (max r m)"
    by (simp add: f64_max_def max_def)
  have vm: "f32_valid (F32 m)" and vq: "f32_valid (F32 q)"
    using unit_f32_valid[OF retention_floor_unit] unit_f32_valid[OF link_wf_strength[OF assms(2)]]
    unfolding m(1) q(1) .
  have l': "l' = l\<lparr>strength := unit_score_new (f32_of_rat (max r m))\<rparr>" if "\<not> is_protected l"
    using some that by (simp add: decay_link_def mr r fmax Let_def split: if_splits)
  show prot: "is_protected l \<Longrightarrow> l' = l" using some by (simp add: decay_link_def)
  show "link_key l' = link_key l" using prot l' by (cases "is_protected l") (simp_all add: link_key_def)
  show "link_wf l'" using prot l' assms(2) by (cases "is_protected l") (simp_all add: link_wf_set_strength)
  show ret: "retained l'" if "\<not> is_protected l"
    using l'[OF that] retained_new[of "f32_of_rat (max r m)" l] f32_of_rat_ge[OF vm, of "max r m"] m
    by simp
  then show "retained l \<Longrightarrow> retained l'" using prot by (cases "is_protected l") auto
  show "link_strength l' \<le> link_strength l" if "retained l"
  proof (cases "is_protected l")
    case True
    then show ?thesis using prot q by simp
  next
    case False
    have "m \<le> q" using that by (simp add: retained_def q m)
    then have "f32_of_rat (max r m) \<le> F32 q" using r by (intro f32_of_rat_le[OF vq]) simp
    then show ?thesis using score_new_le[of "F32 q"] q l'[OF False] by simp
  qed
qed

lemma decay_link_key: "decay_link powf p now l = Some l' \<Longrightarrow> link_key l' = link_key l"
  by (auto simp: decay_link_def Let_def link_key_def split: if_splits)

lemma decay_edge_retain:
  "powf_half_ok powf \<Longrightarrow> edge_retain (decay_link powf decay_params_default now)"
  by unfold_locales (auto simp: decay_link_key intro: decay_link_contract)

interpretation step_decay: edge_retain "decay_link powf_step decay_params_default now" for now
  by (rule decay_edge_retain[OF powf_step_ok])

section \<open>Decay of an edge list\<close>

lemma decay_link_flags:
  "decay_link powf p now l = Some l' \<Longrightarrow>
     is_protected l' = is_protected l \<and> observation l' = observation l"
  by (auto simp: decay_link_def is_protected_def Let_def split: if_splits)

lemma decay_link_drops:
  "decay_link powf p now l = None \<longleftrightarrow> is_observing (observation l) \<and>
     f64_less (decayed_strength powf p now l) (f64_of_f32 (min_retained_strength p))"
  by (auto simp: decay_link_def is_protected_def Let_def)

lemma protected_kept:
  "filter is_protected (apply_decay_with_protection powf ls p now) = filter is_protected ls"
proof -
  have "filter is_protected (retain_mut (decay_link powf p now) ls) = filter is_protected ls"
  proof (induction ls)
    case (Cons l ls)
    show ?case
    proof (cases "is_protected l")
      case True
      then show ?thesis using Cons by (simp add: decay_link_def)
    next
      case False
      then show ?thesis using Cons decay_link_flags[of powf p now l] by (simp split: option.splits)
    qed
  qed simp
  then show ?thesis by (simp add: apply_decay_with_protection_def)
qed

lemma confirmed_kept:
  "map link_key (filter (\<lambda>l. \<not> is_observing (observation l)) (retain_mut (decay_link powf p now) ls)) =
     map link_key (filter (\<lambda>l. \<not> is_observing (observation l)) ls)"
proof (induction ls)
  case (Cons l ls)
  then show ?case
    using decay_link_flags[of powf p now l] decay_link_key[of powf p now l]
      decay_link_drops[of powf p now l]
    by (simp split: option.splits)
qed simp

section \<open>Compaction of an edge list\<close>

lemma compact_edges_mset:
  assumes "compact_edges ls p = (kept, archived)"
  shows "mset kept + mset archived = mset ls"
proof -
  have eq: "mset (filter (compaction_keep p) ls) + mset (filter (\<lambda>l. \<not> compaction_keep p l) ls) = mset ls"
    by (induction ls) auto
  let ?s = "sort_by (cmp_f32_desc link_strength) (filter (compaction_keep p) ls)"
  have "mset (take n ?s) + mset (drop n ?s) = mset (filter (compaction_keep p) ls)" for n
    by (metis append_take_drop_id mset_append mset_sort_by)
  then show ?thesis
    using assms eq unfolding compact_edges_def Let_def
    by (auto split: if_splits simp: union_ac)
qed

lemma compact_edges_kept:
  assumes "compact_edges ls p = (kept, archived)"
  shows "length kept \<le> cp_degree_limit p" and "list_all (compaction_keep p) kept"
    and "length kept = cp_degree_limit p \<or> archived = filter (\<lambda>l. \<not> compaction_keep p l) ls"
proof -
  show "length kept \<le> cp_degree_limit p" using assms by (auto simp: compact_edges_def Let_def split: if_splits)
  show "list_all (compaction_keep p) kept"
    using assms by (auto simp: compact_edges_def Let_def list_all_iff split: if_splits dest: in_set_takeD)
  show "length kept = cp_degree_limit p \<or> archived = filter (\<lambda>l. \<not> compaction_keep p l) ls"
    using assms by (auto simp: compact_edges_def Let_def split: if_splits)
qed

lemma sorted_wrt_take_drop:
  "sorted_wrt P xs \<Longrightarrow> x \<in> set (take n xs) \<Longrightarrow> y \<in> set (drop n xs) \<Longrightarrow> P x y"
  by (metis append_take_drop_id sorted_wrt_append)

lemma links_wf_not_nan: "links_wf ls \<Longrightarrow> list_all (\<lambda>l. link_strength l \<noteq> F32_NaN) ls"
  by (auto simp: links_wf_def list_all_iff dest!: link_wf_strength elim!: unit_f32E)

lemma compact_edges_strongest:
  assumes "links_wf ls" "compact_edges ls p = (kept, archived)"
    and "k \<in> set kept" "a \<in> set archived" "compaction_keep p a"
  shows "link_strength a \<le> link_strength k"
proof -
  let ?kept = "filter (compaction_keep p) ls"
  have nn: "list_all (\<lambda>l. link_strength l \<noteq> F32_NaN) ?kept"
    using links_wf_not_nan[OF assms(1)] by (simp add: list_all_iff)
  have "cp_degree_limit p < length ?kept"
    using assms(2,4,5) by (auto simp: compact_edges_def Let_def split: if_splits)
  then have "k \<in> set (take (cp_degree_limit p) (sort_by (cmp_f32_desc link_strength) ?kept))"
    "a \<in> set (drop (cp_degree_limit p) (sort_by (cmp_f32_desc link_strength) ?kept))"
    using assms(2-5) by (auto simp: compact_edges_def Let_def split: if_splits)
  then show ?thesis using sorted_wrt_take_drop[OF sorted_desc_by[OF nn]] by blast
qed

section \<open>Properties\<close>





end
