(* ===== verification/Consolidation_Worker.thy ===== *)
theory Consolidation_Worker
  imports Consolidation_Decay
begin

text \<open>
  The consolidation cycle (\<open>hippmem-consolidation/src/worker.rs\<close>): Hebbian reinforcement and new
  co-activation edges, weakening of rejected memories, decay, compaction, in this order, each step
  over all units. The cycle returns the changed units, the worker with its cycle counter and the
  statistics; the counters are 64-bit words.
\<close>

section \<open>The cycle\<close>

record cycle_stats =
  edges_decayed :: u64
  edges_archived :: u64
  hebbian_applied :: u64

record consolidation_worker =
  cycle_count :: u64

text \<open>The push of a new edge unless one of the same target and type exists.\<close>

definition push_coactivation ::
    "memory_id \<Rightarrow> memory_id \<times> association_link \<Rightarrow> association_link list \<Rightarrow> association_link list" where
  "push_coactivation owner nl ls =
     (case nl of (owner_id, l) \<Rightarrow>
        if owner_id = owner then
          (if list_ex (\<lambda>l'. target_id l' = target_id l \<and> link_type l' = link_type l) ls
           then ls else ls @ [l])
        else ls)"

definition hebbian_step :: "co_pair list \<Rightarrow> timestamp \<Rightarrow> memory_unit \<Rightarrow> memory_unit \<times> u64" where
  "hebbian_step coact now u =
     (let pre_count = length (links u);
          reinforced = hebbian_reinforce (links u) coact hebbian_params_default now;
          changed = length (filter (\<lambda>l. 0 < activation_count l) reinforced);
          new_links = build_coactivation_links coact
            (f32_of_u32 (coactivation_threshold hebbian_params_default)) now;
          pushed = fold (push_coactivation (mem_id u)) new_links reinforced;
          after_count = length pushed
      in (u\<lparr>links := pushed\<rparr>,
          of_nat changed + (if pre_count < after_count then of_nat (after_count - pre_count) else 0)))"

definition reject_step :: "memory_id list \<Rightarrow> timestamp \<Rightarrow> memory_unit \<Rightarrow> memory_unit \<times> u64" where
  "reject_step rejected now u =
     (let (ls, n) = reject_weaken (mem_id u) (links u) rejected hebbian_params_default now
      in (u\<lparr>links := ls\<rparr>, of_nat n))"

definition decay_step :: "(f64 \<Rightarrow> f64 \<Rightarrow> f64) \<Rightarrow> timestamp \<Rightarrow> memory_unit \<Rightarrow> memory_unit \<times> u64" where
  "decay_step powf now u =
     (let ls = apply_decay_with_protection powf (links u) decay_params_default now
      in (u\<lparr>links := ls\<rparr>,
          if length ls < length (links u) then of_nat (length (links u) - length ls) else 0))"

definition compaction_step :: "memory_unit \<Rightarrow> memory_unit \<times> u64" where
  "compaction_step u =
     (let (kept, archived) = compact_edges (links u) compaction_params_default
      in (u\<lparr>links := kept\<rparr>, of_nat (length archived)))"

text \<open>A loop over all units that updates each of them and adds up a counter.\<close>

definition for_units ::
    "(memory_unit \<Rightarrow> memory_unit \<times> u64) \<Rightarrow> memory_unit list \<Rightarrow> memory_unit list \<times> u64" where
  "for_units step us = (map (fst \<circ> step) us, sum_list (map (snd \<circ> step) us))"

definition run_cycle ::
    "(f64 \<Rightarrow> f64 \<Rightarrow> f64) \<Rightarrow> consolidation_worker \<Rightarrow> memory_unit list \<Rightarrow> co_pair list \<Rightarrow> memory_id list
      \<Rightarrow> timestamp \<Rightarrow> consolidation_worker \<times> memory_unit list \<times> cycle_stats" where
  "run_cycle powf w us coact rejected now =
     (let (us1, hebbian_count) = for_units (hebbian_step coact now) us;
          (us2, weakened) =
            (if rejected = [] then (us1, 0) else for_units (reject_step rejected now) us1);
          (us3, decayed) = for_units (decay_step powf now) us2;
          (us4, archived) = for_units compaction_step us3
      in (w\<lparr>cycle_count := cycle_count w + 1\<rparr>, us4,
          \<lparr>edges_decayed = decayed, edges_archived = archived,
           hebbian_applied = hebbian_count + weakened\<rparr>))"

section \<open>A cycle on the edges of one unit\<close>

definition cycle_unit ::
    "(f64 \<Rightarrow> f64 \<Rightarrow> f64) \<Rightarrow> co_pair list \<Rightarrow> memory_id list \<Rightarrow> timestamp \<Rightarrow> memory_unit \<Rightarrow> memory_unit" where
  "cycle_unit powf coact rejected now u =
     fst (compaction_step (fst (decay_step powf now
       (if rejected = [] then fst (hebbian_step coact now u)
        else fst (reject_step rejected now (fst (hebbian_step coact now u)))))))"

lemma run_cycle_units: "fst (snd (run_cycle powf w us coact rejected now)) =
    map (cycle_unit powf coact rejected now) us"
  by (simp add: run_cycle_def for_units_def cycle_unit_def case_prod_unfold Let_def)

lemma run_cycle_count:
  "cycle_count (fst (run_cycle powf w us coact rejected now)) = cycle_count w + 1"
  by (simp add: run_cycle_def for_units_def case_prod_unfold Let_def)

text \<open>What every step of the cycle keeps of a unit.\<close>

definition edges_ok :: "memory_unit \<Rightarrow> bool" where
  "edges_ok u \<longleftrightarrow> links_wf (links u) \<and> links_unique (links u) \<and> list_all retained (links u)"

locale unit_step =
  fixes step :: "memory_unit \<Rightarrow> memory_unit"
  assumes step_links_only: "\<exists>ls. step u = u\<lparr>links := ls\<rparr>"
    and step_edges_ok: "edges_ok u \<Longrightarrow> edges_ok (step u)"
begin

lemma step_frame: "(step u)\<lparr>links := links u\<rparr> = u"
  using step_links_only[of u] by auto

lemma step_id: "mem_id (step u) = mem_id u"
  using step_links_only[of u] by auto

lemma map_edges_ok: "list_all edges_ok us \<Longrightarrow> list_all edges_ok (map step us)"
  by (simp add: list_all_iff step_edges_ok)

end

lemma unit_step_comp:
  assumes "unit_step f" "unit_step g"
  shows "unit_step (\<lambda>u. f (g u))"
proof
  fix u
  obtain a where "g u = u\<lparr>links := a\<rparr>" using unit_step.step_links_only[OF assms(2)] by blast
  moreover obtain b where "f (g u) = (g u)\<lparr>links := b\<rparr>"
    using unit_step.step_links_only[OF assms(1)] by blast
  ultimately show "\<exists>ls. f (g u) = u\<lparr>links := ls\<rparr>" by auto
next
  show "edges_ok (f (g u))" if "edges_ok u" for u
    using that unit_step.step_edges_ok[OF assms(1)] unit_step.step_edges_ok[OF assms(2)] by blast
qed

section \<open>Every step of the cycle meets the contract\<close>

lemma links_unique_snoc:
  "links_unique (ls @ [l]) \<longleftrightarrow> links_unique ls \<and> link_key l \<notin> link_key ` set ls"
  by (auto simp: links_unique_def)

lemma push_coactivation_ok:
  assumes "links_wf ls" "links_unique ls" "list_all retained ls" "link_wf (snd nl)" "retained (snd nl)"
  shows "links_wf (push_coactivation owner nl ls)" and "links_unique (push_coactivation owner nl ls)"
    and "list_all retained (push_coactivation owner nl ls)"
  using assms
  by (auto simp: push_coactivation_def links_wf_def links_unique_snoc list_ex_iff link_key_def
      split: prod.splits)

lemma fold_push_ok:
  assumes "\<forall>nl \<in> set nls. link_wf (snd nl) \<and> retained (snd nl)"
    and "links_wf ls" "links_unique ls" "list_all retained ls"
  shows "links_wf (fold (push_coactivation owner) nls ls) \<and>
    links_unique (fold (push_coactivation owner) nls ls) \<and>
    list_all retained (fold (push_coactivation owner) nls ls)"
  using assms
proof (induction nls arbitrary: ls)
  case (Cons nl nls)
  then show ?case using push_coactivation_ok[of ls nl owner] by simp
qed simp

lemma coactivation_links_ok:
  "\<forall>nl \<in> set (build_coactivation_links coact th now). link_wf (snd nl) \<and> retained (snd nl)"
  by (auto simp: build_coactivation_links_def coactivation_link_wf)

interpretation hebbian_cycle: unit_step "\<lambda>u. fst (hebbian_step coact now u)" for coact now
proof
  fix u
  show "\<exists>ls. fst (hebbian_step coact now u) = u\<lparr>links := ls\<rparr>"
    by (auto simp: hebbian_step_def Let_def)
  assume "edges_ok u"
  then show "edges_ok (fst (hebbian_step coact now u))"
    using fold_push_ok[OF coactivation_links_ok] hebbian.links_wf_map hebbian.links_unique_map
      hebbian.retained_map
    by (simp add: hebbian_step_def Let_def edges_ok_def hebbian_reinforce_def)
qed

interpretation reject_cycle: unit_step "\<lambda>u. fst (reject_step rejected now u)" for rejected now
proof
  fix u
  show "\<exists>ls. fst (reject_step rejected now u) = u\<lparr>links := ls\<rparr>"
    by (auto simp: reject_step_def Let_def case_prod_unfold)
  assume "edges_ok u"
  then show "edges_ok (fst (reject_step rejected now u))"
    using reject.links_wf_map reject.links_unique_map reject.retained_map
    by (simp add: reject_step_def edges_ok_def reject_weaken_eq)
qed

lemma decay_unit_step:
  assumes "powf_half_ok powf"
  shows "unit_step (\<lambda>u. fst (decay_step powf now u))"
proof
  fix u
  show "\<exists>ls. fst (decay_step powf now u) = u\<lparr>links := ls\<rparr>"
    by (auto simp: decay_step_def Let_def)
  note d = decay_edge_retain[OF assms]
  assume "edges_ok u"
  then show "edges_ok (fst (decay_step powf now u))"
    using edge_retain.links_wf_retain[OF d] edge_retain.links_unique_retain[OF d]
      edge_retain.retained_retain[OF d]
    by (simp add: decay_step_def edges_ok_def apply_decay_with_protection_def Let_def)
qed

lemma compact_edges_subset:
  assumes "compact_edges ls p = (kept, archived)"
  shows "set kept \<subseteq> set ls" and "links_unique ls \<Longrightarrow> links_unique kept"
proof -
  have m: "mset kept + mset archived = mset ls" by (rule compact_edges_mset[OF assms])
  then show "set kept \<subseteq> set ls" by (metis mset_subset_eq_add_left set_mset_mono set_mset_mset)
  assume "links_unique ls"
  moreover have "mset (map link_key (kept @ archived)) = mset (map link_key ls)"
    using m by (metis mset_append mset_map)
  ultimately have "distinct (map link_key (kept @ archived))"
    unfolding links_unique_def using mset_eq_imp_distinct_iff by blast
  then show "links_unique kept" by (simp add: links_unique_def)
qed

lemma compaction_step_eq:
  "compaction_step u =
     (u\<lparr>links := fst (compact_edges (links u) compaction_params_default)\<rparr>,
      of_nat (length (snd (compact_edges (links u) compaction_params_default))))"
  by (simp add: compaction_step_def case_prod_unfold Let_def)

interpretation compaction_cycle: unit_step "\<lambda>u. fst (compaction_step u)"
proof
  fix u
  show "\<exists>ls. fst (compaction_step u) = u\<lparr>links := ls\<rparr>"
    by (auto simp: compaction_step_eq)
  obtain kept archived where c: "compact_edges (links u) compaction_params_default = (kept, archived)"
    by (rule prod.exhaust)
  assume "edges_ok u"
  then show "edges_ok (fst (compaction_step u))"
    using compact_edges_subset[OF c]
    by (auto simp: compaction_step_def c edges_ok_def links_wf_def list_all_iff)
qed

lemma cycle_unit_step:
  assumes "powf_half_ok powf"
  shows "unit_step (cycle_unit powf coact rejected now)"
proof -
  note h = hebbian_cycle.unit_step_axioms[of coact now]
  have "unit_step (\<lambda>u. if rejected = [] then fst (hebbian_step coact now u)
      else fst (reject_step rejected now (fst (hebbian_step coact now u))))"
    using h unit_step_comp[OF reject_cycle.unit_step_axioms[of rejected now] h]
    by (cases "rejected = []") simp_all
  from unit_step_comp[OF compaction_cycle.unit_step_axioms
      unit_step_comp[OF decay_unit_step[OF assms, of now] this]]
  show ?thesis unfolding cycle_unit_def .
qed

interpretation step_cycle: unit_step "cycle_unit powf_step coact rejected now"
  for coact rejected now
  by (rule cycle_unit_step[OF powf_step_ok])

lemma cycle_unit_degree: "length (links (cycle_unit powf coact rejected now u)) \<le> 64"
proof -
  have "length (fst (compact_edges ls compaction_params_default)) \<le> 64" for ls
    using compact_edges_kept(1)[of ls compaction_params_default]
    by (cases "compact_edges ls compaction_params_default")
       (simp add: compaction_params_default_def)
  then show ?thesis by (simp add: cycle_unit_def compaction_step_eq)
qed

section \<open>Where the edges of a cycle come from\<close>

definition new_edge_keys :: "co_pair list \<Rightarrow> memory_id \<Rightarrow> (memory_id \<times> link_type) set" where
  "new_edge_keys coact owner = {(b, LT_Causal) | b w. (owner, b, w) \<in> set coact \<and> F32 3 \<le> w}"

lemma keys_fold_push:
  "link_key ` set (fold (push_coactivation owner) nls ls) =
     link_key ` set ls \<union> {link_key l | l. (owner, l) \<in> set nls}"
proof (induction nls arbitrary: ls)
  case (Cons nl nls)
  obtain o' l where nl: "nl = (o', l)" by (cases nl)
  have "link_key ` set (push_coactivation owner nl ls) =
      link_key ` set ls \<union> (if o' = owner then {link_key l} else {})"
    by (auto simp: push_coactivation_def nl list_ex_iff link_key_def image_iff) metis
  then show ?case using Cons by (auto simp: nl)
qed simp

lemma coactivation_link_key: "link_key (coactivation_link b w now) = (b, LT_Causal)"
  by (simp add: link_key_def coactivation_link_def)

lemma build_coactivation_links_iff:
  "(a, l) \<in> set (build_coactivation_links coact th now) \<longleftrightarrow>
     (\<exists>b w. (a, b, w) \<in> set coact \<and> th \<le> w \<and> l = coactivation_link b w now)"
  unfolding build_coactivation_links_def by force

lemma keys_hebbian_step:
  "link_key ` set (links (fst (hebbian_step coact now u))) =
     link_key ` set (links u) \<union> new_edge_keys coact (mem_id u)"
proof -
  have "{link_key l | l. (o', l) \<in> set (build_coactivation_links coact
      (f32_of_u32 (coactivation_threshold hebbian_params_default)) now)} = new_edge_keys coact o'" for o'
    unfolding build_coactivation_links_iff new_edge_keys_def heb_default_simps
    by (auto simp: coactivation_link_key intro: coactivation_link_key[symmetric])
  moreover have "link_key ` set (hebbian_reinforce ls coact hebbian_params_default now) =
      link_key ` set ls" for ls
    by (simp add: hebbian_reinforce_def image_image hebbian.upd_key)
  ultimately show ?thesis by (simp add: hebbian_step_def Let_def keys_fold_push)
qed

lemma keys_reject_step:
  "link_key ` set (links (fst (reject_step rejected now u))) = link_key ` set (links u)"
  by (simp add: reject_step_def reject_weaken_eq image_image reject_link_key)

lemma keys_decay_step:
  "link_key ` set (links (fst (decay_step powf now u))) \<subseteq> link_key ` set (links u)"
  using decay_link_key
  by (fastforce simp: decay_step_def Let_def apply_decay_with_protection_def set_retain_mut)

lemma keys_compaction_step:
  "link_key ` set (links (fst (compaction_step u))) \<subseteq> link_key ` set (links u)"
  using compact_edges_subset(1)[OF surjective_pairing[of "compact_edges (links u) compaction_params_default"]]
  by (auto simp: compaction_step_eq)

lemma keys_cycle_unit:
  "link_key ` set (links (cycle_unit powf coact rejected now u)) \<subseteq>
     link_key ` set (links u) \<union> new_edge_keys coact (mem_id u)"
proof -
  define v where "v = fst (hebbian_step coact now u)"
  define x where "x = (if rejected = [] then v else fst (reject_step rejected now v))"
  have "link_key ` set (links x) = link_key ` set (links u) \<union> new_edge_keys coact (mem_id u)"
    by (simp add: x_def v_def keys_reject_step keys_hebbian_step)
  moreover have "cycle_unit powf coact rejected now u = fst (compaction_step (fst (decay_step powf now x)))"
    by (simp add: cycle_unit_def x_def v_def)
  ultimately show ?thesis using keys_compaction_step keys_decay_step by (metis subset_trans)
qed

section \<open>Properties\<close>

text \<open>
  C1: a consolidation cycle keeps the graph well formed. It changes nothing of a unit but its
  edges; unit-interval scores, uniqueness of target and type and the retention floor carry over
  from the units to the updated units; every unit ends with at most 64 edges; and the cycle
  counter advances by one.
\<close>

theorem run_cycle_invariant:
  assumes "powf_half_ok powf" "list_all edges_ok us"
    and "run_cycle powf w us coact rejected now = (w', us', stats)"
  shows "cycle_count w' = cycle_count w + 1 \<and>
    list_all2 (\<lambda>u u'. u'\<lparr>links := links u\<rparr> = u \<and> edges_ok u' \<and> length (links u') \<le> 64) us us'"
proof -
  have us': "us' = map (cycle_unit powf coact rejected now) us"
    using run_cycle_units[of powf w us coact rejected now] assms(3) by simp
  note c = cycle_unit_step[OF assms(1), of coact rejected now]
  show ?thesis
    using assms(2) run_cycle_count[of powf w us coact rejected now] assms(3)
      unit_step.step_frame[OF c] unit_step.step_edges_ok[OF c] cycle_unit_degree
    by (auto simp: us' list_all2_conv_all_nth list_all_length)
qed

theorem run_cycle_invariant_witness:
  "cycle_count (fst (run_cycle powf_step \<lparr>cycle_count = 4\<rparr>
     [demo_unit 1 ''a'' [], demo_unit 2 ''b'' []] [(MemoryId 1, MemoryId 2, F32 3)] [MemoryId 2]
     (Timestamp 0))) = 5"
proof -
  let ?us = "[demo_unit 1 ''a'' [], demo_unit 2 ''b'' []]"
  obtain w' us' st where c: "run_cycle powf_step \<lparr>cycle_count = 4\<rparr> ?us
      [(MemoryId 1, MemoryId 2, F32 3)] [MemoryId 2] (Timestamp 0) = (w', us', st)"
    by (rule prod_cases3)
  have "list_all edges_ok ?us" by (simp add: edges_ok_def links_wf_def links_unique_def)
  from run_cycle_invariant[OF powf_step_ok this c] have "cycle_count w' = 5" by simp
  then show ?thesis unfolding c by (simp only: fst_conv)
qed

text \<open>
  C2: a cycle invents no associations. An edge of an updated unit has the target and the type of
  an edge the unit already had, or it leads to a memory that was co-activated with the unit with
  weight at least three; so the units stay free of self-loops whenever no memory is paired with
  itself at that weight.
\<close>

theorem run_cycle_edges_origin:
  assumes "run_cycle powf w us coact rejected now = (w', us', stats)"
  shows "list_all2 (\<lambda>u u'. link_key ` set (links u') \<subseteq>
       link_key ` set (links u) \<union> {(b, LT_Causal) | b c. (mem_id u, b, c) \<in> set coact \<and> F32 3 \<le> c} \<and>
     (no_self_loop u \<and> (\<forall>c. (mem_id u, mem_id u, c) \<in> set coact \<longrightarrow> \<not> F32 3 \<le> c)
        \<longrightarrow> no_self_loop u')) us us'"
proof -
  have us': "us' = map (cycle_unit powf coact rejected now) us"
    using run_cycle_units[of powf w us coact rejected now] assms by simp
  have loops: "no_self_loop u \<longleftrightarrow> (\<forall>lt. (mem_id u, lt) \<notin> link_key ` set (links u))" for u
    by (auto simp: no_self_loop_def link_key_def image_iff) metis
  have id: "mem_id (cycle_unit powf coact rejected now u) = mem_id u" for u
    by (simp add: cycle_unit_def compaction_step_eq decay_step_def reject_step_def hebbian_step_def
        Let_def case_prod_unfold)
  have "link_key ` set (links (cycle_unit powf coact rejected now u)) \<subseteq>
      link_key ` set (links u) \<union> {(b, LT_Causal) | b c. (mem_id u, b, c) \<in> set coact \<and> F32 3 \<le> c}" for u
    using keys_cycle_unit[of powf coact rejected now u] by (simp only: new_edge_keys_def)
  then show ?thesis unfolding us' loops list_all2_conv_all_nth by (auto simp: id) blast
qed

theorem run_cycle_edges_origin_witness:
  "link_key ` set (links (hd (fst (snd (run_cycle powf_step \<lparr>cycle_count = 0\<rparr>
     [demo_unit 1 ''a'' []] [(MemoryId 1, MemoryId 2, F32 3)] [] (Timestamp 0))))))
   \<subseteq> {(MemoryId 2, LT_Causal)}"
proof -
  obtain w' us' st where c: "run_cycle powf_step \<lparr>cycle_count = 0\<rparr> [demo_unit 1 ''a'' []]
      [(MemoryId 1, MemoryId 2, F32 3)] [] (Timestamp 0) = (w', us', st)"
    by (rule prod_cases3)
  from run_cycle_edges_origin[OF c] obtain u' where
    "us' = [u']" "link_key ` set (links u') \<subseteq> {(b, LT_Causal) | b c. b = MemoryId 2 \<and> c = F32 3 \<and> F32 3 \<le> c}"
    by (auto simp: list_all2_Cons1)
  then show ?thesis unfolding c by auto
qed

text \<open>
  In a cycle that starts from retained edges, compaction never archives an edge for its
  strength: the decay step leaves no edge below the floor, so a unit with at most 64 edges passes
  compaction unchanged and nothing is counted as archived.
\<close>

theorem compaction_after_decay_is_overflow_only:
  assumes "powf_half_ok powf" "edges_ok u"
    and "length (links (fst (decay_step powf now u))) \<le> 64"
  shows "compaction_step (fst (decay_step powf now u)) = (fst (decay_step powf now u), 0)"
proof -
  let ?v = "fst (decay_step powf now u)"
  have "edges_ok ?v" using unit_step.step_edges_ok[OF decay_unit_step[OF assms(1)] assms(2)] .
  then have "\<forall>l \<in> set (links ?v). compaction_keep compaction_params_default l"
    by (auto simp: edges_ok_def list_all_iff retained_def retention_floor_def compaction_keep_def
        compaction_params_default_def)
  then have "compact_edges (links ?v) compaction_params_default = (links ?v, [])"
    using assms(3) by (simp add: compact_edges_def Let_def compaction_params_default_def)
  then show ?thesis by (simp add: compaction_step_eq)
qed

theorem compaction_after_decay_is_overflow_only_witness:
  "snd (compaction_step (fst (decay_step powf_step (Timestamp 0) (demo_unit 1 ''a''
     [coactivation_link (MemoryId 2) (F32 3) (Timestamp 0)])))) = 0"
proof -
  let ?u = "demo_unit 1 ''a'' [coactivation_link (MemoryId 2) (F32 3) (Timestamp 0)]"
  have "edges_ok ?u" by (simp add: edges_ok_def links_wf_def links_unique_def coactivation_link_wf)
  moreover have "length (links (fst (decay_step powf_step (Timestamp 0) ?u))) \<le> 64"
    using length_retain_mut[of "decay_link powf_step decay_params_default (Timestamp 0)" "links ?u"]
    by (simp add: decay_step_def apply_decay_with_protection_def Let_def)
  ultimately show ?thesis
    using compaction_after_decay_is_overflow_only[OF powf_step_ok, of ?u "Timestamp 0"] by simp
qed

text \<open>
  A memory that is confirmed three times within an hour is paired with itself, and the
  Hebbian step then gives it an edge to itself, against the documented invariant of the edge list.
\<close>

theorem repeated_activation_self_loop:
  "co_activation_pairs \<lparr>entries = [demo_entry 1 0, demo_entry 1 10, demo_entry 1 20]\<rparr> 3600000 =
     [(MemoryId 1, MemoryId 1, F32 3)] \<and>
   \<not> no_self_loop (fst (hebbian_step [(MemoryId 1, MemoryId 1, F32 3)] now (demo_unit 1 raw [])))"
proof
  have "f32_of_rat 1 = F32 1" "f32_of_rat 2 = F32 2" "f32_of_rat 3 = F32 3"
    using f32_of_nat_exact[of 1] f32_of_nat_exact[of 2] f32_of_nat_exact[of 3] by (simp_all add: f32_of_nat_def)
  then show "co_activation_pairs \<lparr>entries = [demo_entry 1 0, demo_entry 1 10, demo_entry 1 20]\<rparr> 3600000 =
     [(MemoryId 1, MemoryId 1, F32 3)]"
    by (simp add: co_activation_pairs_def sorted_pairs_def add_pair_def in_window_def demo_entry_def
        i64_sub_def i64_range_def pair_key_def Let_def f32_min_def)
  have "(MemoryId 1, LT_Causal) \<in> link_key ` set (links (fst (hebbian_step
      [(MemoryId 1, MemoryId 1, F32 3)] now (demo_unit 1 raw []))))"
    unfolding keys_hebbian_step by (simp add: new_edge_keys_def)
  then show "\<not> no_self_loop (fst (hebbian_step [(MemoryId 1, MemoryId 1, F32 3)] now (demo_unit 1 raw [])))"
    using hebbian_cycle.step_id[of "[(MemoryId 1, MemoryId 1, F32 3)]" now "demo_unit 1 raw []"]
    by (auto simp: no_self_loop_def link_key_def)
qed

end
