(* ===== verification/Core_Text.thy ===== *)
theory Core_Text
  imports Core_Types
begin

text \<open>
  Text and signatures (\<open>hippmem-core/src/hash.rs\<close>). A Rust string is its UTF-8 bytes; \<open>chars\<close>
  decodes it into Unicode scalar values, \<open>of_chars\<close> encodes them. What lies outside the
  sources is a parameter, collected in the record \<open>text_env\<close>: the jieba segmenter and tagger,
  the xxh3 hash, and the Unicode tables of lower-casing and of the alphanumeric class.
\<close>

section \<open>Characters of a string\<close>

fun utf8_decode :: "nat list \<Rightarrow> nat list" where
  "utf8_decode [] = []"
| "utf8_decode (b # bs) =
     (if b < 128 then b # utf8_decode bs
      else if b < 224 then
        (case bs of c # r \<Rightarrow> ((b mod 32) * 64 + c mod 64) # utf8_decode r | _ \<Rightarrow> [])
      else if b < 240 then
        (case bs of c # d # r \<Rightarrow>
           ((b mod 16) * 4096 + (c mod 64) * 64 + d mod 64) # utf8_decode r | _ \<Rightarrow> [])
      else
        (case bs of c # d # e # r \<Rightarrow>
           ((b mod 8) * 262144 + (c mod 64) * 4096 + (d mod 64) * 64 + e mod 64) # utf8_decode r
         | _ \<Rightarrow> []))"

definition utf8_encode :: "nat \<Rightarrow> nat list" where
  "utf8_encode c =
     (if c < 128 then [c]
      else if c < 2048 then [192 + c div 64, 128 + c mod 64]
      else if c < 65536 then [224 + c div 4096, 128 + c div 64 mod 64, 128 + c mod 64]
      else [240 + c div 262144, 128 + c div 4096 mod 64, 128 + c div 64 mod 64, 128 + c mod 64])"

definition chars :: "string \<Rightarrow> nat list" where
  "chars s = utf8_decode (map of_char s)"

definition of_chars :: "nat list \<Rightarrow> string" where
  "of_chars cs = map char_of (concat (map utf8_encode cs))"

definition is_whitespace :: "nat \<Rightarrow> bool" where
  "is_whitespace c \<longleftrightarrow>
     (9 \<le> c \<and> c \<le> 13) \<or> (8192 \<le> c \<and> c \<le> 8202) \<or>
     c \<in> set [32, 133, 160, 5760, 8232, 8233, 8239, 8287, 12288]"

definition is_ascii_punctuation :: "nat \<Rightarrow> bool" where
  "is_ascii_punctuation c \<longleftrightarrow>
     (33 \<le> c \<and> c \<le> 47) \<or> (58 \<le> c \<and> c \<le> 64) \<or> (91 \<le> c \<and> c \<le> 96) \<or> (123 \<le> c \<and> c \<le> 126)"

definition trim_chars :: "nat list \<Rightarrow> nat list" where
  "trim_chars cs = rev (dropWhile is_whitespace (rev (dropWhile is_whitespace cs)))"

definition str_trim :: "string \<Rightarrow> string" where
  "str_trim s = of_chars (trim_chars (chars s))"

text \<open>\<open>str::split\<close> with a predicate on characters.\<close>

fun split_on :: "('a \<Rightarrow> bool) \<Rightarrow> 'a list \<Rightarrow> 'a list list" where
  "split_on p [] = [[]]"
| "split_on p (c # cs) =
     (if p c then [] # split_on p cs
      else (case split_on p cs of [] \<Rightarrow> [[c]] | w # ws \<Rightarrow> (c # w) # ws))"

fun str_join :: "string \<Rightarrow> string list \<Rightarrow> string" where
  "str_join sep [] = ''''"
| "str_join sep [s] = s"
| "str_join sep (s # t # ss) = s @ sep @ str_join sep (t # ss)"

section \<open>Hashing and tokenization\<close>

record text_env =
  jieba_cut :: "string \<Rightarrow> string list"
  jieba_tag :: "string \<Rightarrow> (string \<times> string) list"
  xxh3_64 :: "string \<Rightarrow> u64"
  str_to_lowercase :: "string \<Rightarrow> string"
  char_is_alphanumeric :: "nat \<Rightarrow> bool"

definition stable_hash64 :: "text_env \<Rightarrow> string \<Rightarrow> u64" where
  "stable_hash64 env text = xxh3_64 env text"

definition bit_positions :: "nat list" where
  "bit_positions = [0..<64]"

definition count_ones :: "u64 \<Rightarrow> u32" where
  "count_ones w = of_nat (length (filter (bit w) bit_positions))"

definition simhash_similarity :: "u64 list \<Rightarrow> u64 list \<Rightarrow> f32" where
  "simhash_similarity a b =
     f32_of_u32 (sum_list (map (\<lambda>(x, y). 64 - count_ones (xor x y)) (zip a b))) / f32_of_rat 256"

definition tokenize_chinese :: "text_env \<Rightarrow> string \<Rightarrow> string list" where
  "tokenize_chinese env text = filter (\<lambda>s. str_trim s \<noteq> '''') (jieba_cut env text)"

definition tag_chinese :: "text_env \<Rightarrow> string \<Rightarrow> (string \<times> string) list" where
  "tag_chinese env text = jieba_tag env text"

definition tokenize_english :: "text_env \<Rightarrow> string \<Rightarrow> string list" where
  "tokenize_english env text =
     map (str_to_lowercase env) (filter (\<lambda>s. s \<noteq> '''')
       (map of_chars (split_on (\<lambda>c. is_whitespace c \<or> is_ascii_punctuation c) (chars text))))"

definition tokenize :: "text_env \<Rightarrow> string \<Rightarrow> string \<Rightarrow> string list" where
  "tokenize env text lang =
     (if lang \<in> set [''zh'', ''zh-CN'', ''zh-TW'', ''zh-HK''] then tokenize_chinese env text
      else tokenize_english env text)"

section \<open>Encoding and decoding agree\<close>

lemma utf8_decode_bytes:
  fixes a b c d :: nat
  shows "a < 32 \<Longrightarrow> b < 64 \<Longrightarrow>
      utf8_decode ((192 + a) # (128 + b) # r) = (a * 64 + b) # utf8_decode r"
    and "a < 16 \<Longrightarrow> b < 64 \<Longrightarrow> c < 64 \<Longrightarrow>
      utf8_decode ((224 + a) # (128 + b) # (128 + c) # r) = (a * 4096 + b * 64 + c) # utf8_decode r"
    and "a < 8 \<Longrightarrow> b < 64 \<Longrightarrow> c < 64 \<Longrightarrow> d < 64 \<Longrightarrow>
      utf8_decode ((240 + a) # (128 + b) # (128 + c) # (128 + d) # r) =
        (a * 262144 + b * 4096 + c * 64 + d) # utf8_decode r"
proof -
  have m: "(128 + b) mod 64 = b" if "b < 64" for b :: nat
    using that mod_mult_self2[of b 64 2] by (simp add: add.commute)
  have "(192 + a) mod 32 = a" if "a < 32"
    using that mod_mult_self2[of a 32 6] by (simp add: add.commute)
  then show "a < 32 \<Longrightarrow> b < 64 \<Longrightarrow>
      utf8_decode ((192 + a) # (128 + b) # r) = (a * 64 + b) # utf8_decode r"
    by (simp add: m)
  have "(224 + a) mod 16 = a" if "a < 16"
    using that mod_mult_self2[of a 16 14] by (simp add: add.commute)
  then show "a < 16 \<Longrightarrow> b < 64 \<Longrightarrow> c < 64 \<Longrightarrow>
      utf8_decode ((224 + a) # (128 + b) # (128 + c) # r) = (a * 4096 + b * 64 + c) # utf8_decode r"
    by (simp add: m)
  have "(240 + a) mod 8 = a" if "a < 8"
    using that mod_mult_self2[of a 8 30] by (simp add: add.commute)
  then show "a < 8 \<Longrightarrow> b < 64 \<Longrightarrow> c < 64 \<Longrightarrow> d < 64 \<Longrightarrow>
      utf8_decode ((240 + a) # (128 + b) # (128 + c) # (128 + d) # r) =
        (a * 262144 + b * 4096 + c * 64 + d) # utf8_decode r"
    by (simp add: m)
qed

lemma utf8_roundtrip_char:
  assumes "c < 1114112"
  shows "utf8_decode (utf8_encode c @ r) = c # utf8_decode r"
proof -
  have e3: "x div 4096 * 4096 + x div 64 mod 64 * 64 + x mod 64 = x" for x :: nat
  proof -
    have "x div 4096 = x div 64 div 64" by (simp add: div_mult2_eq[symmetric])
    then have "x div 4096 * 64 + x div 64 mod 64 = x div 64" by (simp only: div_mult_mod_eq)
    moreover have "x div 64 * 64 + x mod 64 = x" by (rule div_mult_mod_eq)
    ultimately show ?thesis by linarith
  qed
  have e4: "x div 262144 * 262144 + x div 4096 mod 64 * 4096 + x div 64 mod 64 * 64 + x mod 64 = x"
    for x :: nat
  proof -
    have "x div 262144 = x div 4096 div 64" by (simp add: div_mult2_eq[symmetric])
    then have "x div 262144 * 64 + x div 4096 mod 64 = x div 4096" by (simp only: div_mult_mod_eq)
    then show ?thesis using e3[of x] by linarith
  qed
  consider "c < 128" | "128 \<le> c" "c < 2048" | "2048 \<le> c" "c < 65536" | "65536 \<le> c" by linarith
  then show ?thesis
  proof cases
    case 1
    then show ?thesis by (simp add: utf8_encode_def)
  next
    case 2
    then have "c div 64 < 32" by simp
    then show ?thesis
      using 2 utf8_decode_bytes(1)[of "c div 64" "c mod 64" r] by (simp add: utf8_encode_def del: utf8_decode.simps)
  next
    case 3
    then have "c div 4096 < 16" by simp
    then show ?thesis
      using 3 utf8_decode_bytes(2)[of "c div 4096" "c div 64 mod 64" "c mod 64" r] e3[of c]
      by (simp add: utf8_encode_def del: utf8_decode.simps)
  next
    case 4
    then have "c div 262144 < 8" using assms by simp
    then show ?thesis
      using 4 utf8_decode_bytes(3)[of "c div 262144" "c div 4096 mod 64" "c div 64 mod 64" "c mod 64" r] e4[of c]
      by (simp add: utf8_encode_def del: utf8_decode.simps)
  qed
qed

lemma utf8_roundtrip:
  "list_all (\<lambda>c. c < 1114112) cs \<Longrightarrow> utf8_decode (concat (map utf8_encode cs)) = cs"
  by (induction cs) (simp_all add: utf8_roundtrip_char)

lemma utf8_encode_byte: "c < 1114112 \<Longrightarrow> x \<in> set (utf8_encode c) \<Longrightarrow> x < 256"
proof -
  assume c: "c < 1114112" and x: "x \<in> set (utf8_encode c)"
  have "y mod 64 < 64" for y :: nat by simp
  moreover have "c div 262144 < 5" using c by simp
  moreover have "c < 65536 \<Longrightarrow> c div 4096 < 16" "c < 2048 \<Longrightarrow> c div 64 < 32" by simp_all
  ultimately show "x < 256" using x
    by (auto simp: utf8_encode_def split: if_splits intro: less_trans add_strict_left_mono)
qed

lemma chars_of_chars: "list_all (\<lambda>c. c < 1114112) cs \<Longrightarrow> chars (of_chars cs) = cs"
proof -
  assume cs: "list_all (\<lambda>c. c < 1114112) cs"
  have "map (of_char \<circ> char_of) (concat (map utf8_encode cs)) = concat (map utf8_encode cs)"
    using cs by (intro map_idI) (auto simp: list_all_iff dest!: utf8_encode_byte)
  then show ?thesis using utf8_roundtrip[OF cs] by (simp add: chars_def of_chars_def)
qed

section \<open>Similarity of signatures\<close>

lemma round32_256ths: "k \<le> 256 \<Longrightarrow> round32 (of_nat k / 256) = of_nat k / 256"
proof (cases "k = 0")
  case False
  assume "k \<le> 256"
  then have "0 < of_nat k / (256 :: rat)" "of_nat k / (256 :: rat) < 2 powi 1" using False by auto
  then have "bexp (of_nat k / 256) < 1" by (rule bexp_less)
  then have "ulp_exp 24 (- 126) (of_nat k / 256) \<le> - 8"
    using False by (simp add: ulp_exp_def max_def)
  moreover have "of_nat k / 256 = (of_int (int k) * 2 powi - 8 :: rat)"
    by (simp add: power_int_minus field_simps)
  ultimately show ?thesis unfolding round32_def by (rule round_bin_grid)
qed simp

lemma bit_positions_simps [simp]: "length bit_positions = 64" "i \<in> set bit_positions \<longleftrightarrow> i < 64"
  unfolding bit_positions_def by (simp_all only: length_upt set_upt atLeastLessThan_iff) simp_all

text \<open>The number of bit positions in which two signatures agree.\<close>

definition equal_bits :: "u64 list \<Rightarrow> u64 list \<Rightarrow> nat" where
  "equal_bits a b = sum_list (map (\<lambda>(x, y). length (filter (\<lambda>i. bit x i = bit y i) bit_positions)) (zip a b))"

lemma unat_of_nat_id: "(of_nat (unat w) :: u32) = w"
  by simp

lemma unat_u32_of_nat: "n \<le> 256 \<Longrightarrow> unat (of_nat n :: u32) = n"
  by (simp add: unat_of_nat)

lemma unat_sixty_four_minus:
  assumes "d + e = 64"
  shows "unat (64 - of_nat d :: u32) = e"
proof -
  have "(64 :: u32) = of_nat (d + e)" unfolding assms by simp
  then have "64 - of_nat d = (of_nat e :: u32)" by (simp only: of_nat_add add_diff_cancel_left')
  then show ?thesis using assms unat_u32_of_nat[of e] by simp
qed

lemma sixty_four_minus_ones:
  "unat (64 - count_ones (xor x y)) = length (filter (\<lambda>i. bit x i = bit y i) bit_positions)"
proof -
  have "filter (\<lambda>i. \<not> bit (xor x y) i) bit_positions = filter (\<lambda>i. bit x i = bit y i) bit_positions"
    by (rule filter_cong[OF refl]) (simp only: bit_xor_iff not_iff simp_thms)
  then show ?thesis
    unfolding count_ones_def
    using sum_length_filter_compl[of "bit (xor x y)" bit_positions]
    by (intro unat_sixty_four_minus) (simp only: bit_positions_simps)
qed

lemma equal_bits_one_le: "length (filter (\<lambda>i. bit x i = bit (y::u64) i) bit_positions) \<le> 64"
  using length_filter_le[of _ "bit_positions"] by simp

lemma simhash_equal_bits:
  assumes "length a = 4" "length b = 4"
  shows "simhash_similarity a b = F32 (of_nat (equal_bits a b) / 256)" and "equal_bits a b \<le> 256"
proof -
  obtain a0 a1 a2 a3 where a: "a = [a0, a1, a2, a3]"
    using assms(1) by (auto simp: numeral_eq_Suc length_Suc_conv)
  obtain b0 b1 b2 b3 where b: "b = [b0, b1, b2, b3]"
    using assms(2) by (auto simp: numeral_eq_Suc length_Suc_conv)
  let ?e = "\<lambda>x y. length (filter (\<lambda>i. bit x i = bit (y::u64) i) bit_positions)"
  have le: "?e a0 b0 \<le> 64" "?e a1 b1 \<le> 64" "?e a2 b2 \<le> 64" "?e a3 b3 \<le> 64"
    by (rule equal_bits_one_le)+
  have eq: "equal_bits a b = ?e a0 b0 + (?e a1 b1 + (?e a2 b2 + ?e a3 b3))"
    by (simp add: equal_bits_def a b)
  then show le': "equal_bits a b \<le> 256" using le by linarith
  let ?w = "\<lambda>x y. 64 - count_ones (xor x y)"
  have w: "?w x y = of_nat (?e x y)" for x y
    unfolding sixty_four_minus_ones[symmetric] by (simp only: unat_of_nat_id)
  have "sum_list (map (\<lambda>(x, y). ?w x y) (zip a b)) = of_nat (equal_bits a b)"
    unfolding eq by (simp add: a b w)
  moreover have "unat (of_nat (equal_bits a b) :: u32) = equal_bits a b"
    using le' by (rule unat_u32_of_nat)
  moreover have "f32_of_nat (equal_bits a b) = F32 (of_nat (equal_bits a b))"
    using le' by (intro f32_of_nat_exact) simp
  moreover have "f32_of_rat 256 = F32 256"
    using f32_of_nat_exact[of 256] by (simp add: f32_of_nat_def)
  moreover have "f32_of_rat (of_nat (equal_bits a b) / 256) = F32 (of_nat (equal_bits a b) / 256)"
  proof (intro f32_of_rat_id unit_f32_valid)
    show "unit_f32 (F32 (of_nat (equal_bits a b) / 256))" using le' round32_256ths[OF le'] by simp
  qed
  ultimately show "simhash_similarity a b = F32 (of_nat (equal_bits a b) / 256)"
    unfolding simhash_similarity_def by (simp add: f32_of_u32_def f32_div_simp)
qed

lemma equal_bits_full:
  "length (filter (\<lambda>i. bit x i = bit (y::u64) i) bit_positions) = 64 \<longleftrightarrow> x = y"
proof
  assume "length (filter (\<lambda>i. bit x i = bit y i) bit_positions) = 64"
  then have "\<forall>i < 64. bit x i = bit y i"
    using length_filter_less[of _ bit_positions "\<lambda>i. bit x i = bit y i"] by fastforce
  then show "x = y" by (intro bit_word_eqI) simp
qed simp

text \<open>
  The similarity of two 256-bit signatures is exactly the share of equal bits, computed
  without rounding; it lies in the unit interval, is symmetric, and is one exactly when the
  signatures are equal.
\<close>

theorem simhash_similarity_spec:
  assumes "length a = 4" "length b = 4"
  shows "simhash_similarity a b = F32 (of_nat (equal_bits a b) / 256) \<and>
    unit_f32 (simhash_similarity a b) \<and>
    simhash_similarity a b = simhash_similarity b a \<and>
    (simhash_similarity a b = 1 \<longleftrightarrow> a = b)"
proof -
  note e = simhash_equal_bits[OF assms] simhash_equal_bits[OF assms(2,1)]
  obtain a0 a1 a2 a3 where a: "a = [a0, a1, a2, a3]"
    using assms(1) by (auto simp: numeral_eq_Suc length_Suc_conv)
  obtain b0 b1 b2 b3 where b: "b = [b0, b1, b2, b3]"
    using assms(2) by (auto simp: numeral_eq_Suc length_Suc_conv)
  let ?e = "\<lambda>x y. length (filter (\<lambda>i. bit x i = bit (y::u64) i) bit_positions)"
  have "equal_bits a b = ?e a0 b0 + (?e a1 b1 + (?e a2 b2 + ?e a3 b3))"
    by (simp add: equal_bits_def a b)
  moreover have "equal_bits b a = equal_bits a b"
    by (simp add: equal_bits_def a b eq_commute)
  moreover have "?e a0 b0 \<le> 64" "?e a1 b1 \<le> 64" "?e a2 b2 \<le> 64" "?e a3 b3 \<le> 64"
    by (rule equal_bits_one_le)+
  ultimately have sym: "equal_bits a b = equal_bits b a" and "equal_bits a b = 256 \<longleftrightarrow>
      ?e a0 b0 = 64 \<and> ?e a1 b1 = 64 \<and> ?e a2 b2 = 64 \<and> ?e a3 b3 = 64" by linarith+
  then have full: "equal_bits a b = 256 \<longleftrightarrow> a = b" unfolding equal_bits_full by (simp add: a b)
  have "of_nat (equal_bits a b) / (256::rat) = 1 \<longleftrightarrow> equal_bits a b = 256"
    by (simp add: field_simps)
  then show ?thesis using e sym full round32_256ths[OF e(2)] by simp
qed

theorem simhash_similarity_spec_witness:
  "simhash_similarity [0, 1, 2, 3] [0, 1, 2, 3] = 1"
proof -
  have "length [0, 1, 2, 3 :: u64] = 4" by simp
  from simhash_similarity_spec[OF this this] show ?thesis by blast
qed

text \<open>A text environment for the concrete instances: every text is one token.\<close>

definition demo_env :: text_env where
  "demo_env = \<lparr>jieba_cut = (\<lambda>s. [s]), jieba_tag = (\<lambda>s. [(s, ''n'')]),
     xxh3_64 = (\<lambda>s. of_nat (length s)), str_to_lowercase = (\<lambda>s. s),
     char_is_alphanumeric = (\<lambda>c. 48 \<le> c)\<rparr>"

end
