(* ===== verification/Consolidation_Summarize.thy ===== *)
theory Consolidation_Summarize
  imports Core_Text Link_Updates
begin

text \<open>
  Summaries of clusters of similar memories: the extractive summarizer
  (\<open>hippmem-model/src/deterministic/summarize.rs\<close>) and cluster planning and construction of the
  summary unit (\<open>hippmem-consolidation/src/summarize.rs\<close>). A token set is a HOL set of strings.
  The planning loop consumes its candidate list; its recursion decreases the length of the list.
\<close>

section \<open>The extractive summarizer\<close>

datatype model_error =
    ME_Network string
  | ME_Auth string
  | ME_RateLimited
  | ME_Parse string
  | ME_Unavailable string

record summarize_input =
  si_id :: memory_id
  si_text :: string

record summary_output =
  so_summary :: string
  so_covers :: "memory_id list"
  so_confidence :: unit_score

text \<open>
  The scan of \<open>split_sentences\<close>; the argument \<open>cur\<close> is the sentence read so far. The terminators
  are the full stop, exclamation and question mark in their Chinese (12290, 65281, 65311) and
  ASCII (46, 33, 63) forms and the line feed.
\<close>

definition sentence_end :: "nat \<Rightarrow> bool" where
  "sentence_end c \<longleftrightarrow> c \<in> set [12290, 65281, 65311, 46, 33, 63, 10]"

definition flush_sentence :: "nat list \<Rightarrow> string list" where
  "flush_sentence cur =
     (let t = of_chars (trim_chars cur) in if 1 < length t then [t] else [])"

fun sentence_loop :: "nat list \<Rightarrow> nat list \<Rightarrow> string list" where
  "sentence_loop cur [] = flush_sentence cur"
| "sentence_loop cur (c # cs) =
     (if sentence_end c then flush_sentence (cur @ [c]) @ sentence_loop [] cs
      else sentence_loop (cur @ [c]) cs)"

definition split_sentences :: "string \<Rightarrow> string list" where
  "split_sentences text =
     (let ss = sentence_loop [] (chars text) in if ss = [] then [text] else ss)"

definition sentence_score :: "text_env \<Rightarrow> string set \<Rightarrow> nat \<Rightarrow> nat \<Rightarrow> string \<Rightarrow> f32" where
  "sentence_score env keywords n i s =
     (let hits = length (filter (\<lambda>t. t \<in> keywords) (tokenize env s ''zh''));
          pos_weight = 1 - (f32_of_nat i / f32_of_nat n) * f32_of_rat (5/10)
      in f32_of_nat hits * pos_weight)"

definition summarize_sync :: "text_env \<Rightarrow> summarize_input list \<Rightarrow> model_error + summary_output" where
  "summarize_sync env sources =
     (let all_text = str_join '' '' (map si_text sources);
          sentences = split_sentences all_text;
          keywords = set (take 20 (filter (\<lambda>t. 2 \<le> length t) (tokenize env all_text ''zh'')));
          n = max (length sentences) 1;
          scored = sort_by (cmp_f32_desc snd)
            (map (\<lambda>(i, s). (i, sentence_score env keywords n i s)) (enumerate 0 sentences));
          top_count = min 3 (length sentences);
          summary = str_join '''' (map (\<lambda>(i, _). sentences ! i) (take top_count scored));
          base_conf = f32_min (f32_of_nat (length sources) * f32_of_rat (5/100)) (f32_of_rat (6/10))
      in Inr \<lparr>so_summary = summary, so_covers = map si_id sources,
              so_confidence = unit_score_new base_conf\<rparr>)"

section \<open>Cluster planning\<close>

definition text_jaccard :: "string set \<Rightarrow> string set \<Rightarrow> f32" where
  "text_jaccard a b =
     (let union = card (a \<union> b) in
      if union = 0 then 0 else f32_of_nat (card (a \<inter> b)) / f32_of_nat union)"

definition token_set :: "text_env \<Rightarrow> string \<Rightarrow> string set" where
  "token_set env text =
     set (filter (\<lambda>t. list_all (char_is_alphanumeric env) (chars t))
       (map (str_to_lowercase env) (tokenize env text ''zh'' @ tokenize env text ''en'')))"

type_synonym candidate = "memory_unit \<times> string set"

definition covered_ids :: "memory_unit list \<Rightarrow> memory_id set" where
  "covered_ids us =
     (\<Union>u \<in> set (filter (\<lambda>u. pv_generated_by (provenance_of u) = GB_Consolidation) us).
        set (preceding_memory_ids (mem_context u)))"

fun is_compressed :: "memory_lifecycle \<Rightarrow> bool" where
  "is_compressed (LC_Compressed _) = True"
| "is_compressed _ = False"

definition summary_candidates :: "text_env \<Rightarrow> memory_unit list \<Rightarrow> candidate list" where
  "summary_candidates env us =
     sort_by (\<lambda>x y. cmp_lin (mem_id (fst x)) (mem_id (fst y)))
       (filter (\<lambda>(_, toks). toks \<noteq> {})
         (map (\<lambda>u. (u, token_set env (mc_raw (content u))))
           (filter (\<lambda>u. \<not> is_compressed (lifecycle u) \<and> mem_id u \<notin> covered_ids us \<and>
              pv_generated_by (provenance_of u) \<noteq> GB_Consolidation) us)))"

definition cluster_ok :: "u32 \<Rightarrow> f32 \<Rightarrow> memory_unit list \<Rightarrow> bool" where
  "cluster_ok trigger low members \<longleftrightarrow>
     trigger \<le> of_nat (length members) \<and>
     length members \<le>
       length (filter (\<lambda>u. score_value (mu_importance (understanding u)) < low) members) * 2"

definition similar_to :: "f32 \<Rightarrow> candidate \<Rightarrow> candidate \<Rightarrow> bool" where
  "similar_to th pivot c \<longleftrightarrow> th \<le> text_jaccard (snd pivot) (snd c)"

function cluster_loop :: "f32 \<Rightarrow> u32 \<Rightarrow> f32 \<Rightarrow> candidate list \<Rightarrow> memory_id list list" where
  "cluster_loop th trigger low [] = []"
| "cluster_loop th trigger low (pivot # cands) =
     (let members = map fst (filter (similar_to th pivot) cands) @ [fst pivot];
          rest = cluster_loop th trigger low (filter (\<lambda>c. \<not> similar_to th pivot c) cands)
      in if cluster_ok trigger low members
         then sort_by cmp_lin (map mem_id members) # rest else rest)"
  by pat_completeness auto
termination
  by (relation "measure (\<lambda>(_, _, _, cs). length cs)") (auto simp: le_imp_less_Suc)

definition plan_summary_clusters ::
    "text_env \<Rightarrow> memory_unit list \<Rightarrow> f32 \<Rightarrow> u32 \<Rightarrow> f32 \<Rightarrow> memory_id list list" where
  "plan_summary_clusters env us similarity_threshold trigger low =
     cluster_loop similarity_threshold trigger low (summary_candidates env us)"

section \<open>The summary unit\<close>

definition covers_link :: "memory_id \<Rightarrow> association_link" where
  "covers_link t =
     \<lparr>target_id = t, link_type = LT_Elaboration, direction = Forward,
      strength = unit_score_new (f32_of_rat (5/10)), confidence = unit_score_new (f32_of_rat (6/10)),
      evidence = \<lparr>le_contributing_dimensions = [], le_score_breakdown = [], le_text_spans = [],
        le_note = Some ''summary covers''\<rparr>,
      formed_at = Timestamp 0, last_activated_at = None, activation_count = 0,
      observation = Confirmed\<rparr>"

definition fallback_summary :: "memory_unit list \<Rightarrow> summary_output" where
  "fallback_summary sources =
     \<lparr>so_summary = str_join ''; ''
        (map (\<lambda>u. of_chars (take 80 (chars (mc_raw (content u))))) (take 3 sources)),
      so_covers = map mem_id sources, so_confidence = unit_score_new (f32_of_rat (1/10))\<rparr>"

text \<open>The identifier of the unit is drawn by \<open>MemoryId::generate\<close>, the argument \<open>fresh\<close>.\<close>

definition build_summary_unit :: "text_env \<Rightarrow> memory_id \<Rightarrow> memory_unit list \<Rightarrow> memory_unit" where
  "build_summary_unit env fresh sources =
     (let inputs = map (\<lambda>u. \<lparr>si_id = mem_id u, si_text = mc_raw (content u)\<rparr>) sources;
          out = (case summarize_sync env inputs of Inr o' \<Rightarrow> o' | Inl _ \<Rightarrow> fallback_summary sources);
          covers = map mem_id sources
      in \<lparr>schema_version = 1, mem_id = fresh, created_at = Timestamp 0, updated_at = Timestamp 0,
          content = \<lparr>mc_raw = so_summary out, mc_summary = Some (so_summary out),
            mc_normalized = None, mc_language = Lang_Zh, mc_content_type = CT_Reflection\<rparr>,
          mem_context = \<lparr>conversation_id = None, session_id = None, project_id = None,
            task_id = None, user_id = None, local_time = Timestamp 0,
            preceding_memory_ids = covers, source_refs = []\<rparr>,
          understanding = \<lparr>mu_entities = [], mu_events = [], mu_goals = [], mu_decisions = [],
            mu_preferences = [], mu_emotions = [], mu_causal_claims = [], mu_contradictions = [],
            mu_topics = [], mu_importance = unit_score_new (f32_of_rat (5/10)),
            mu_confidence = so_confidence out\<rparr>,
          keys = \<lparr>ak_entity_keys = [], ak_temporal_keys = [],
            ak_lexical_signature = \<lparr>ls_simhash = [0, 0, 0, 0]\<rparr>,
            ak_semantic_signature = \<lparr>ss_lexical_simhash = [0, 0, 0, 0],
              ss_dense_embedding_ref = None, ss_binary_code = [0, 0],
              ss_topic_minhash = replicate 16 0\<rparr>,
            ak_topic_keys = [], ak_emotion_keys = [], ak_goal_keys = [], ak_event_keys = [],
            ak_causal_keys = []\<rparr>,
          links = map covers_link covers,
          activation = \<lparr>last_retrieved_at = None, retrieval_count = 0, co_activations = [],
            usage_score = unit_score_new (f32_of_rat (5/10))\<rparr>,
          lifecycle = LC_Active,
          provenance_of = \<lparr>pv_origin = SK_Conversation, pv_generated_by = GB_Consolidation,
            pv_reliability = unit_score_new (f32_of_rat (6/10)), pv_evidence_refs = [],
            pv_revision_history = []\<rparr>,
          stage = MS_Consolidated\<rparr>)"

section \<open>Clusters\<close>

lemma sorted_insert_lin: "sorted xs \<Longrightarrow> sorted (insert_by cmp_lin x xs)"
proof (induction xs)
  case (Cons y ys)
  have "set (insert_by cmp_lin x ys) = insert x (set ys)"
    by (metis mset_insert_by set_mset_add_mset_insert set_mset_mset)
  then show ?case using Cons by auto
qed simp

lemma sorted_sort_by_lin: "sorted (sort_by cmp_lin xs)"
  by (induction xs) (simp_all add: sorted_insert_lin)

definition is_cluster :: "f32 \<Rightarrow> u32 \<Rightarrow> f32 \<Rightarrow> candidate list \<Rightarrow> memory_id list \<Rightarrow> bool" where
  "is_cluster th trigger low cands cl \<longleftrightarrow>
     (\<exists>pivot ms. mset ms \<subseteq># mset cands \<and> pivot \<in> set ms \<and> sorted cl \<and>
       mset cl = mset (map (mem_id \<circ> fst) ms) \<and> cluster_ok trigger low (map fst ms) \<and>
       (\<forall>m \<in> set ms. m = pivot \<or> similar_to th pivot m))"

lemma is_cluster_mono:
  "is_cluster th trigger low cands cl \<Longrightarrow> mset cands \<subseteq># mset cands' \<Longrightarrow>
     is_cluster th trigger low cands' cl"
  unfolding is_cluster_def by (meson subset_mset.order_trans)

lemma cluster_loop_cases:
  assumes "cl \<in> set (cluster_loop th trigger low (pivot # cands))"
  obtains "cl \<in> set (cluster_loop th trigger low (filter (\<lambda>c. \<not> similar_to th pivot c) cands))"
    | "cluster_ok trigger low (map fst (filter (similar_to th pivot) cands @ [pivot]))"
      "cl = sort_by cmp_lin (map (mem_id \<circ> fst) (filter (similar_to th pivot) cands @ [pivot]))"
  using assms by (auto simp: Let_def comp_def split: if_splits)

lemma cluster_loop_members:
  assumes "cl \<in> set (cluster_loop th trigger low cands)"
  shows "is_cluster th trigger low cands cl"
  using assms
proof (induction "length cands" arbitrary: cands rule: less_induct)
  case less
  then obtain pivot cs where cs: "cands = pivot # cs" by (cases cands) auto
  let ?ms = "filter (similar_to th pivot) cs @ [pivot]"
  let ?rem = "filter (\<lambda>c. \<not> similar_to th pivot c) cs"
  from less(2) show ?case unfolding cs
  proof (rule cluster_loop_cases)
    assume "cl \<in> set (cluster_loop th trigger low ?rem)"
    moreover have "length ?rem < length cands" by (simp add: cs le_imp_less_Suc)
    ultimately have "is_cluster th trigger low ?rem cl" by (intro less(1))
    moreover have "mset ?rem \<subseteq># mset (pivot # cs)"
      using subset_mset.order_trans[OF multiset_filter_subset, of "mset cs" "add_mset pivot (mset cs)"]
      by simp
    ultimately show "is_cluster th trigger low (pivot # cs) cl" by (rule is_cluster_mono)
  next
    assume ok: "cluster_ok trigger low (map fst ?ms)"
      and cl: "cl = sort_by cmp_lin (map (mem_id \<circ> fst) ?ms)"
    have "mset ?ms \<subseteq># mset (pivot # cs)" by (simp add: multiset_filter_subset)
    moreover have "sorted cl" unfolding cl by (rule sorted_sort_by_lin)
    moreover have "mset cl = mset (map (mem_id \<circ> fst) ?ms)" unfolding cl by (rule mset_sort_by)
    ultimately show "is_cluster th trigger low (pivot # cs) cl"
      unfolding is_cluster_def using ok by (intro exI[of _ pivot] exI[of _ ?ms]) auto
  qed
qed

text \<open>The loop spreads its candidates over the clusters, using none of them twice.\<close>

lemma cluster_loop_disjoint:
  "mset (concat (cluster_loop th trigger low cands)) \<subseteq># mset (map (mem_id \<circ> fst) cands)"
proof (induction "length cands" arbitrary: cands rule: less_induct)
  case less
  show ?case
  proof (cases cands)
    case (Cons pivot cs)
    let ?ms = "filter (similar_to th pivot) cs"
    let ?rem = "filter (\<lambda>c. \<not> similar_to th pivot c) cs"
    let ?f = "mem_id \<circ> fst"
    have "length ?rem < length cands" by (simp add: Cons le_imp_less_Suc)
    then have IH: "mset (concat (cluster_loop th trigger low ?rem)) \<subseteq># mset (map ?f ?rem)"
      by (rule less)
    have "mset cs = mset ?ms + mset ?rem" by (simp add: mset_filter)
    then have split: "mset (map ?f cs) = mset (map ?f ?ms) + mset (map ?f ?rem)"
      by (metis image_mset_union mset_map)
    have "mset (concat (cluster_loop th trigger low (pivot # cs))) \<subseteq>#
        mset (map ?f (?ms @ [pivot])) + mset (concat (cluster_loop th trigger low ?rem))"
      by (simp add: Let_def comp_def)
    also have "\<dots> \<subseteq># mset (map ?f (?ms @ [pivot])) + mset (map ?f ?rem)"
      using IH by (simp only: subset_mset.add_left_mono)
    also have "\<dots> = mset (map ?f (pivot # cs))" using split by simp
    finally show ?thesis unfolding Cons .
  qed simp
qed

text \<open>Which units a plan may put into a cluster.\<close>

definition summarizable :: "text_env \<Rightarrow> memory_unit list \<Rightarrow> memory_unit \<Rightarrow> bool" where
  "summarizable env us u \<longleftrightarrow>
     \<not> is_compressed (lifecycle u) \<and> mem_id u \<notin> covered_ids us \<and>
     pv_generated_by (provenance_of u) \<noteq> GB_Consolidation \<and> token_set env (mc_raw (content u)) \<noteq> {}"

lemma summary_candidates_in:
  "(u, toks) \<in> set (summary_candidates env us) \<longleftrightarrow>
     u \<in> set us \<and> summarizable env us u \<and> toks = token_set env (mc_raw (content u))"
  by (auto simp: summary_candidates_def summarizable_def)

lemma summary_candidates_ids:
  "mset (map (mem_id \<circ> fst) (summary_candidates env us)) \<subseteq># mset (map mem_id us)"
proof -
  have "mset (map fst (filter (\<lambda>(_, toks). toks \<noteq> {}) (map (\<lambda>u. (u, f u)) (filter P us)))) \<subseteq># mset us"
    for f :: "memory_unit \<Rightarrow> string set" and P
    by (induction us) (auto intro: subset_mset.order_trans)
  then have "mset (map fst (summary_candidates env us)) \<subseteq># mset us"
    by (simp add: summary_candidates_def mset_map)
  then show ?thesis
    by (metis image_mset_subseteq_mono map_map mset_map)
qed

text \<open>
  C6: planning summaries. For units with distinct identifiers, no identifier is used twice, in
  one cluster or in two; every cluster lists, in increasing order, units that are active sources
  (not compressed, not covered by an existing summary, not themselves summaries, with a token);
  each of them is similar enough to the pivot of the cluster; the cluster reaches the trigger
  count and at least half of its members are of low importance.
\<close>

theorem plan_summary_clusters_spec:
  assumes "distinct (map mem_id us)"
  shows "distinct (concat (plan_summary_clusters env us th trigger low)) \<and>
    (\<forall>cl \<in> set (plan_summary_clusters env us th trigger low). sorted cl \<and>
       (\<exists>ms pivot. mset cl = mset (map mem_id ms) \<and> pivot \<in> set ms \<and> cluster_ok trigger low ms \<and>
         (\<forall>m \<in> set ms. m \<in> set us \<and> summarizable env us m \<and>
           (m = pivot \<or> th \<le> text_jaccard (token_set env (mc_raw (content pivot)))
                                          (token_set env (mc_raw (content m)))))))"
proof (intro conjI ballI)
  have "mset (concat (plan_summary_clusters env us th trigger low)) \<subseteq># mset (map mem_id us)"
    unfolding plan_summary_clusters_def
    using cluster_loop_disjoint summary_candidates_ids by (rule subset_mset.order_trans)
  then show "distinct (concat (plan_summary_clusters env us th trigger low))"
    using assms by (metis distinct_append mset_append mset_eq_imp_distinct_iff mset_subset_eq_exists_conv
        surj_mset surj_def)
next
  fix cl
  assume "cl \<in> set (plan_summary_clusters env us th trigger low)"
  then obtain pivot ms where ms: "mset ms \<subseteq># mset (summary_candidates env us)" "pivot \<in> set ms"
      "sorted cl" "mset cl = mset (map (mem_id \<circ> fst) ms)" "cluster_ok trigger low (map fst ms)"
      "\<forall>m \<in> set ms. m = pivot \<or> similar_to th pivot m"
    unfolding plan_summary_clusters_def using cluster_loop_members is_cluster_def by blast
  show "sorted cl" by (rule ms)
  have cand: "m \<in> set (summary_candidates env us)" if "m \<in> set ms" for m
    using ms(1) that by (metis mset_subset_eqD set_mset_mset)
  show "\<exists>ms pivot. mset cl = mset (map mem_id ms) \<and> pivot \<in> set ms \<and> cluster_ok trigger low ms \<and>
         (\<forall>m \<in> set ms. m \<in> set us \<and> summarizable env us m \<and>
           (m = pivot \<or> th \<le> text_jaccard (token_set env (mc_raw (content pivot)))
                                          (token_set env (mc_raw (content m)))))"
  proof (intro exI conjI ballI)
    show "mset cl = mset (map mem_id (map fst ms))" using ms(4) by simp
    show "fst pivot \<in> set (map fst ms)" using ms(2) by simp
    show "cluster_ok trigger low (map fst ms)" by (rule ms)
    fix m
    assume "m \<in> set (map fst ms)"
    then obtain toks where m: "(m, toks) \<in> set ms" by auto
    show "m \<in> set us" "summarizable env us m" using cand[OF m] by (auto simp: summary_candidates_in)
    show "m = fst pivot \<or> th \<le> text_jaccard (token_set env (mc_raw (content (fst pivot))))
        (token_set env (mc_raw (content m)))"
      using ms(6) m cand[OF m] cand[OF ms(2)]
      by (cases pivot) (auto simp: summary_candidates_in similar_to_def)
  qed
qed

theorem plan_summary_clusters_spec_witness:
  "distinct (concat (plan_summary_clusters demo_env
     [demo_unit 1 ''abc'' [], demo_unit 2 ''abc'' [], demo_unit 3 ''d'' []]
     (f32_of_rat (6/10)) 2 (f32_of_rat (6/10))))"
proof -
  have "distinct (map mem_id [demo_unit 1 ''abc'' [], demo_unit 2 ''abc'' [], demo_unit 3 ''d'' []])"
    by simp
  from plan_summary_clusters_spec[OF this] show ?thesis by blast
qed

section \<open>Summary units\<close>

lemma build_summary_unit_simps [simp]:
  "mem_id (build_summary_unit env fresh sources) = fresh"
  "pv_generated_by (provenance_of (build_summary_unit env fresh sources)) = GB_Consolidation"
  "preceding_memory_ids (mem_context (build_summary_unit env fresh sources)) = map mem_id sources"
  "links (build_summary_unit env fresh sources) = map covers_link (map mem_id sources)"
  by (simp_all add: build_summary_unit_def Let_def)

definition summary_confidence :: "nat \<Rightarrow> f32" where
  "summary_confidence n = f32_min (f32_of_nat n * f32_of_rat (5/100)) (f32_of_rat (6/10))"

lemma build_summary_unit_confidence:
  "mu_confidence (understanding (build_summary_unit env fresh sources)) =
     unit_score_new (summary_confidence (length sources))"
  by (simp add: build_summary_unit_def Let_def summarize_sync_def summary_confidence_def)

lemma covers_link_wf: "link_wf (covers_link t)"
  by (simp add: covers_link_def link_wf_def score_wf_new)

lemma f32_lit_0_05: "f32_of_rat (1/20) = F32 (13421773/268435456)" by code_simp
lemma f32_lit_0_6: "f32_of_rat (3/5) = F32 (10066330/16777216)" by code_simp
lemma f32_lit_0_35: "f32_of_rat (7/20) = F32 (11744051/33554432)" by code_simp
lemma f32_six_twentieths: "f32_of_rat (6 * (13421773/268435456)) = F32 (10066330/33554432)" by code_simp
lemma f32_seven_twentieths: "f32_of_rat (7 * (13421773/268435456)) = F32 (11744051/33554432)" by code_simp

lemma f32_of_rat_le_inf: "f32_of_rat q \<le> F32_Inf"
  using f32_of_rat_not_nan[of q] by (cases "f32_of_rat q") simp_all

lemma summary_product_mono:
  assumes "m \<le> n"
  shows "f32_of_nat m * F32 (13421773/268435456) \<le> f32_of_nat n * F32 (13421773/268435456)"
proof -
  have "f32_of_nat m \<le> f32_of_nat n" unfolding f32_of_nat_def using assms by (intro f32_of_rat_mono) simp
  moreover have "F32 0 \<le> f32_of_nat m" unfolding f32_of_nat_def by (intro f32_of_rat_nonneg) simp
  ultimately show ?thesis
    by (cases "f32_of_nat m"; cases "f32_of_nat n")
       (auto simp: f32_signed_inf_def times_f32_def intro!: f32_of_rat_mono f32_of_rat_le_inf)
qed

lemma summary_confidence_gate:
  "f32_of_rat (35/100) \<le> score_value (unit_score_new (summary_confidence n)) \<longleftrightarrow> 7 \<le> n"
proof -
  let ?c = "F32 (13421773/268435456)"
  have p: "f32_of_nat 6 * ?c = F32 (10066330/33554432)" "f32_of_nat 7 * ?c = F32 (11744051/33554432)"
    using f32_six_twentieths f32_seven_twentieths by (simp_all add: f32_of_nat_exact)
  have conf: "summary_confidence n = f32_min (f32_of_nat n * ?c) (F32 (10066330/16777216))"
    by (simp add: summary_confidence_def f32_lit_0_05 f32_lit_0_6)
  have u: "unit_f32 (F32 (11744051/33554432))"
    using unit_f32_of_rat[of "7/20"] by (simp add: f32_lit_0_35 del: unit_f32.simps)
  have u': "unit_f32 (F32 (10066330/33554432))"
    using unit_f32_of_rat[of "3/10"] by (simp add: f32_lits del: unit_f32.simps)
  show ?thesis
  proof
    assume "7 \<le> n"
    from summary_product_mono[OF this] have "F32 (11744051/33554432) \<le> summary_confidence n"
      unfolding p conf by (intro f32_min_ge) simp_all
    from score_new_ge[OF u this]
    show "f32_of_rat (35/100) \<le> score_value (unit_score_new (summary_confidence n))"
      by (simp add: f32_lit_0_35)
  next
    assume ge: "f32_of_rat (35/100) \<le> score_value (unit_score_new (summary_confidence n))"
    show "7 \<le> n"
    proof (rule ccontr)
      assume "\<not> 7 \<le> n"
      then have "f32_of_nat n * ?c \<le> F32 (10066330/33554432)"
        using summary_product_mono[of n 6] unfolding p by simp
      then have "summary_confidence n \<le> F32 (10066330/33554432)"
        unfolding conf
        using f32_le_trans[OF f32_min_le(1)[of "f32_of_nat n * ?c" "F32 (10066330/16777216)"]]
          f32_le_not_nan by blast
      from f32_le_trans[OF ge score_new_le[OF u' this]] show False by (simp add: f32_lit_0_35)
    qed
  qed
qed

text \<open>
  The summary of a cluster covers its sources: the covered identifiers are recorded in order,
  one confirmed elaboration edge leads to each source, all edges are well formed, there is no
  self-loop when the generated identifier is new, and the confidence reaches the gate 0.35 exactly
  for seven or more sources.
\<close>

theorem build_summary_unit_spec:
  "preceding_memory_ids (mem_context (build_summary_unit env fresh sources)) = map mem_id sources \<and>
   map link_key (links (build_summary_unit env fresh sources)) =
     map (\<lambda>u. (mem_id u, LT_Elaboration)) sources \<and>
   links_wf (links (build_summary_unit env fresh sources)) \<and>
   no_self_loop (build_summary_unit env fresh sources) = (fresh \<notin> mem_id ` set sources) \<and>
   (f32_of_rat (35/100)
      \<le> score_value (mu_confidence (understanding (build_summary_unit env fresh sources)))) =
     (7 \<le> length sources)"
proof -
  have "link_key (covers_link t) = (t, LT_Elaboration)" for t
    by (simp add: link_key_def covers_link_def)
  moreover have "no_self_loop (build_summary_unit env fresh sources) = (fresh \<notin> mem_id ` set sources)"
    by (auto simp: no_self_loop_def covers_link_def)
  ultimately show ?thesis
    using summary_confidence_gate[of "length sources"]
    by (simp add: build_summary_unit_confidence links_wf_def list_all_iff covers_link_wf)
qed

text \<open>
  Memories are summarized once. Once the summary of some sources is among the units, no later
  plan puts one of these sources, or the summary itself, into a cluster.
\<close>

theorem summarized_units_not_planned_again:
  assumes "distinct (map mem_id us)" "build_summary_unit env fresh sources \<in> set us"
    and "cl \<in> set (plan_summary_clusters env' us th trigger low)"
  shows "set cl \<inter> insert fresh (mem_id ` set sources) = {}"
proof -
  let ?s = "build_summary_unit env fresh sources"
  have cov: "mem_id ` set sources \<subseteq> covered_ids us"
    using assms(2) unfolding covered_ids_def
    by (auto intro!: bexI[of _ ?s])
  from assms(3) obtain pivot ms where ms: "mset ms \<subseteq># mset (summary_candidates env' us)"
      "mset cl = mset (map (mem_id \<circ> fst) ms)"
    unfolding plan_summary_clusters_def using cluster_loop_members is_cluster_def by blast
  have "i \<notin> insert fresh (mem_id ` set sources)" if "i \<in> set cl" for i
  proof -
    from that ms(2) obtain m where m: "m \<in> set ms" "i = mem_id (fst m)"
      by (metis (no_types, lifting) comp_apply image_iff list.set_map set_mset_mset)
    have "m \<in> set (summary_candidates env' us)" using ms(1) m(1) by (metis mset_subset_eqD set_mset_mset)
    then have u: "fst m \<in> set us" "summarizable env' us (fst m)"
      by (metis prod.collapse summary_candidates_in)+
    have "fst m \<noteq> ?s" using u(2) by (auto simp: summarizable_def)
    then have "i \<noteq> fresh"
      using assms(1,2) u(1) m(2) build_summary_unit_simps(1) by (metis distinct_map inj_onD)
    then show ?thesis using u(2) cov m(2) by (auto simp: summarizable_def)
  qed
  then show ?thesis by blast
qed

theorem summarized_units_not_planned_again_witness:
  "list_all (\<lambda>cl. set cl \<inter> {MemoryId 9, MemoryId 1} = {})
     (plan_summary_clusters demo_env
        [demo_unit 1 ''abc'' [], build_summary_unit demo_env (MemoryId 9) [demo_unit 1 ''abc'' []]]
        (f32_of_rat (6/10)) 1 1)"
  unfolding list_all_iff
proof
  let ?us = "[demo_unit 1 ''abc'' [], build_summary_unit demo_env (MemoryId 9) [demo_unit 1 ''abc'' []]]"
  fix cl
  assume cl: "cl \<in> set (plan_summary_clusters demo_env ?us (f32_of_rat (6/10)) 1 1)"
  have "distinct (map mem_id ?us)" by simp
  from summarized_units_not_planned_again[OF this _ cl,
      of demo_env "MemoryId 9" "[demo_unit 1 ''abc'' []]"]
  show "set cl \<inter> {MemoryId 9, MemoryId 1} = {}" by simp
qed

end
