(* ===== verification/Core_Config.thy ===== *)
theory Core_Config
  imports Core_Types
begin

text \<open>
  The algorithm parameters of \<open>hippmem-core/src/config.rs\<close>: the struct \<open>AlgoParams\<close> with every
  field, its \<open>Default\<close> instance (the literals rounded to \<open>f32\<close>), the two channel tables, and the
  embedder configuration. Loading a configuration through \<open>figment\<close> is not modelled: the functions
  take the parameters as an argument.
\<close>

record algo_params =
  w_entity :: f32
  w_semantic :: f32
  w_temporal :: f32
  w_topic :: f32
  w_goal :: f32
  w_event :: f32
  w_emotion :: f32
  w_causal :: f32
  w_context :: f32
  w_importance :: f32
  multi_dim_bonus :: f32
  multi_dim_min_dims :: u32
  strong_edge_threshold :: f32
  strong_edge_max :: u32
  strong_edge_min :: u32
  weak_edge_max :: u32
  edge_build_min_score :: f32
  observation_enter_max :: f32
  init_strength_base :: f32
  a_query_match :: f32
  b_context_match :: f32
  c_importance :: f32
  c_usage :: f32
  d_freshness :: f32
  e_reliability :: f32
  decay_factor :: f32
  min_propagation_energy :: f32
  fan_out_default :: u32
  max_hops_default :: u32
  seed_energy_cap :: f32
  hebbian_learning_rate :: f32
  coactivation_create_threshold :: u32
  strength_max :: f32
  decay_per_cycle :: f32
  min_retained_strength :: f32
  weak_degree_limit :: u32
  node_degree_limit :: u32
  observation_window_ms :: i64
  stale_unactivated_ms :: i64
  rerank_top_n :: u32
  seed_per_channel :: u32
  bm25_norm_factor :: f32
  rrf_w_bm25 :: f32
  rrf_w_entity :: f32
  rrf_w_semantic_dense :: f32
  rrf_w_semantic_binary :: f32
  rrf_w_topic :: f32
  rrf_w_temporal :: f32
  rrf_w_goal :: f32
  rrf_w_event :: f32
  rrf_w_causal :: f32
  rrf_w_recent :: f32
  channel_coeff_bm25 :: f32
  channel_coeff_semantic_dense :: f32
  channel_coeff_semantic_binary :: f32
  channel_coeff_entity :: f32
  channel_coeff_topic :: f32
  channel_coeff_temporal :: f32
  channel_coeff_goal :: f32
  channel_coeff_event :: f32
  channel_coeff_causal :: f32
  channel_coeff_recent :: f32
  cold_start_count :: u32
  single_semantic_penalty :: f32
  tau_temporal_days :: u32
  tau_fresh_days :: u32
  low_conf_threshold :: f32
  stale_threshold :: f32
  dim_hit_threshold :: f32
  merge_secondary_weight :: f32
  rrf_k :: f32
  seed_merge_weight :: f32
  summary_trigger_count :: u32
  summary_similarity_threshold :: f32
  summary_low_importance_threshold :: f32
  co_activation_keep :: u32

definition algo_params_default :: algo_params where
  "algo_params_default = \<lparr>
     w_entity = f32_of_rat (20/100),
     w_semantic = f32_of_rat (18/100),
     w_temporal = f32_of_rat (10/100),
     w_topic = f32_of_rat (10/100),
     w_goal = f32_of_rat (12/100),
     w_event = f32_of_rat (10/100),
     w_emotion = f32_of_rat (5/100),
     w_causal = f32_of_rat (10/100),
     w_context = f32_of_rat (3/100),
     w_importance = f32_of_rat (2/100),
     multi_dim_bonus = f32_of_rat (15/100),
     multi_dim_min_dims = 3,
     strong_edge_threshold = f32_of_rat (55/100),
     strong_edge_max = 8,
     strong_edge_min = 3,
     weak_edge_max = 24,
     edge_build_min_score = f32_of_rat (25/100),
     observation_enter_max = f32_of_rat (55/100),
     init_strength_base = f32_of_rat (40/100),
     a_query_match = f32_of_rat (40/100),
     b_context_match = f32_of_rat (20/100),
     c_importance = f32_of_rat (60/100),
     c_usage = f32_of_rat (5/10),
     d_freshness = f32_of_rat (15/100),
     e_reliability = f32_of_rat (10/100),
     decay_factor = f32_of_rat (55/100),
     min_propagation_energy = f32_of_rat (5/100),
     fan_out_default = 6,
     max_hops_default = 2,
     seed_energy_cap = 1,
     hebbian_learning_rate = f32_of_rat (8/100),
     coactivation_create_threshold = 3,
     strength_max = 1,
     decay_per_cycle = f32_of_rat (97/100),
     min_retained_strength = f32_of_rat (12/100),
     weak_degree_limit = 32,
     node_degree_limit = 64,
     observation_window_ms = 1209600000,
     stale_unactivated_ms = 2592000000,
     rerank_top_n = 50,
     seed_per_channel = 20,
     bm25_norm_factor = f32_of_rat (20/10),
     rrf_w_bm25 = 1,
     rrf_w_entity = 1,
     rrf_w_semantic_dense = 1,
     rrf_w_semantic_binary = 1,
     rrf_w_topic = f32_of_rat (3/10),
     rrf_w_temporal = f32_of_rat (3/10),
     rrf_w_goal = 1,
     rrf_w_event = 1,
     rrf_w_causal = 1,
     rrf_w_recent = 1,
     channel_coeff_bm25 = 1,
     channel_coeff_semantic_dense = f32_of_rat (12/10),
     channel_coeff_semantic_binary = f32_of_rat (6/10),
     channel_coeff_entity = 1,
     channel_coeff_topic = 1,
     channel_coeff_temporal = 1,
     channel_coeff_goal = 1,
     channel_coeff_event = 1,
     channel_coeff_causal = 1,
     channel_coeff_recent = 1,
     cold_start_count = 500,
     single_semantic_penalty = f32_of_rat (60/100),
     tau_temporal_days = 7,
     tau_fresh_days = 30,
     low_conf_threshold = f32_of_rat (35/100),
     stale_threshold = f32_of_rat (20/100),
     dim_hit_threshold = f32_of_rat (20/100),
     merge_secondary_weight = f32_of_rat (30/100),
     rrf_k = 1,
     seed_merge_weight = f32_of_rat (80/100),
     summary_trigger_count = 12,
     summary_similarity_threshold = f32_of_rat (7/10),
     summary_low_importance_threshold = f32_of_rat (5/10),
     co_activation_keep = 16\<rparr>"

fun rrf_channel_weight :: "algo_params \<Rightarrow> recall_channel \<Rightarrow> f32" where
  "rrf_channel_weight p RC_Bm25 = rrf_w_bm25 p"
| "rrf_channel_weight p RC_EntityInverted = rrf_w_entity p"
| "rrf_channel_weight p RC_SemanticDense = rrf_w_semantic_dense p"
| "rrf_channel_weight p RC_SemanticBinary = rrf_w_semantic_binary p"
| "rrf_channel_weight p RC_TopicCluster = rrf_w_topic p"
| "rrf_channel_weight p RC_Temporal = rrf_w_temporal p"
| "rrf_channel_weight p RC_Goal = rrf_w_goal p"
| "rrf_channel_weight p RC_Event = rrf_w_event p"
| "rrf_channel_weight p RC_Causal = rrf_w_causal p"
| "rrf_channel_weight p RC_RecentActivation = rrf_w_recent p"
| "rrf_channel_weight p _ = 1"

fun channel_energy_coeff :: "algo_params \<Rightarrow> recall_channel \<Rightarrow> f32" where
  "channel_energy_coeff p RC_Bm25 = channel_coeff_bm25 p"
| "channel_energy_coeff p RC_SemanticDense = channel_coeff_semantic_dense p"
| "channel_energy_coeff p RC_SemanticBinary = channel_coeff_semantic_binary p"
| "channel_energy_coeff p RC_EntityInverted = channel_coeff_entity p"
| "channel_energy_coeff p RC_TopicCluster = channel_coeff_topic p"
| "channel_energy_coeff p RC_Temporal = channel_coeff_temporal p"
| "channel_energy_coeff p RC_Goal = channel_coeff_goal p"
| "channel_energy_coeff p RC_Event = channel_coeff_event p"
| "channel_energy_coeff p RC_Causal = channel_coeff_causal p"
| "channel_energy_coeff p RC_RecentActivation = channel_coeff_recent p"
| "channel_energy_coeff p _ = 1"

section \<open>Embedder configuration\<close>

datatype embedder_config =
    EC_Auto
  | EC_Hash usize
  | EC_Neural string string "string option" usize
  | EC_Onnx string string usize

definition default_embed_dim :: usize where
  "default_embed_dim = 256"

definition default_embedder_base_url :: string where
  "default_embedder_base_url = ''https://api.openai.com/v1''"

fun dimensions :: "embedder_config \<Rightarrow> usize" where
  "dimensions EC_Auto = default_embed_dim"
| "dimensions (EC_Hash d) = d"
| "dimensions (EC_Neural base_url model api_key d) = d"
| "dimensions (EC_Onnx model_name model_cache_dir d) = d"

end
