(* ===== verification/Retrieval_Energy.thy ===== *)
theory Retrieval_Energy
  imports Core_Config
begin

text \<open>
  Activation energy (\<open>hippmem-retrieval/src/energy.rs\<close>): the seed energy, the energy that arrives
  over an edge, the modifier of the edge type; and the merge of two paths
  (\<open>spreading.rs::merge_energy\<close>). \<open>f32::clamp\<close> panics when its bounds are not ordered, which the
  configured cap can bring about: \<open>initial_energy\<close> returns \<open>None\<close> in that case. The invariant of
  the energies of a spread is \<open>energy_ok\<close>.
\<close>

record seed =
  sd_id :: memory_id
  sd_channel :: recall_channel
  sd_score :: f32
  sd_rank_in_channel :: "usize option"

definition initial_energy ::
    "seed \<Rightarrow> f32 \<Rightarrow> f32 \<Rightarrow> f32 \<Rightarrow> f32 \<Rightarrow> f32 \<Rightarrow> algo_params \<Rightarrow> f32 option" where
  "initial_energy sd query_match context_match importance freshness reliability p =
     (let channel_coeff = channel_energy_coeff p (sd_channel sd);
          importance_multiplier = 1 + importance * c_importance p;
          raw = channel_coeff * query_match * a_query_match p * importance_multiplier
            + context_match * b_context_match p + freshness * d_freshness p
            + reliability * e_reliability p
      in f32_clamp raw 0 (seed_energy_cap p))"

fun type_modifier :: "link_type \<Rightarrow> f32" where
  "type_modifier LT_Causal = f32_of_rat (130/100)"
| "type_modifier LT_Correction = f32_of_rat (120/100)"
| "type_modifier LT_Supersedes = f32_of_rat (115/100)"
| "type_modifier LT_SameGoal = f32_of_rat (110/100)"
| "type_modifier LT_SameEvent = f32_of_rat (110/100)"
| "type_modifier LT_CoActivation = f32_of_rat (105/100)"
| "type_modifier LT_EntityOverlap = 1"
| "type_modifier LT_Elaboration = 1"
| "type_modifier LT_SemanticSimilar = f32_of_rat (90/100)"
| "type_modifier LT_TopicRelated = f32_of_rat (85/100)"
| "type_modifier LT_EmotionalResonance = f32_of_rat (70/100)"
| "type_modifier LT_TemporalAdjacent = f32_of_rat (60/100)"
| "type_modifier LT_Contradiction = f32_of_rat (50/100)"
| "type_modifier LT_Deprecated = f32_of_rat (40/100)"

text \<open>The cast \<open>hop as i32\<close> reads the word as a signed number.\<close>

definition propagated_energy :: "f32 \<Rightarrow> association_link \<Rightarrow> u32 \<Rightarrow> algo_params \<Rightarrow> f32" where
  "propagated_energy source_energy l hop p =
     clamp01 (source_energy * link_strength l * score_value (confidence l)
       * f32_powi (decay_factor p) (sint hop) * type_modifier (link_type l))"

definition merge_energy :: "f32 \<Rightarrow> f32 \<Rightarrow> algo_params \<Rightarrow> f32" where
  "merge_energy existing new p =
     f32_max existing new + merge_secondary_weight p * f32_min existing new"

section \<open>The range of energies\<close>

text \<open>
  A bounded energy is a representable number between zero and \<open>2 ^ 24\<close>; the bound is kept by the
  merge because adding at most one to a number up to \<open>2 ^ 24\<close> rounds to at most \<open>2 ^ 24\<close>.
\<close>

definition bounded_energy :: "f32 \<Rightarrow> bool" where
  "bounded_energy e \<longleftrightarrow> f32_valid e \<and> F32 0 \<le> e \<and> e \<le> F32 16777216"

definition energy_params_ok :: "algo_params \<Rightarrow> bool" where
  "energy_params_ok p \<longleftrightarrow>
     unit_f32 (a_query_match p) \<and> unit_f32 (c_importance p) \<and> unit_f32 (decay_factor p) \<and>
     unit_f32 (merge_secondary_weight p) \<and> unit_f32 (min_propagation_energy p) \<and>
     unit_f32 (seed_energy_cap p)"

lemma energy_params_ok_default: "energy_params_ok algo_params_default"
  unfolding energy_params_ok_def algo_params_default_def algo_params.simps
  by (intro conjI unit_f32_of_rat) simp_all

lemma bounded_energyE:
  assumes "bounded_energy e"
  obtains q where "e = F32 q" "0 \<le> q" "q \<le> 16777216" "round32 q = q" "f32_valid (F32 q)"
  using assms by (cases e) (auto simp: bounded_energy_def)

lemma bounded_energy_unit: "unit_f32 e \<Longrightarrow> bounded_energy e"
  by (elim unit_f32E) (auto simp: bounded_energy_def intro: order_trans)

lemma f32_valid_two_24: "f32_valid (F32 16777216)"
proof -
  have "bexp 16777216 < 25" by (rule bexp_less) simp_all
  then have "round32 (of_int 16777216) = of_int 16777216"
    unfolding round32_def by (intro round_bin_grid[of _ _ _ 1 "8388608"]) (simp_all add: ulp_exp_def)
  then show ?thesis by simp
qed

lemma bounded_energy_mult_unit:
  assumes "bounded_energy e" "unit_f32 u"
  shows "bounded_energy (e * u)" and "e * u \<le> e"
proof -
  obtain q where q: "e = F32 q" "0 \<le> q" "q \<le> 16777216" "f32_valid (F32 q)"
    using assms(1) by (rule bounded_energyE)
  obtain r where r: "u = F32 r" "0 \<le> r" "r \<le> 1" using assms(2) by (rule unit_f32E)
  show le: "e * u \<le> e" unfolding q(1) using q r assms(2) by (intro f32_mult_le_left)
  have "F32 0 \<le> e * u" unfolding q(1) r(1) using q r by (simp add: f32_of_rat_nonneg)
  moreover have "e * u \<le> F32 16777216" using f32_le_trans[OF le] q by simp
  ultimately show "bounded_energy (e * u)"
    by (simp add: bounded_energy_def f32_valid_ops)
qed

lemma type_modifier_nonneg: "F32 0 \<le> type_modifier t" "f32_valid (type_modifier t)"
  "\<exists>q. type_modifier t = F32 q"
proof -
  have r: "\<exists>q. f32_of_rat x = F32 q" if "0 \<le> x" "x \<le> 2" for x
  proof -
    have "round32 x \<le> round32 2" using that by (intro r32.R_mono)
    moreover have "round32 2 = 2" using round32_of_int[of 2] by simp
    moreover have "0 \<le> round32 x" using that by (intro r32.R_nonneg)
    moreover have "2 \<le> f32_max_finite" by (rule order_trans[OF _ f32_max_finite_ge(1)]) simp
    ultimately show ?thesis by (simp add: f32_of_rat_def Let_def)
  qed
  show "F32 0 \<le> type_modifier t" by (cases t) (simp_all add: f32_of_rat_nonneg)
  show "f32_valid (type_modifier t)" by (cases t) simp_all
  show "\<exists>q. type_modifier t = F32 q" by (cases t) (simp_all add: r)
qed

lemma propagated_energy_unit:
  assumes "bounded_energy e" "link_wf l" "unit_f32 (decay_factor p)" "0 \<le> sint hop"
  shows "unit_f32 (propagated_energy e l hop p)"
proof -
  let ?r = "e * link_strength l * score_value (confidence l) * f32_powi (decay_factor p) (sint hop)"
  have "bounded_energy ?r"
    using assms unfolding link_wf_def score_wf_def
    by (intro bounded_energy_mult_unit(1) unit_f32_powi) simp_all
  then obtain q where "?r = F32 q" by (rule bounded_energyE)
  moreover obtain m where "type_modifier (link_type l) = F32 m" using type_modifier_nonneg(3) by blast
  ultimately have "?r * type_modifier (link_type l) = f32_of_rat (q * m)" by simp
  then show ?thesis unfolding propagated_energy_def by (simp add: unit_f32_clamp01)
qed

text \<open>Adding at most one to a bounded energy stays within the bound.\<close>

lemma two_24_plus_one: "f32_of_rat 16777217 = F32 16777216"
  by code_simp

lemma bounded_energy_add_unit:
  assumes "bounded_energy e" "unit_f32 d"
  shows "bounded_energy (e + d)" and "e \<le> e + d"
proof -
  obtain q where q: "e = F32 q" "0 \<le> q" "q \<le> 16777216" "f32_valid (F32 q)"
    using assms(1) by (rule bounded_energyE)
  obtain r where r: "d = F32 r" "0 \<le> r" "r \<le> 1" using assms(2) by (rule unit_f32E)
  show ge: "e \<le> e + d" unfolding q(1) r(1) using q r by (intro f32_add_ge) simp_all
  have "f32_of_rat (q + r) \<le> f32_of_rat 16777217" using q r by (intro f32_of_rat_mono) simp
  then have "e + d \<le> F32 16777216" unfolding q(1) r(1) two_24_plus_one by simp
  moreover have "F32 0 \<le> e + d" using f32_le_trans[OF _ ge] q by simp
  ultimately show "bounded_energy (e + d)" by (simp add: bounded_energy_def f32_valid_ops)
qed

lemma merge_energy_bounded:
  assumes "bounded_energy a" "unit_f32 b" "unit_f32 (merge_secondary_weight p)"
  shows "bounded_energy (merge_energy a b p)" and "a \<le> merge_energy a b p"
    and "b \<le> merge_energy a b p"
proof -
  obtain q where q: "a = F32 q" "0 \<le> q" using assms(1) by (rule bounded_energyE)
  obtain r where r: "b = F32 r" "0 \<le> r" "r \<le> 1" "round32 r = r" using assms(2) by (rule unit_f32E)
  have mx: "bounded_energy (f32_max a b)"
    using assms(1) bounded_energy_unit[OF assms(2)] f32_max_cases[of a b] by metis
  have "unit_f32 (f32_min a b)"
  proof (cases "a \<le> b")
    case True
    then show ?thesis using assms(1) r q by (auto simp: f32_min_def bounded_energy_def)
  next
    case False
    then show ?thesis using assms(2) r q by (auto simp: f32_min_def)
  qed
  then have mn: "unit_f32 (merge_secondary_weight p * f32_min a b)"
    using assms(3) by (intro unit_f32_mult)
  note s = bounded_energy_add_unit[OF mx mn]
  show "bounded_energy (merge_energy a b p)" using s(1) by (simp add: merge_energy_def)
  have "a \<le> f32_max a b" "b \<le> f32_max a b" using q r f32_max_ge by blast+
  then show "a \<le> merge_energy a b p" "b \<le> merge_energy a b p"
    using s(2) f32_le_trans unfolding merge_energy_def by blast+
qed

section \<open>Properties\<close>

text \<open>
  The energy that arrives over an edge stays within the unit interval, whatever bounded
  energy the source has, for every well-formed edge and every non-negative hop count.
\<close>

theorem propagated_energy_in_unit:
  assumes "bounded_energy e" "link_wf l" "unit_f32 (decay_factor p)" "0 \<le> sint hop"
  shows "unit_f32 (propagated_energy e l hop p)"
  using assms by (rule propagated_energy_unit)

theorem propagated_energy_in_unit_witness:
  "unit_f32 (propagated_energy 1 (demo_link 2 LT_Causal (2/5)) 1 algo_params_default)"
  using energy_params_ok_default bounded_energy_unit[OF unit_f32_01(2)]
  by (intro propagated_energy_in_unit demo_link_wf) (simp_all add: energy_params_ok_def)

text \<open>
  Merging a second path into a node is symmetric, never loses energy against either path, and
  keeps the energy bounded by \<open>2 ^ 24\<close>, however many paths are merged one after the other.
\<close>

theorem merge_energy_spec:
  assumes "bounded_energy a" "unit_f32 b" "unit_f32 (merge_secondary_weight p)"
  shows "merge_energy a b p = merge_energy b a p \<and> a \<le> merge_energy a b p \<and>
    b \<le> merge_energy a b p \<and> bounded_energy (merge_energy a b p)"
  using merge_energy_bounded[OF assms] f32_max_commute[of a b] f32_min_commute[of a b]
  by (simp add: merge_energy_def)

theorem merge_energy_spec_witness: "F32 1 \<le> merge_energy (F32 1) (F32 1) algo_params_default"
  using merge_energy_spec[OF bounded_energy_unit[OF unit_f32_01(2)] unit_f32_01(2),
      of algo_params_default] energy_params_ok_default
  by (simp add: energy_params_ok_def)

text \<open>
  The seed energy is computed exactly when the configured cap is at least zero (the clamp
  panics otherwise), and then lies between zero and the cap unless the weighted sum is not a number.
\<close>

theorem initial_energy_spec:
  "(initial_energy sd q c i f r p = None \<longleftrightarrow> \<not> 0 \<le> seed_energy_cap p) \<and>
   (case initial_energy sd q c i f r p of None \<Rightarrow> True
    | Some e \<Rightarrow> e = F32_NaN \<or> 0 \<le> e \<and> e \<le> seed_energy_cap p)"
proof -
  have "(f32_clamp raw 0 h = None \<longleftrightarrow> \<not> 0 \<le> h) \<and>
      (case f32_clamp raw 0 h of None \<Rightarrow> True | Some e \<Rightarrow> e = F32_NaN \<or> 0 \<le> e \<and> e \<le> h)" for raw h
    by (cases raw; cases h) (auto simp: f32_clamp_def)
  then show ?thesis unfolding initial_energy_def Let_def by blast
qed

end
