(* ===== verification/Retrieval_Seeds.thy ===== *)
theory Retrieval_Seeds
  imports Retrieval_Energy
begin

text \<open>
  Seed recall and rank fusion (\<open>hippmem-retrieval/src/seeds.rs\<close>). The hits of the ten recall
  channels become seeds; each seed gets its rank within its channel; seeds are sorted by score and
  deduplicated per memory and channel; \<open>rrf_fuse\<close> adds up the reciprocal ranks of a memory. The
  fused table is a \<open>HashMap\<close> that callers iterate over: an association list with distinct keys.
\<close>

section \<open>Seeds of all channels\<close>

record seed_result =
  sr_seeds :: "seed list"
  sr_channel_scores :: "(recall_channel \<times> f32) list"

definition new_seed :: "recall_channel \<Rightarrow> memory_id \<Rightarrow> f32 \<Rightarrow> seed" where
  "new_seed ch i s = \<lparr>sd_id = i, sd_channel = ch, sd_score = s, sd_rank_in_channel = None\<rparr>"

definition score_seeds :: "recall_channel \<Rightarrow> usize \<Rightarrow> (memory_id \<times> f32) list \<Rightarrow> seed list" where
  "score_seeds ch limit hits = map (\<lambda>(i, s). new_seed ch i s) (take limit hits)"

definition overlap_seeds :: "recall_channel \<Rightarrow> usize \<Rightarrow> (memory_id \<times> usize) list \<Rightarrow> seed list" where
  "overlap_seeds ch limit hits =
     map (\<lambda>(i, n). new_seed ch i (f32_min (f32_of_nat n * f32_of_rat (15/100)) 1)) (take limit hits)"

definition temporal_seeds :: "usize \<Rightarrow> (memory_id \<times> bool) list \<Rightarrow> seed list" where
  "temporal_seeds limit hits =
     map (\<lambda>(i, _). new_seed RC_Temporal i (f32_of_rat (3/10))) (filter snd (take limit hits))"

definition max_score :: "f32 list \<Rightarrow> f32" where
  "max_score xs = fold (\<lambda>x m. f32_max m x) xs 0"

definition max_channel_score :: "recall_channel \<Rightarrow> (memory_id \<times> f32) list \<Rightarrow> (recall_channel \<times> f32) list" where
  "max_channel_score ch hits = (if hits = [] then [] else [(ch, max_score (map snd hits))])"

definition first_channel_score :: "recall_channel \<Rightarrow> (memory_id \<times> f32) list \<Rightarrow> (recall_channel \<times> f32) list" where
  "first_channel_score ch hits = (case hits of [] \<Rightarrow> [] | h # _ \<Rightarrow> [(ch, snd h)])"

definition overlap_channel_score ::
    "recall_channel \<Rightarrow> (memory_id \<times> usize) list \<Rightarrow> (recall_channel \<times> f32) list" where
  "overlap_channel_score ch hits =
     (if hits = [] then []
      else [(ch, f32_min (max_score (map (\<lambda>(_, n). f32_of_nat n * f32_of_rat (15/100)) hits)) 1)])"

text \<open>Ranks: the position of a seed in its channel's group, sorted by descending score.\<close>

definition channel_group :: "seed list \<Rightarrow> recall_channel \<Rightarrow> (nat \<times> seed) list" where
  "channel_group ss ch =
     sort_by (cmp_f32_desc (\<lambda>x. sd_score (snd x)))
       (filter (\<lambda>x. sd_channel (snd x) = ch) (enumerate 0 ss))"

fun position :: "('a \<Rightarrow> bool) \<Rightarrow> 'a list \<Rightarrow> nat" where
  "position P [] = 0"
| "position P (x # xs) = (if P x then 0 else Suc (position P xs))"

definition assign_ranks :: "seed list \<Rightarrow> seed list" where
  "assign_ranks ss =
     map (\<lambda>(i, s). s\<lparr>sd_rank_in_channel :=
         Some (position (\<lambda>x. fst x = i) (channel_group ss (sd_channel s)))\<rparr>) (enumerate 0 ss)"

fun retain_first :: "('a \<Rightarrow> 'k) \<Rightarrow> 'k set \<Rightarrow> 'a list \<Rightarrow> 'a list" where
  "retain_first key seen [] = []"
| "retain_first key seen (x # xs) =
     (if key x \<in> seen then retain_first key seen xs
      else x # retain_first key (insert (key x) seen) xs)"

record channel_hits =
  entity_hits :: "(memory_id \<times> f32) list"
  temporal_hits :: "(memory_id \<times> bool) list"
  semantic_hits :: "(memory_id \<times> f32) list"
  topic_hits :: "(memory_id \<times> f32) list"
  bm25_hits :: "(memory_id \<times> f32) list"
  binary_hits :: "(memory_id \<times> f32) list"
  goal_hits :: "(memory_id \<times> usize) list"
  event_hits :: "(memory_id \<times> usize) list"
  causal_hits :: "(memory_id \<times> usize) list"
  recent_hits :: "(memory_id \<times> f32) list"

definition raw_seeds :: "channel_hits \<Rightarrow> usize \<Rightarrow> seed list" where
  "raw_seeds h limit =
     score_seeds RC_Bm25 limit (bm25_hits h) @ score_seeds RC_SemanticBinary limit (binary_hits h) @
     score_seeds RC_EntityInverted limit (entity_hits h) @
     score_seeds RC_TopicCluster limit (topic_hits h) @ temporal_seeds limit (temporal_hits h) @
     overlap_seeds RC_Goal limit (goal_hits h) @ overlap_seeds RC_Event limit (event_hits h) @
     overlap_seeds RC_Causal limit (causal_hits h) @
     score_seeds RC_RecentActivation limit (recent_hits h) @
     score_seeds RC_SemanticDense limit (semantic_hits h)"

definition channel_scores_of :: "channel_hits \<Rightarrow> (recall_channel \<times> f32) list" where
  "channel_scores_of h =
     max_channel_score RC_Bm25 (bm25_hits h) @ max_channel_score RC_SemanticBinary (binary_hits h) @
     first_channel_score RC_EntityInverted (entity_hits h) @
     max_channel_score RC_TopicCluster (topic_hits h) @
     (if list_ex snd (temporal_hits h) then [(RC_Temporal, f32_of_rat (3/10))] else []) @
     overlap_channel_score RC_Goal (goal_hits h) @ overlap_channel_score RC_Event (event_hits h) @
     overlap_channel_score RC_Causal (causal_hits h) @
     max_channel_score RC_RecentActivation (recent_hits h) @
     first_channel_score RC_SemanticDense (semantic_hits h)"

definition multi_channel_seeds :: "channel_hits \<Rightarrow> usize \<Rightarrow> seed_result" where
  "multi_channel_seeds h per_channel_limit =
     \<lparr>sr_seeds = retain_first (\<lambda>s. (sd_id s, sd_channel s)) {}
        (sort_by (cmp_f32_desc sd_score) (assign_ranks (raw_seeds h per_channel_limit))),
      sr_channel_scores = channel_scores_of h\<rparr>"

section \<open>Rank fusion\<close>

type_synonym fused_scores = "(memory_id \<times> f32 \<times> recall_channel) list"

definition rrf_contrib :: "algo_params \<Rightarrow> seed \<Rightarrow> f32" where
  "rrf_contrib p s =
     (let rank = f32_of_nat (case sd_rank_in_channel s of Some r \<Rightarrow> r | None \<Rightarrow> 99)
      in rrf_channel_weight p (sd_channel s) / (rrf_k p + rank))"

definition keep_larger :: "f32 \<Rightarrow> recall_channel \<Rightarrow> f32 \<times> recall_channel \<Rightarrow> f32 \<times> recall_channel" where
  "keep_larger v ch old = (if fst old < v then (v, ch) else old)"

fun winner_loop :: "seed list \<Rightarrow> fused_scores \<Rightarrow> fused_scores" where
  "winner_loop [] m = m"
| "winner_loop (s # ss) m =
     winner_loop ss
       (entry_upsert (sd_id s) (keep_larger (sd_score s) (sd_channel s)) (sd_score s, sd_channel s) m)"

fun fuse_loop ::
    "algo_params \<Rightarrow> seed list \<Rightarrow> fused_scores \<times> fused_scores \<Rightarrow> fused_scores \<times> fused_scores" where
  "fuse_loop p [] m = m"
| "fuse_loop p (s # ss) (fused, best) =
     (let c = rrf_contrib p s in
      fuse_loop p ss
        (entry_upsert (sd_id s) (\<lambda>(v, ch). (v + c, ch)) (c, sd_channel s) fused,
         entry_upsert (sd_id s) (keep_larger c (sd_channel s)) (c, sd_channel s) best))"

definition set_best_channel :: "fused_scores \<Rightarrow> fused_scores \<Rightarrow> fused_scores" where
  "set_best_channel best fused =
     map (\<lambda>(i, v, ch). (i, v, case map_of best i of Some (_, b) \<Rightarrow> b | None \<Rightarrow> ch)) fused"

definition rrf_fuse :: "seed list \<Rightarrow> algo_params \<Rightarrow> fused_scores" where
  "rrf_fuse ss p =
     (if rrf_k p \<le> 0 then winner_loop ss []
      else let (fused, best) = fuse_loop p ss ([], []) in set_best_channel best fused)"

section \<open>Results\<close>

fun dimension_of_link :: "link_type \<Rightarrow> match_dimension option" where
  "dimension_of_link LT_EntityOverlap = Some MD_Entity"
| "dimension_of_link LT_Causal = Some MD_Causal"
| "dimension_of_link LT_TopicRelated = Some MD_Topic"
| "dimension_of_link LT_TemporalAdjacent = Some MD_Temporal"
| "dimension_of_link LT_SemanticSimilar = Some MD_Semantic"
| "dimension_of_link LT_SameGoal = Some MD_Goal"
| "dimension_of_link LT_SameEvent = Some MD_Event"
| "dimension_of_link _ = None"

definition seeds_deduce_dimensions :: "activation_step list \<Rightarrow> match_dimension list" where
  "seeds_deduce_dimensions trace =
     dedup (List.map_filter (\<lambda>st. Option.bind (step_via_link st) dimension_of_link) trace)"

definition generate_warnings :: "memory_unit \<Rightarrow> f32 \<Rightarrow> memory_warning list" where
  "generate_warnings u energy =
     (if energy < f32_of_rat (2/10) then [MW_LowConfidence] else []) @
     (if lifecycle u = LC_Deprecated then [MW_Deprecated] else [])"

type_synonym activated = "memory_id \<times> f32 \<times> activation_step list"

definition rerank_results :: "activated list \<Rightarrow> memory_unit list \<Rightarrow> retrieval_result list" where
  "rerank_results act us =
     List.map_filter (\<lambda>(i, energy, trace).
       case find_first (\<lambda>u. mem_id u = i) us of None \<Rightarrow> None
       | Some u \<Rightarrow> Some \<lparr>rr_memory = u, rr_final_score = energy, rr_activation_trace = trace,
           rr_matched_dimensions = seeds_deduce_dimensions trace,
           rr_warnings = generate_warnings u energy\<rparr>) act"

section \<open>Lemmas on seeds\<close>

lemma set_retain_first: "set (retain_first key seen xs) \<subseteq> set xs"
  by (induction xs arbitrary: seen) auto

lemma keys_retain_first: "key ` set (retain_first key seen xs) = key ` set xs - seen"
  by (induction xs arbitrary: seen) auto

lemma distinct_retain_first: "distinct (map key (retain_first key seen xs))"
proof (induction xs arbitrary: seen)
  case (Cons x xs)
  then show ?case using keys_retain_first[of key "insert (key x) seen" xs] by auto
qed simp

lemma sorted_retain_first: "sorted_wrt P xs \<Longrightarrow> sorted_wrt P (retain_first key seen xs)"
  by (induction xs arbitrary: seen) (auto dest: subsetD[OF set_retain_first])

lemma position_less: "x \<in> set xs \<Longrightarrow> P x \<Longrightarrow> position P xs < length xs"
  by (induction xs) auto

lemma nth_position: "x \<in> set xs \<Longrightarrow> P x \<Longrightarrow> P (xs ! position P xs)"
  by (induction xs) auto

lemma length_filter_enumerate:
  "length (filter (\<lambda>x. Q (snd x)) (enumerate n xs)) = length (filter Q xs)"
  by (induction xs arbitrary: n) auto

lemma channel_group_in: "x \<in> set (channel_group ss ch) \<longleftrightarrow> x \<in> set (enumerate 0 ss) \<and> sd_channel (snd x) = ch"
  by (auto simp: channel_group_def)

lemma length_channel_group: "length (channel_group ss ch) = length (filter (\<lambda>s. sd_channel s = ch) ss)"
  using length_filter_enumerate[of "\<lambda>s. sd_channel s = ch" 0 ss] by (simp add: channel_group_def)

text \<open>Each channel contributes at most the limit.\<close>

lemma filter_channel_new:
  "filter (\<lambda>s. sd_channel s = ch) (score_seeds c limit hits) = (if c = ch then score_seeds c limit hits else [])"
  "filter (\<lambda>s. sd_channel s = ch) (overlap_seeds c limit ohits) = (if c = ch then overlap_seeds c limit ohits else [])"
  "filter (\<lambda>s. sd_channel s = ch) (temporal_seeds limit thits) =
     (if ch = RC_Temporal then temporal_seeds limit thits else [])"
  by (auto simp: score_seeds_def overlap_seeds_def temporal_seeds_def new_seed_def filter_map comp_def
      case_prod_unfold)

lemma length_channel_seeds:
  "length (score_seeds c limit hits) \<le> limit" "length (overlap_seeds c limit ohits) \<le> limit"
  "length (temporal_seeds limit thits) \<le> limit"
proof -
  have "length (filter snd (take limit thits)) \<le> length (take limit thits)" by (rule length_filter_le)
  then show "length (temporal_seeds limit thits) \<le> limit"
    unfolding temporal_seeds_def length_map by (rule order_trans) simp
qed (simp_all add: score_seeds_def overlap_seeds_def)

lemma raw_seeds_per_channel:
  "length (filter (\<lambda>s. sd_channel s = ch) (raw_seeds h limit)) \<le> limit"
  unfolding raw_seeds_def filter_append filter_channel_new
  by (cases ch) (simp_all add: length_channel_seeds)

lemma assign_ranks_in:
  assumes "s \<in> set (assign_ranks ss)"
  obtains i where "i < length ss"
    "s = (ss ! i)\<lparr>sd_rank_in_channel := Some (position (\<lambda>x. fst x = i) (channel_group ss (sd_channel (ss ! i))))\<rparr>"
    "(i, ss ! i) \<in> set (channel_group ss (sd_channel (ss ! i)))"
  using assms by (auto simp: assign_ranks_def in_set_enumerate_eq channel_group_in)

lemma assign_ranks_map:
  assumes "\<And>s r. f (s\<lparr>sd_rank_in_channel := r\<rparr>) = f s"
  shows "map f (assign_ranks ss) = map f ss"
proof -
  have "map f (assign_ranks ss) = map (\<lambda>x. f (snd x)) (enumerate 0 ss)"
    by (simp add: assign_ranks_def case_prod_unfold assms)
  also have "\<dots> = map f (map snd (enumerate 0 ss))" by (simp only: map_map comp_def)
  finally show ?thesis by (simp only: map_snd_enumerate)
qed

lemma rank_bound:
  assumes "s \<in> set (assign_ranks (raw_seeds h limit))"
  shows "\<exists>r < limit. sd_rank_in_channel s = Some r"
proof -
  let ?ss = "raw_seeds h limit"
  obtain i where i: "s = (?ss ! i)\<lparr>sd_rank_in_channel :=
        Some (position (\<lambda>x. fst x = i) (channel_group ?ss (sd_channel (?ss ! i))))\<rparr>"
      "(i, ?ss ! i) \<in> set (channel_group ?ss (sd_channel (?ss ! i)))"
    using assms by (rule assign_ranks_in)
  have "position (\<lambda>x. fst x = i) (channel_group ?ss (sd_channel (?ss ! i))) <
      length (channel_group ?ss (sd_channel (?ss ! i)))"
    by (rule position_less[OF i(2)]) simp
  also have "\<dots> \<le> limit" unfolding length_channel_group by (rule raw_seeds_per_channel)
  finally show ?thesis using i(1) by simp
qed

lemma rank_order:
  assumes nan: "\<forall>s \<in> set ss. sd_score s \<noteq> F32_NaN"
    and "s \<in> set (assign_ranks ss)" "t \<in> set (assign_ranks ss)"
    and "sd_channel s = sd_channel t" "sd_score t < sd_score s"
  shows "the (sd_rank_in_channel s) < the (sd_rank_in_channel t)"
proof -
  obtain i where i: "s = (ss ! i)\<lparr>sd_rank_in_channel :=
        Some (position (\<lambda>x. fst x = i) (channel_group ss (sd_channel (ss ! i))))\<rparr>"
      "(i, ss ! i) \<in> set (channel_group ss (sd_channel (ss ! i)))"
    using assms(2) by (rule assign_ranks_in)
  obtain j where j: "t = (ss ! j)\<lparr>sd_rank_in_channel :=
        Some (position (\<lambda>x. fst x = j) (channel_group ss (sd_channel (ss ! j))))\<rparr>"
      "(j, ss ! j) \<in> set (channel_group ss (sd_channel (ss ! j)))"
    using assms(3) by (rule assign_ranks_in)
  define g where "g = channel_group ss (sd_channel (ss ! i))"
  have ch: "sd_channel (ss ! j) = sd_channel (ss ! i)" using assms(4) i(1) j(1) by simp
  define pi pj where "pi = position (\<lambda>x. fst x = i) g" and "pj = position (\<lambda>x. fst x = j) g"
  have pi: "pi < length g" "fst (g ! pi) = i"
    unfolding pi_def g_def using position_less[OF i(2)] nth_position[OF i(2), of "\<lambda>x. fst x = i"] by auto
  have pj: "pj < length g" "fst (g ! pj) = j"
    unfolding pj_def g_def
    using position_less[OF j(2)] nth_position[OF j(2), of "\<lambda>x. fst x = j"] ch by auto
  have elem: "g ! k = (fst (g ! k), ss ! fst (g ! k)) \<and> fst (g ! k) < length ss" if "k < length g" for k
    using nth_mem[OF that] by (auto simp: g_def channel_group_in in_set_enumerate_eq prod_eq_iff)
  have srt: "sorted_wrt (\<lambda>a b. sd_score (snd b) \<le> sd_score (snd a)) g"
    unfolding g_def channel_group_def using nan
    by (intro sorted_desc_by) (auto simp: list_all_iff in_set_enumerate_eq)
  have lt: "sd_score (ss ! j) < sd_score (ss ! i)" using assms(5) i(1) j(1) by simp
  have "pi < pj"
  proof (rule ccontr)
    assume "\<not> pi < pj"
    then have "pj < pi \<or> pj = pi" by auto
    then have "sd_score (snd (g ! pi)) \<le> sd_score (snd (g ! pj))"
    proof
      assume "pj < pi"
      then show ?thesis using srt pi(1) by (auto simp: sorted_wrt_iff_nth_less)
    next
      assume "pj = pi"
      then show ?thesis using nan elem[OF pi(1)] by (metis f32_le_refl nth_mem snd_conv)
    qed
    then have "sd_score (ss ! i) \<le> sd_score (ss ! j)"
      using elem[OF pi(1)] elem[OF pj(1)] pi(2) pj(2) by (metis snd_conv)
    then show False using lt by (simp add: f32_less_le)
  qed
  then show ?thesis using i(1) j(1) ch by (simp add: pi_def pj_def g_def)
qed

section \<open>Lemmas on rank fusion\<close>

definition fused_upd :: "algo_params \<Rightarrow> seed \<Rightarrow> (f32 \<times> recall_channel) option \<Rightarrow> (f32 \<times> recall_channel) option" where
  "fused_upd p s old =
     Some (case old of None \<Rightarrow> (rrf_contrib p s, sd_channel s)
           | Some (v, ch) \<Rightarrow> (v + rrf_contrib p s, ch))"

definition best_upd :: "(seed \<Rightarrow> f32) \<Rightarrow> seed \<Rightarrow> (f32 \<times> recall_channel) option \<Rightarrow> (f32 \<times> recall_channel) option" where
  "best_upd val s old =
     Some (case old of None \<Rightarrow> (val s, sd_channel s)
           | Some vc \<Rightarrow> keep_larger (val s) (sd_channel s) vc)"

lemma map_of_fuse_loop:
  "map_of (fst (fuse_loop p ss (f, b))) i = fold (fused_upd p) (filter (\<lambda>s. sd_id s = i) ss) (map_of f i)"
  "map_of (snd (fuse_loop p ss (f, b))) i =
     fold (best_upd (rrf_contrib p)) (filter (\<lambda>s. sd_id s = i) ss) (map_of b i)"
  by (induction ss arbitrary: f b)
     (simp_all add: Let_def map_of_entry_upsert fused_upd_def best_upd_def split: option.split prod.split)

lemma map_of_winner_loop:
  "map_of (winner_loop ss m) i = fold (best_upd sd_score) (filter (\<lambda>s. sd_id s = i) ss) (map_of m i)"
  by (induction ss arbitrary: m)
     (simp_all add: map_of_entry_upsert best_upd_def split: option.split)

lemma keys_fuse_loop:
  "fst ` set (fst (fuse_loop p ss (f, b))) = fst ` set f \<union> sd_id ` set ss"
  "distinct (map fst f) \<Longrightarrow> distinct (map fst (fst (fuse_loop p ss (f, b))))"
  by (induction ss arbitrary: f b) (simp_all add: Let_def keys_entry_upsert distinct_entry_upsert)

lemma keys_winner_loop:
  "fst ` set (winner_loop ss m) = fst ` set m \<union> sd_id ` set ss"
  "distinct (map fst m) \<Longrightarrow> distinct (map fst (winner_loop ss m))"
  by (induction ss arbitrary: m) (simp_all add: keys_entry_upsert distinct_entry_upsert)

lemma keys_set_best: "map fst (set_best_channel b f) = map fst f"
  by (simp add: set_best_channel_def case_prod_unfold)

lemma keys_rrf_fuse:
  "fst ` set (rrf_fuse ss p) = sd_id ` set ss" "distinct (map fst (rrf_fuse ss p))"
proof -
  have "fst ` set (set_best_channel b f) = fst ` set f" for b f
    by (metis keys_set_best list.set_map)
  then show "fst ` set (rrf_fuse ss p) = sd_id ` set ss"
    by (simp add: rrf_fuse_def keys_winner_loop keys_fuse_loop case_prod_unfold Let_def)
  show "distinct (map fst (rrf_fuse ss p))"
    using keys_fuse_loop(2)[of "[]" p ss "[]"]
    by (simp add: rrf_fuse_def keys_winner_loop keys_set_best case_prod_unfold Let_def)
qed

text \<open>The largest value wins, the first one among equals.\<close>

lemma fold_best_upd:
  assumes "ss \<noteq> []"
  obtains s where "s \<in> set ss" "fold (best_upd val) ss None = Some (val s, sd_channel s)"
    "\<forall>t \<in> set ss. \<not> val s < val t"
proof -
  have gen: "\<exists>s \<in> set (s0 # ss). fold (best_upd val) ss (Some (val s0, sd_channel s0)) =
      Some (val s, sd_channel s) \<and> (\<forall>t \<in> set (s0 # ss). \<not> val s < val t) \<and>
      (val s = val s0 \<or> val s0 < val s)" for s0 ss
  proof (induction ss arbitrary: s0)
    case (Cons t ss)
    show ?case
    proof (cases "val s0 < val t")
      case True
      then have step: "best_upd val t (Some (val s0, sd_channel s0)) = Some (val t, sd_channel t)"
        by (simp add: best_upd_def keep_larger_def)
      obtain s where s: "s \<in> set (t # ss)" "\<forall>u \<in> set (t # ss). \<not> val s < val u"
        "fold (best_upd val) ss (Some (val t, sd_channel t)) = Some (val s, sd_channel s)"
        "val s = val t \<or> val t < val s"
        using Cons.IH[of t] by blast
      have lt: "val s0 < val s" using s(4) True f32_less_trans[of "val s0" "val t" "val s"] by metis
      then have "\<not> val s < val s0" using f32_less_trans[of "val s0" "val s" "val s0"] f32_less_irrefl by metis
      then show ?thesis using s(1-3) step lt by (intro bexI[of _ s]) simp_all
    next
      case False
      then have step: "best_upd val t (Some (val s0, sd_channel s0)) = Some (val s0, sd_channel s0)"
        by (simp add: best_upd_def keep_larger_def)
      obtain s where s: "s \<in> set (s0 # ss)" "\<forall>u \<in> set (s0 # ss). \<not> val s < val u"
        "fold (best_upd val) ss (Some (val s0, sd_channel s0)) = Some (val s, sd_channel s)"
        "val s = val s0 \<or> val s0 < val s"
        using Cons.IH[of s0] by blast
      have "\<not> val s < val t" using s(4) False f32_less_trans[of "val s0" "val s" "val t"] by metis
      then show ?thesis using s step by (intro bexI[of _ s]) auto
    qed
  qed simp
  from assms obtain s0 ss' where "ss = s0 # ss'" by (cases ss) auto
  moreover have "best_upd val s0 None = Some (val s0, sd_channel s0)" by (simp add: best_upd_def)
  moreover obtain s where "s \<in> set (s0 # ss')" "\<forall>t \<in> set (s0 # ss'). \<not> val s < val t"
    "fold (best_upd val) ss' (Some (val s0, sd_channel s0)) = Some (val s, sd_channel s)"
    using gen[where ss=ss' and ?s0.0=s0] by blast
  ultimately show thesis using that[of s] by simp
qed

text \<open>The contributions of one memory, added up in the order of the seeds.\<close>

fun sum_contribs :: "f32 list \<Rightarrow> f32" where
  "sum_contribs [] = 0"
| "sum_contribs (c # cs) = fold (\<lambda>c v. v + c) cs c"

lemma fold_fused_upd:
  assumes "ss \<noteq> []"
  shows "\<exists>ch. fold (fused_upd p) ss None = Some (sum_contribs (map (rrf_contrib p) ss), ch)"
proof -
  have gen: "fold (fused_upd p) ss (Some (v, ch)) =
      Some (fold (\<lambda>c v. v + c) (map (rrf_contrib p) ss) v, ch)" for ss v ch
    by (induction ss arbitrary: v) (simp_all add: fused_upd_def)
  from assms obtain s0 ss' where "ss = s0 # ss'" by (cases ss) auto
  moreover have "fused_upd p s0 None = Some (rrf_contrib p s0, sd_channel s0)" by (simp add: fused_upd_def)
  ultimately show ?thesis by (simp add: gen)
qed

lemma map_of_set_best:
  "map_of (set_best_channel b f) i =
     map_option (\<lambda>(v, ch). (v, case map_of b i of Some (_, c) \<Rightarrow> c | None \<Rightarrow> ch)) (map_of f i)"
  by (induction f) (auto simp: set_best_channel_def)

section \<open>Properties\<close>

text \<open>
  C10: recall over all channels. Every memory and channel occurs at most once among the seeds, and
  exactly the recalled ones occur; every seed carries a rank below the channel limit; and when no
  score is NaN the seeds are sorted by descending score, and within a channel a higher score has a
  smaller rank.
\<close>

theorem multi_channel_seeds_spec:
  assumes "list_all (\<lambda>s. sd_score s \<noteq> F32_NaN) (raw_seeds h limit)"
    and "ss = sr_seeds (multi_channel_seeds h limit)"
  shows "distinct (map (\<lambda>s. (sd_id s, sd_channel s)) ss) \<and>
    (\<lambda>s. (sd_id s, sd_channel s)) ` set ss = (\<lambda>s. (sd_id s, sd_channel s)) ` set (raw_seeds h limit) \<and>
    sorted_wrt (\<lambda>a b. sd_score b \<le> sd_score a) ss \<and>
    (\<forall>s \<in> set ss. \<exists>r < limit. sd_rank_in_channel s = Some r) \<and>
    (\<forall>s \<in> set ss. \<forall>t \<in> set ss. sd_channel s = sd_channel t \<and> sd_score t < sd_score s \<longrightarrow>
       the (sd_rank_in_channel s) < the (sd_rank_in_channel t))"
proof -
  let ?key = "\<lambda>s. (sd_id s, sd_channel s)"
  let ?ranked = "assign_ranks (raw_seeds h limit)"
  have ss: "ss = retain_first ?key {} (sort_by (cmp_f32_desc sd_score) ?ranked)"
    using assms(2) by (simp add: multi_channel_seeds_def)
  have sub: "s \<in> set ?ranked" if "s \<in> set ss" for s
    using subsetD[OF set_retain_first that[unfolded ss]] by simp
  have "map ?key ?ranked = map ?key (raw_seeds h limit)" by (rule assign_ranks_map) simp
  then have keys: "?key ` set ?ranked = ?key ` set (raw_seeds h limit)" by (metis list.set_map)
  have "map sd_score ?ranked = map sd_score (raw_seeds h limit)" by (rule assign_ranks_map) simp
  then have "sd_score ` set ?ranked = sd_score ` set (raw_seeds h limit)" by (metis list.set_map)
  then have nan: "list_all (\<lambda>s. sd_score s \<noteq> F32_NaN) ?ranked"
    using assms(1) unfolding list_all_iff by (metis imageE imageI)
  show ?thesis
  proof (intro conjI ballI impI)
    show "distinct (map ?key ss)" unfolding ss by (rule distinct_retain_first)
    show "?key ` set ss = ?key ` set (raw_seeds h limit)"
      unfolding ss keys_retain_first set_sort_by keys by simp
    show "sorted_wrt (\<lambda>a b. sd_score b \<le> sd_score a) ss"
      unfolding ss by (intro sorted_retain_first sorted_desc_by nan)
    show "\<exists>r < limit. sd_rank_in_channel s = Some r" if "s \<in> set ss" for s
      by (rule rank_bound[OF sub[OF that]])
    show "the (sd_rank_in_channel s) < the (sd_rank_in_channel t)"
      if "s \<in> set ss" "t \<in> set ss" "sd_channel s = sd_channel t \<and> sd_score t < sd_score s" for s t
      using that assms(1)
      by (intro rank_order[OF _ sub sub]) (simp_all add: list_all_iff)
  qed
qed

definition demo_hits :: channel_hits where
  "demo_hits = \<lparr>entity_hits = [(MemoryId 1, F32 1), (MemoryId 2, F32 0)], temporal_hits = [(MemoryId 1, True)],
     semantic_hits = [], topic_hits = [], bm25_hits = [(MemoryId 1, F32 1)], binary_hits = [],
     goal_hits = [], event_hits = [], causal_hits = [], recent_hits = []\<rparr>"

theorem multi_channel_seeds_spec_witness:
  "distinct (map (\<lambda>s. (sd_id s, sd_channel s)) (sr_seeds (multi_channel_seeds demo_hits 5)))"
proof -
  have "list_all (\<lambda>s. sd_score s \<noteq> F32_NaN) (raw_seeds demo_hits 5)"
    by (simp add: raw_seeds_def demo_hits_def score_seeds_def overlap_seeds_def temporal_seeds_def new_seed_def)
  from multi_channel_seeds_spec[OF this refl] show ?thesis by blast
qed

text \<open>
  C11: reciprocal rank fusion. The fused table has one entry for every seeded memory. With a positive
  constant \<open>k\<close> the score of a memory is the sum of its contributions in the order of the seeds and
  its channel is one of its seeds' with the largest contribution; with \<open>k \<le> 0\<close> the largest raw
  score and its channel win.
\<close>

theorem rrf_fuse_spec:
  "distinct (map fst (rrf_fuse ss p)) \<and> fst ` set (rrf_fuse ss p) = sd_id ` set ss \<and>
   (\<forall>i v ch. map_of (rrf_fuse ss p) i = Some (v, ch) \<longrightarrow>
     (\<exists>s \<in> set ss. sd_id s = i \<and> sd_channel s = ch \<and>
       (if rrf_k p \<le> 0
        then v = sd_score s \<and> (\<forall>t \<in> set ss. sd_id t = i \<longrightarrow> \<not> sd_score s < sd_score t)
        else v = sum_contribs (map (rrf_contrib p) (filter (\<lambda>t. sd_id t = i) ss)) \<and>
             (\<forall>t \<in> set ss. sd_id t = i \<longrightarrow> \<not> rrf_contrib p s < rrf_contrib p t))))"
proof (intro conjI allI impI)
  show "distinct (map fst (rrf_fuse ss p))" by (rule keys_rrf_fuse)
  show "fst ` set (rrf_fuse ss p) = sd_id ` set ss" by (rule keys_rrf_fuse)
  fix i v ch
  assume m: "map_of (rrf_fuse ss p) i = Some (v, ch)"
  let ?ts = "filter (\<lambda>t. sd_id t = i) ss"
  have "i \<in> sd_id ` set ss" using keys_rrf_fuse(1)[of ss p] map_of_SomeD[OF m] by force
  then have ne: "?ts \<noteq> []" by (auto simp: filter_empty_conv)
  show "\<exists>s \<in> set ss. sd_id s = i \<and> sd_channel s = ch \<and>
       (if rrf_k p \<le> 0
        then v = sd_score s \<and> (\<forall>t \<in> set ss. sd_id t = i \<longrightarrow> \<not> sd_score s < sd_score t)
        else v = sum_contribs (map (rrf_contrib p) ?ts) \<and>
             (\<forall>t \<in> set ss. sd_id t = i \<longrightarrow> \<not> rrf_contrib p s < rrf_contrib p t))"
  proof (cases "rrf_k p \<le> 0")
    case True
    obtain s where s: "s \<in> set ?ts" "fold (best_upd sd_score) ?ts None = Some (sd_score s, sd_channel s)"
      "\<forall>t \<in> set ?ts. \<not> sd_score s < sd_score t" using fold_best_upd[OF ne] by blast
    then show ?thesis using m True by (auto simp: rrf_fuse_def map_of_winner_loop)
  next
    case False
    obtain s where s: "s \<in> set ?ts"
      "fold (best_upd (rrf_contrib p)) ?ts None = Some (rrf_contrib p s, sd_channel s)"
      "\<forall>t \<in> set ?ts. \<not> rrf_contrib p s < rrf_contrib p t" using fold_best_upd[OF ne] by blast
    obtain c where "fold (fused_upd p) ?ts None = Some (sum_contribs (map (rrf_contrib p) ?ts), c)"
      using fold_fused_upd[OF ne] by blast
    then show ?thesis
      using m False s by (auto simp: rrf_fuse_def map_of_set_best map_of_fuse_loop case_prod_unfold Let_def)
  qed
qed

theorem rrf_fuse_spec_witness:
  "fst ` set (rrf_fuse [new_seed RC_Bm25 (MemoryId 1) 1, new_seed RC_Goal (MemoryId 2) 1] algo_params_default)
     = {MemoryId 1, MemoryId 2}"
  using rrf_fuse_spec[of "[new_seed RC_Bm25 (MemoryId 1) 1, new_seed RC_Goal (MemoryId 2) 1]" algo_params_default]
  by (simp add: new_seed_def)

end
