(* ===== verification/Retrieval_Spreading.thy ===== *)
theory Retrieval_Spreading
  imports Retrieval_Seeds
begin

text \<open>
  Spreading activation (\<open>hippmem-retrieval/src/spreading.rs\<close>): seeds get an energy from their fused
  score, energy travels along the strongest edges of a node, paths that meet in one round are
  merged, and a node is expanded once. The hash maps that the code iterates over (the fused scores
  and the energies of a round) are association lists; those it only looks up are maps. The loop
  over the hops recurses over the number of remaining hops and stops at an empty frontier.
  The inductive relation \<open>activation_path\<close> says which traces are paths of the graph.
\<close>

section \<open>Seeds and edges\<close>

definition max_fused :: "fused_scores \<Rightarrow> f32" where
  "max_fused fused = fold (\<lambda>(_, s, _) m. f32_max m s) fused 0"

definition cmp_seed_item ::
    "memory_id \<times> f32 \<times> recall_channel \<Rightarrow> memory_id \<times> f32 \<times> recall_channel \<Rightarrow> ordering" where
  "cmp_seed_item a b =
     then_cmp (f32_partial_cmp_or_eq (fst (snd b)) (fst (snd a))) (cmp_lin (fst a) (fst b))"

definition seed_items :: "fused_scores \<Rightarrow> fused_scores" where
  "seed_items fused = sort_by cmp_seed_item fused"

definition seed_energy ::
    "algo_params \<Rightarrow> (memory_id \<Rightarrow> f32 option) \<Rightarrow> f32 \<Rightarrow> memory_id \<Rightarrow> f32 \<Rightarrow> f32" where
  "seed_energy p importance mx i fused_score =
     (let imp = (case importance i of Some v \<Rightarrow> v | None \<Rightarrow> 0);
          norm_score = (if 0 < mx then fused_score / mx else 0)
      in f32_min (norm_score * a_query_match p * (1 + imp * c_importance p)) (seed_energy_cap p))"

definition seed_step :: "memory_id \<Rightarrow> recall_channel \<Rightarrow> f32 \<Rightarrow> activation_step" where
  "seed_step i ch e =
     \<lparr>step_from = None, step_to = i, step_via_link = None, step_channel = Some ch, step_hop = 0,
      step_energy_in = e, step_energy_out = e\<rparr>"

definition hop_step :: "memory_id \<Rightarrow> association_link \<Rightarrow> u32 \<Rightarrow> f32 \<Rightarrow> activation_step" where
  "hop_step i l hop e =
     \<lparr>step_from = Some i, step_to = target_id l, step_via_link = Some (link_type l),
      step_channel = None, step_hop = ucast hop, step_energy_in = e, step_energy_out = e\<rparr>"

definition link_weight :: "association_link \<Rightarrow> f32" where
  "link_weight l = link_strength l * score_value (confidence l)"

definition top_links :: "algo_params \<Rightarrow> association_link list \<Rightarrow> association_link list" where
  "top_links p ls = take (unat (fan_out_default p)) (sort_by (cmp_f32_desc link_weight) ls)"

section \<open>One hop\<close>

type_synonym links_map = "memory_id \<Rightarrow> association_link list option"

fun one_hop_neighbours ::
    "algo_params \<Rightarrow> memory_id \<times> f32 \<times> recall_channel \<Rightarrow> association_link list
      \<Rightarrow> memory_id set \<times> activated list \<Rightarrow> memory_id set \<times> activated list" where
  "one_hop_neighbours p sd [] st = st"
| "one_hop_neighbours p (i, e, ch) (l # ls) (seen, results) =
     (let ne = propagated_energy e l 1 p in
      if ne < min_propagation_energy p then one_hop_neighbours p (i, e, ch) ls (seen, results)
      else if target_id l \<in> seen then one_hop_neighbours p (i, e, ch) ls (seen, results)
      else one_hop_neighbours p (i, e, ch) ls
             (insert (target_id l) seen,
              results @ [(target_id l, ne, [seed_step i ch e, hop_step i l 1 ne])]))"

fun one_hop_seeds ::
    "algo_params \<Rightarrow> links_map \<Rightarrow> (memory_id \<times> f32 \<times> recall_channel) list
      \<Rightarrow> memory_id set \<times> activated list \<Rightarrow> memory_id set \<times> activated list" where
  "one_hop_seeds p lm [] st = st"
| "one_hop_seeds p lm ((i, e, ch) # sds) (seen, results) =
     (let st = (if i \<in> seen then (seen, results)
                else (insert i seen, results @ [(i, e, [seed_step i ch e])]));
          st' = (case lm i of None \<Rightarrow> st
                 | Some ls \<Rightarrow> one_hop_neighbours p (i, e, ch) (top_links p ls) st)
      in one_hop_seeds p lm sds st')"

definition spread_one_hop_fused ::
    "fused_scores \<Rightarrow> links_map \<Rightarrow> algo_params \<Rightarrow> (memory_id \<Rightarrow> f32 option) \<Rightarrow> activated list" where
  "spread_one_hop_fused fused lm p importance =
     (let mx = max_fused fused;
          energies = filter (\<lambda>(_, e, _). min_propagation_energy p \<le> e)
            (map (\<lambda>(i, s, ch). (i, seed_energy p importance mx i s, ch)) (seed_items fused));
          sorted_energies = sort_by (cmp_f32_desc (\<lambda>(_, e, _). e)) energies;
          results = snd (one_hop_seeds p lm sorted_energies ({}, []))
      in sort_by (cmp_f32_desc (\<lambda>(_, e, _). e)) results)"

section \<open>Many hops\<close>

record spread_state =
  expanded :: "memory_id set"
  energy_map :: "memory_id \<Rightarrow> f32 option"
  sp_results :: "activated list"
  trace_map :: "memory_id \<Rightarrow> activation_step list option"
  frontier :: "(memory_id \<times> f32) list"
  merged_count :: usize

definition reach_node :: "memory_id \<Rightarrow> f32 \<Rightarrow> activation_step list \<Rightarrow> spread_state \<Rightarrow> spread_state" where
  "reach_node i e tr st =
     (if i \<in> expanded st then st
      else st\<lparr>expanded := insert i (expanded st), energy_map := (energy_map st)(i \<mapsto> e),
             sp_results := sp_results st @ [(i, e, tr)], trace_map := (trace_map st)(i \<mapsto> tr),
             frontier := frontier st @ [(i, e)]\<rparr>)"

definition init_seed ::
    "algo_params \<Rightarrow> (memory_id \<Rightarrow> f32 option) \<Rightarrow> f32 \<Rightarrow> memory_id \<times> f32 \<times> recall_channel
      \<Rightarrow> spread_state \<Rightarrow> spread_state" where
  "init_seed p importance mx sd st =
     (case sd of (i, s, ch) \<Rightarrow>
        let e = seed_energy p importance mx i s in
        if e < min_propagation_energy p then st else reach_node i e [seed_step i ch e] st)"

definition empty_spread :: spread_state where
  "empty_spread = \<lparr>expanded = {}, energy_map = (\<lambda>_. None), sp_results = [],
     trace_map = (\<lambda>_. None), frontier = [], merged_count = 0\<rparr>"

definition init_spread ::
    "algo_params \<Rightarrow> (memory_id \<Rightarrow> f32 option) \<Rightarrow> fused_scores \<Rightarrow> spread_state" where
  "init_spread p importance fused =
     fold (init_seed p importance (max_fused fused)) (seed_items fused) empty_spread"

record round_state =
  round_energy :: "(memory_id \<times> f32) list"
  round_traces :: "memory_id \<Rightarrow> activation_step list option"
  round_merges :: usize

definition visit_link ::
    "algo_params \<Rightarrow> u32 \<Rightarrow> spread_state \<Rightarrow> memory_id \<Rightarrow> f32 \<Rightarrow> association_link
      \<Rightarrow> round_state \<Rightarrow> round_state" where
  "visit_link p hop st i e l r =
     (if target_id l \<in> expanded st then r
      else let propagated = propagated_energy e l hop p in
        if propagated < min_propagation_energy p then r
        else let t = target_id l;
                 known = map_of (round_energy r) t;
                 merged = (case known of Some existing \<Rightarrow> merge_energy existing propagated p
                           | None \<Rightarrow> propagated);
                 source_trace = (case trace_map st i of Some tr \<Rightarrow> tr | None \<Rightarrow> []);
                 new_trace = source_trace @ [hop_step i l hop propagated];
                 traces' = (case round_traces r t of
                     Some old \<Rightarrow> if f32_eq merged propagated then (round_traces r)(t \<mapsto> new_trace)
                                 else round_traces r
                   | None \<Rightarrow> (round_traces r)(t \<mapsto> new_trace))
             in \<lparr>round_energy = entry_upsert t (\<lambda>_. merged) merged (round_energy r),
                 round_traces = traces',
                 round_merges = (if known = None then round_merges r else round_merges r + 1)\<rparr>)"

definition visit_node ::
    "algo_params \<Rightarrow> links_map \<Rightarrow> u32 \<Rightarrow> spread_state \<Rightarrow> memory_id \<times> f32 \<Rightarrow> round_state \<Rightarrow> round_state" where
  "visit_node p lm hop st node r =
     (case node of (i, e) \<Rightarrow>
        (case lm i of None \<Rightarrow> r
         | Some ls \<Rightarrow> fold (visit_link p hop st i e) (top_links p ls) r))"

definition finish_round :: "round_state \<Rightarrow> spread_state \<Rightarrow> spread_state" where
  "finish_round r st =
     fold (\<lambda>(t, e). reach_node t e (case round_traces r t of Some tr \<Rightarrow> tr | None \<Rightarrow> []))
       (sort_by cmp_f32_desc_id (round_energy r))
       (st\<lparr>frontier := [], merged_count := merged_count st + round_merges r\<rparr>)"

definition spread_round :: "algo_params \<Rightarrow> links_map \<Rightarrow> u32 \<Rightarrow> spread_state \<Rightarrow> spread_state" where
  "spread_round p lm hop st =
     finish_round (fold (visit_node p lm hop st) (frontier st)
       \<lparr>round_energy = [], round_traces = (\<lambda>_. None), round_merges = 0\<rparr>) st"

fun spread_rounds :: "algo_params \<Rightarrow> links_map \<Rightarrow> nat \<Rightarrow> u32 \<Rightarrow> spread_state \<Rightarrow> spread_state" where
  "spread_rounds p lm 0 hop st = st"
| "spread_rounds p lm (Suc n) hop st =
     (if frontier st = [] then st
      else spread_rounds p lm n (hop + 1) (spread_round p lm hop st))"

definition spread_multi_hop_fused ::
    "fused_scores \<Rightarrow> links_map \<Rightarrow> algo_params \<Rightarrow> (memory_id \<Rightarrow> f32 option) \<Rightarrow> u32 option
      \<Rightarrow> activated list \<times> usize" where
  "spread_multi_hop_fused fused lm p importance max_hops_override =
     (let max_hops = (case max_hops_override of Some h \<Rightarrow> h | None \<Rightarrow> max_hops_default p);
          st = spread_rounds p lm (unat max_hops) 1 (init_spread p importance fused)
      in (sort_by (cmp_f32_desc (\<lambda>(_, e, _). e)) (sp_results st), merged_count st))"

text \<open>
  The wrappers that take seeds. Without ranks, a later seed of a memory replaces an earlier one in
  the collected \<open>HashMap\<close>.
\<close>

definition fused_of_seeds :: "seed list \<Rightarrow> algo_params \<Rightarrow> fused_scores" where
  "fused_of_seeds ss p =
     (if list_ex (\<lambda>s. sd_rank_in_channel s \<noteq> None) ss then rrf_fuse ss p
      else fold (\<lambda>s. entry_upsert (sd_id s) (\<lambda>_. (sd_score s, sd_channel s)) (sd_score s, sd_channel s))
             ss [])"

definition spread_multi_hop ::
    "seed list \<Rightarrow> links_map \<Rightarrow> algo_params \<Rightarrow> (memory_id \<Rightarrow> f32 option) \<Rightarrow> activated list" where
  "spread_multi_hop ss lm p importance =
     fst (spread_multi_hop_fused (fused_of_seeds ss p) lm p importance None)"

definition spread_one_hop ::
    "seed list \<Rightarrow> links_map \<Rightarrow> algo_params \<Rightarrow> (memory_id \<Rightarrow> f32 option) \<Rightarrow> activated list" where
  "spread_one_hop ss lm p importance = spread_one_hop_fused (fused_of_seeds ss p) lm p importance"

section \<open>Activation paths\<close>

inductive activation_path :: "links_map \<Rightarrow> activation_step list \<Rightarrow> memory_id \<Rightarrow> nat \<Rightarrow> bool"
  for lm :: links_map where
  seed: "activation_path lm [seed_step i ch e] i 0"
| hop: "activation_path lm tr i n \<Longrightarrow> lm i = Some ls \<Longrightarrow> l \<in> set ls \<Longrightarrow>
    activation_path lm (tr @ [hop_step i l (of_nat (Suc n)) e]) (target_id l) (Suc n)"

declare activation_path.intros [intro]

inductive_cases activation_path_SucE: "activation_path lm tr i (Suc n)"

lemma activation_path_length: "activation_path lm tr i n \<Longrightarrow> length tr = Suc n"
  by (induction rule: activation_path.induct) simp_all

lemma activation_path_ends:
  "activation_path lm tr i n \<Longrightarrow>
     tr \<noteq> [] \<and> step_to (last tr) = i \<and> step_from (hd tr) = None \<and> step_hop (hd tr) = 0"
  by (induction rule: activation_path.induct) (auto simp: seed_step_def hop_step_def)

lemma activation_path_chain:
  "activation_path lm tr i n \<Longrightarrow> Suc k < length tr \<Longrightarrow>
     step_from (tr ! Suc k) = Some (step_to (tr ! k))"
proof (induction arbitrary: k rule: activation_path.induct)
  case (hop tr i n ls l e)
  have tr: "length tr = Suc n" "step_to (last tr) = i"
    using activation_path_length[OF hop(1)] activation_path_ends[OF hop(1)] by auto
  show ?case
  proof (cases "Suc k < length tr")
    case True
    then show ?thesis using hop.IH by (simp add: nth_append)
  next
    case False
    then have "k = n" using hop.prems tr by simp
    moreover have "tr ! n = last tr"
      using tr(1) by (metis diff_Suc_1 last_conv_nth length_0_conv nat.distinct(1))
    ultimately show ?thesis using tr by (simp add: nth_append hop_step_def)
  qed
qed simp

section \<open>Energies of a spread\<close>

lemma f32_mult_commute: "x * y = y * (x :: f32)"
  by (cases x; cases y) (simp_all add: times_f32_def mult.commute)

definition energy_ok :: "algo_params \<Rightarrow> f32 \<Rightarrow> bool" where
  "energy_ok p e \<longleftrightarrow> bounded_energy e \<and> min_propagation_energy p \<le> e"

definition fused_ok :: "fused_scores \<Rightarrow> bool" where
  "fused_ok fused \<longleftrightarrow> list_all (\<lambda>(_, s, _). f32_valid s \<and> F32 0 \<le> s \<and> s < F32_Inf) fused"

definition importance_ok :: "(memory_id \<Rightarrow> f32 option) \<Rightarrow> bool" where
  "importance_ok importance \<longleftrightarrow> (\<forall>i v. importance i = Some v \<longrightarrow> unit_f32 v)"

definition links_map_ok :: "links_map \<Rightarrow> bool" where
  "links_map_ok lm \<longleftrightarrow> (\<forall>i ls. lm i = Some ls \<longrightarrow> links_wf ls)"

lemma not_less_min:
  assumes "energy_params_ok p" "bounded_energy e" "\<not> e < min_propagation_energy p"
  shows "energy_ok p e"
proof -
  have "min_propagation_energy p \<noteq> F32_NaN"
    using assms(1) by (auto simp: energy_params_ok_def elim: unit_f32E)
  moreover have "e \<noteq> F32_NaN" using assms(2) by (auto elim: bounded_energyE)
  ultimately show ?thesis using assms f32_not_less by (simp add: energy_ok_def)
qed

lemma max_fused_bounds:
  assumes "fused_ok fused"
  obtains m where "max_fused fused = F32 m" "f32_valid (F32 m)" "0 \<le> m"
    "\<forall>(i, s, ch) \<in> set fused. s \<le> F32 m"
proof -
  have "\<exists>m. fold (\<lambda>(_, s, _) m. f32_max m s) fused (F32 a) = F32 m \<and> f32_valid (F32 m) \<and> a \<le> m \<and>
      (\<forall>(i, s, ch) \<in> set fused. s \<le> F32 m)" if "f32_valid (F32 a)" "0 \<le> a" for a
    using assms that
  proof (induction fused arbitrary: a)
    case (Cons x fused)
    obtain i s ch where x: "x = (i, s, ch)" by (cases x)
    obtain b where b: "s = F32 b" "0 \<le> b" "f32_valid (F32 b)"
      using Cons.prems(1) by (cases s) (auto simp: fused_ok_def x)
    have mx: "f32_max (F32 a) s = F32 (max a b)" by (simp add: b f32_max_def max_def)
    have v: "f32_valid (F32 (max a b))" using b Cons.prems(2) by (auto simp: max_def)
    obtain m where m: "fold (\<lambda>(_, s, _) m. f32_max m s) fused (F32 (max a b)) = F32 m" "f32_valid (F32 m)"
        "max a b \<le> m" "\<forall>(i, s, ch) \<in> set fused. s \<le> F32 m"
    proof -
      have "fused_ok fused" "0 \<le> max a b" using Cons.prems by (simp_all add: fused_ok_def)
      from Cons.IH[OF this(1) v this(2)] show thesis using that by blast
    qed
    then show ?case using mx[unfolded b(1)] by (auto simp: x b)
  qed auto
  from this[of 0] show thesis using that by (auto simp: max_fused_def)
qed

lemma seed_energy_bounded:
  assumes "energy_params_ok p" "fused_ok fused" "importance_ok importance" "(i, s, ch) \<in> set fused"
  shows "bounded_energy (seed_energy p importance (max_fused fused) i s)"
proof -
  obtain m where m: "max_fused fused = F32 m" "f32_valid (F32 m)" "0 \<le> m" "\<forall>(i, s, ch) \<in> set fused. s \<le> F32 m"
    using max_fused_bounds[OF assms(2)] .
  obtain b where b: "s = F32 b" "0 \<le> b" "b \<le> m"
  proof -
    have "F32 0 \<le> s \<and> s < F32_Inf" "s \<le> F32 m"
      using assms(2,4) m(4) unfolding fused_ok_def list_all_iff by blast+
    then show thesis using that by (cases s) auto
  qed
  define norm where "norm = (if 0 < max_fused fused then s / max_fused fused else 0)"
  have "unit_f32 norm"
    using b m by (auto simp: norm_def f32_div_simp divide_le_eq intro!: unit_f32_of_rat)
  then have na: "unit_f32 (norm * a_query_match p)"
    using assms(1) by (intro unit_f32_mult) (simp_all add: energy_params_ok_def)
  define imp where "imp = (case importance i of Some v \<Rightarrow> v | None \<Rightarrow> 0)"
  have "unit_f32 imp" using assms(3) by (auto simp: imp_def importance_ok_def split: option.split)
  then have "unit_f32 (imp * c_importance p)"
    using assms(1) by (intro unit_f32_mult) (simp_all add: energy_params_ok_def)
  then have "bounded_energy (1 + imp * c_importance p)"
    using bounded_energy_add_unit(1)[OF bounded_energy_unit[OF unit_f32_01(2)]] by simp
  from bounded_energy_mult_unit(1)[OF this na]
  have "bounded_energy (norm * a_query_match p * (1 + imp * c_importance p))"
    by (metis f32_mult_commute)
  moreover have "bounded_energy (seed_energy_cap p)"
    using assms(1) by (intro bounded_energy_unit) (simp add: energy_params_ok_def)
  ultimately show ?thesis
    unfolding seed_energy_def Let_def norm_def[symmetric] imp_def[symmetric]
    using f32_min_cases by metis
qed

section \<open>The invariant of the traversal\<close>

text \<open>
  After \<open>n\<close> rounds: results and expanded nodes agree and are distinct; each result carries the trace
  of a path of at most \<open>n\<close> hops and an energy in range; the frontier holds the nodes at depth \<open>n\<close>.
\<close>

definition spread_inv :: "algo_params \<Rightarrow> links_map \<Rightarrow> nat \<Rightarrow> spread_state \<Rightarrow> bool" where
  "spread_inv p lm n st \<longleftrightarrow>
     distinct (map fst (sp_results st)) \<and> fst ` set (sp_results st) = expanded st \<and>
     (\<forall>(i, e, tr) \<in> set (sp_results st).
        energy_ok p e \<and> (\<exists>k \<le> n. activation_path lm tr i k)) \<and>
     fst ` set (frontier st) \<subseteq> expanded st \<and>
     (\<forall>(i, e) \<in> set (frontier st).
        energy_ok p e \<and> (\<exists>tr. trace_map st i = Some tr \<and> activation_path lm tr i n))"

lemma spread_inv_empty: "spread_inv p lm 0 empty_spread"
  by (simp add: spread_inv_def empty_spread_def)

lemma reach_node_inv:
  assumes "spread_inv p lm n st" "energy_ok p e" "activation_path lm tr i n"
  shows "spread_inv p lm n (reach_node i e tr st)"
proof (cases "i \<in> expanded st")
  case False
  then show ?thesis
    using assms unfolding spread_inv_def reach_node_def
    by (auto simp: image_iff)
qed (use assms in \<open>simp add: reach_node_def\<close>)

lemma init_seed_inv:
  assumes "energy_params_ok p" "fused_ok fused" "importance_ok importance" "sd \<in> set fused"
    and "spread_inv p lm 0 st"
  shows "spread_inv p lm 0 (init_seed p importance (max_fused fused) sd st)"
proof -
  obtain i s ch where sd: "sd = (i, s, ch)" by (cases sd)
  let ?e = "seed_energy p importance (max_fused fused) i s"
  have b: "bounded_energy ?e" using seed_energy_bounded assms(1-4) unfolding sd by blast
  show ?thesis
  proof (cases "?e < min_propagation_energy p")
    case False
    then show ?thesis
      using reach_node_inv[OF assms(5) not_less_min[OF assms(1) b False] activation_path.seed]
      by (simp add: init_seed_def sd Let_def)
  qed (use assms(5) in \<open>simp add: init_seed_def sd\<close>)
qed

lemma init_spread_inv:
  assumes "energy_params_ok p" "fused_ok fused" "importance_ok importance"
  shows "spread_inv p lm 0 (init_spread p importance fused)"
proof -
  have "spread_inv p lm 0 (fold (init_seed p importance (max_fused fused)) sds st)"
    if "set sds \<subseteq> set fused" "spread_inv p lm 0 st" for sds st
    using that by (induction sds arbitrary: st) (simp_all add: init_seed_inv[OF assms])
  then show ?thesis by (simp add: init_spread_def seed_items_def spread_inv_empty)
qed

text \<open>The invariant of one round.\<close>

definition round_inv :: "algo_params \<Rightarrow> links_map \<Rightarrow> nat \<Rightarrow> round_state \<Rightarrow> bool" where
  "round_inv p lm n r \<longleftrightarrow>
     (\<forall>t tr. round_traces r t = Some tr \<longrightarrow> activation_path lm tr t n) \<and>
     (\<forall>t e. (t, e) \<in> set (round_energy r) \<longrightarrow> energy_ok p e \<and> round_traces r t \<noteq> None)"

lemma set_entry_upsert_const:
  "set (entry_upsert k (\<lambda>_. v) v m) \<subseteq> insert (k, v) (set m)"
  by (induction m) (auto split: if_splits)

lemma visit_link_inv:
  assumes p: "energy_params_ok p" and hop: "hop = of_nat (Suc n)" "0 \<le> sint hop"
    and e: "energy_ok p e" and l: "link_wf l" "lm i = Some ls" "l \<in> set ls"
    and tr: "trace_map st i = Some tr" "activation_path lm tr i n"
    and r: "round_inv p lm (Suc n) r"
  shows "round_inv p lm (Suc n) (visit_link p hop st i e l r)"
proof -
  define pe where "pe = propagated_energy e l hop p"
  have u: "unit_f32 pe"
    unfolding pe_def using p e l(1) hop(2)
    by (intro propagated_energy_unit) (simp_all add: energy_ok_def energy_params_ok_def)
  have w: "unit_f32 (merge_secondary_weight p)" using p by (simp add: energy_params_ok_def)
  let ?new = "tr @ [hop_step i l hop pe]"
  have path: "activation_path lm ?new (target_id l) (Suc n)"
    unfolding hop(1) using tr(2) l(2,3) by (rule activation_path.hop)
  show ?thesis
  proof (cases "target_id l \<in> expanded st \<or> pe < min_propagation_energy p")
    case True
    then show ?thesis using r by (auto simp: visit_link_def pe_def Let_def)
  next
    case False
    then have ok: "energy_ok p pe" using not_less_min[OF p bounded_energy_unit[OF u]] by blast
    define merged where "merged = (case map_of (round_energy r) (target_id l) of
        Some existing \<Rightarrow> merge_energy existing pe p | None \<Rightarrow> pe)"
    have mok: "energy_ok p merged"
    proof (cases "map_of (round_energy r) (target_id l)")
      case (Some x)
      then have "energy_ok p x" using r map_of_SomeD unfolding round_inv_def by fast
      then show ?thesis
        using merge_energy_bounded[OF _ u w, of x] f32_le_trans Some
        by (auto simp: energy_ok_def merged_def)
    qed (simp add: merged_def ok)
    let ?v = "visit_link p hop st i e l r"
    have en: "round_energy ?v = entry_upsert (target_id l) (\<lambda>_. merged) merged (round_energy r)"
      using False unfolding merged_def pe_def by (simp add: visit_link_def Let_def)
    have trs: "round_traces ?v = (round_traces r)(target_id l \<mapsto> ?new) \<or>
        round_traces ?v = round_traces r \<and> round_traces r (target_id l) \<noteq> None"
      using False tr(1) unfolding pe_def by (auto simp: visit_link_def Let_def split: option.splits)
    have "energy_ok p x \<and> round_traces ?v t \<noteq> None" if "(t, x) \<in> set (round_energy ?v)" for t x
    proof -
      have "(t, x) = (target_id l, merged) \<or> (t, x) \<in> set (round_energy r)"
        using that set_entry_upsert_const unfolding en by fast
      then show ?thesis using mok r trs by (auto simp: round_inv_def)
    qed
    moreover have "activation_path lm tr' t (Suc n)" if "round_traces ?v t = Some tr'" for t tr'
      using that trs path r by (auto simp: round_inv_def split: if_splits)
    ultimately show ?thesis unfolding round_inv_def by blast
  qed
qed

lemma set_top_links: "set (top_links p ls) \<subseteq> set ls"
  unfolding top_links_def using set_take_subset by fastforce

lemma visit_node_inv:
  assumes p: "energy_params_ok p" "links_map_ok lm" and hop: "hop = of_nat (Suc n)" "0 \<le> sint hop"
    and st: "spread_inv p lm n st" "node \<in> set (frontier st)" and r: "round_inv p lm (Suc n) r"
  shows "round_inv p lm (Suc n) (visit_node p lm hop st node r)"
proof -
  obtain i e where node: "node = (i, e)" by (cases node)
  obtain tr where tr: "energy_ok p e" "trace_map st i = Some tr" "activation_path lm tr i n"
    using st unfolding spread_inv_def node by blast
  show ?thesis
  proof (cases "lm i")
    case (Some ls)
    have "links_wf ls" using p(2) Some by (simp add: links_map_ok_def)
    then have wf: "\<forall>l \<in> set ls. link_wf l" by (simp add: links_wf_def list_all_iff)
    have "round_inv p lm (Suc n) (fold (visit_link p hop st i e) ks r)" if "set ks \<subseteq> set ls" for ks
      using that r
    proof (induction ks arbitrary: r)
      case (Cons k ks)
      then have "round_inv p lm (Suc n) (visit_link p hop st i e k r)"
        using wf by (intro visit_link_inv[OF p(1) hop tr(1) _ Some _ tr(2,3)]) auto
      then show ?case using Cons by simp
    qed simp
    then show ?thesis using set_top_links by (simp add: visit_node_def node Some)
  qed (simp add: visit_node_def node r)
qed

lemma spread_inv_results:
  assumes "spread_inv p lm n st" "(i, e, tr) \<in> set (sp_results st)"
  shows "energy_ok p e" and "\<exists>k \<le> n. activation_path lm tr i k"
proof -
  have "\<forall>(i, e, tr) \<in> set (sp_results st). energy_ok p e \<and> (\<exists>k \<le> n. activation_path lm tr i k)"
    using assms(1) unfolding spread_inv_def by (elim conjE)
  from bspec[OF this assms(2)]
  show "energy_ok p e" and "\<exists>k \<le> n. activation_path lm tr i k" by simp_all
qed

lemma spread_inv_next:
  assumes "spread_inv p lm n st"
  shows "spread_inv p lm (Suc n) (st\<lparr>frontier := [], merged_count := c\<rparr>)"
proof -
  have "energy_ok p e \<and> (\<exists>k \<le> Suc n. activation_path lm tr i k)"
    if "(i, e, tr) \<in> set (sp_results st)" for i e tr
    using spread_inv_results[OF assms that] le_SucI by blast
  then have "\<forall>(i, e, tr) \<in> set (sp_results st). energy_ok p e \<and> (\<exists>k \<le> Suc n. activation_path lm tr i k)"
    by blast
  moreover have "distinct (map fst (sp_results st))" "fst ` set (sp_results st) = expanded st"
    using assms unfolding spread_inv_def by blast+
  ultimately show ?thesis unfolding spread_inv_def by simp
qed

lemma reach_all_inv:
  assumes "round_inv p lm n r" "set items \<subseteq> set (round_energy r)" "spread_inv p lm n st"
  shows "spread_inv p lm n
    (fold (\<lambda>(t, e). reach_node t e (case round_traces r t of Some tr \<Rightarrow> tr | None \<Rightarrow> [])) items st)"
  using assms(2,3)
proof (induction items arbitrary: st)
  case (Cons x items)
  obtain t e where x: "x = (t, e)" by (cases x)
  then have "(t, e) \<in> set (round_energy r)" using Cons.prems(1) by simp
  then obtain tr where tr: "energy_ok p e" "round_traces r t = Some tr" "activation_path lm tr t n"
    using assms(1) unfolding round_inv_def by blast
  have "set items \<subseteq> set (round_energy r)" using Cons.prems(1) by simp
  from Cons.IH[OF this reach_node_inv[OF Cons.prems(2) tr(1,3)]]
  show ?case by (simp add: x tr(2))
qed simp

lemma finish_round_inv:
  assumes "spread_inv p lm n st" "round_inv p lm (Suc n) r"
  shows "spread_inv p lm (Suc n) (finish_round r st)"
  unfolding finish_round_def
  by (rule reach_all_inv[OF assms(2) _ spread_inv_next[OF assms(1)]]) simp

lemma spread_round_inv:
  assumes "energy_params_ok p" "links_map_ok lm" "hop = of_nat (Suc n)" "0 \<le> sint hop"
    and "spread_inv p lm n st"
  shows "spread_inv p lm (Suc n) (spread_round p lm hop st)"
proof -
  have "round_inv p lm (Suc n) (fold (visit_node p lm hop st) nodes r)"
    if "set nodes \<subseteq> set (frontier st)" "round_inv p lm (Suc n) r" for nodes r
    using that by (induction nodes arbitrary: r) (simp_all add: visit_node_inv[OF assms])
  moreover have "round_inv p lm (Suc n) \<lparr>round_energy = [], round_traces = (\<lambda>_. None), round_merges = 0\<rparr>"
    by (simp add: round_inv_def)
  ultimately show ?thesis
    unfolding spread_round_def by (intro finish_round_inv[OF assms(5)]) blast
qed

lemma sint_small_hop: "n < 2 ^ 31 \<Longrightarrow> 0 \<le> sint (of_nat n :: u32)"
proof -
  assume "n < 2 ^ 31"
  then have "\<not> bit n 31" by (simp add: bit_iff_odd)
  then have "\<not> bit (of_nat n :: u32) (LENGTH(32) - Suc 0)" by (simp add: bit_simps)
  then show ?thesis unfolding bit_last_iff by simp
qed

lemma spread_rounds_inv:
  assumes "energy_params_ok p" "links_map_ok lm"
  shows "spread_inv p lm m st \<Longrightarrow> m + n < 2 ^ 31 \<Longrightarrow>
    \<exists>k \<le> m + n. spread_inv p lm k (spread_rounds p lm n (of_nat (Suc m)) st)"
proof (induction n arbitrary: m st)
  case (Suc n)
  show ?case
  proof (cases "frontier st = []")
    case True
    then show ?thesis using Suc.prems by (intro exI[of _ m]) simp
  next
    case False
    have "0 \<le> sint (of_nat (Suc m) :: u32)" using Suc.prems(2) by (intro sint_small_hop) simp
    from spread_round_inv[OF assms refl this Suc.prems(1)]
    have "\<exists>k \<le> Suc m + n. spread_inv p lm k
        (spread_rounds p lm n (of_nat (Suc (Suc m))) (spread_round p lm (of_nat (Suc m)) st))"
      using Suc.prems(2) by (intro Suc.IH) simp_all
    moreover have "of_nat (Suc m) + 1 = (of_nat (Suc (Suc m)) :: u32)" by simp
    ultimately show ?thesis using False by (simp only: spread_rounds.simps if_False add_Suc add_Suc_right)
  qed
qed auto

section \<open>Seeds are never lost, order does not matter\<close>

lemma expanded_reach: "insert i (expanded st) = expanded (reach_node i e tr st)"
  by (auto simp: reach_node_def)

lemma expanded_reach_all:
  "expanded st \<subseteq> expanded (fold (\<lambda>(t, e). reach_node t e (f t)) items st)"
proof (induction items arbitrary: st)
  case (Cons x items)
  obtain t e where x: "x = (t, e)" by (cases x)
  have "expanded st \<subseteq> expanded (reach_node t e (f t) st)" using expanded_reach by blast
  then show ?case using Cons[of "reach_node t e (f t) st"] by (simp add: x)
qed simp

lemma expanded_spread_rounds: "expanded st \<subseteq> expanded (spread_rounds p lm n hop st)"
proof (induction n arbitrary: hop st)
  case (Suc n)
  have "expanded st \<subseteq> expanded (finish_round r st)" for r
    unfolding finish_round_def
    by (rule subset_trans[OF _ expanded_reach_all]) simp
  then have "expanded st \<subseteq> expanded (spread_round p lm hop st)" by (simp add: spread_round_def)
  then show ?case using Suc by (auto intro: subset_trans)
qed simp

lemma expanded_init:
  assumes "(i, s, ch) \<in> set fused"
    and "\<not> seed_energy p importance (max_fused fused) i s < min_propagation_energy p"
  shows "i \<in> expanded (init_spread p importance fused)"
proof -
  have mono: "expanded st \<subseteq> expanded (fold (init_seed p importance mx) sds st)" for mx sds st
  proof (induction sds arbitrary: st)
    case (Cons sd sds)
    have "expanded st \<subseteq> expanded (init_seed p importance mx sd st)"
      by (auto simp: init_seed_def Let_def expanded_reach[symmetric] split: prod.splits)
    then show ?case using Cons by (auto intro: subset_trans)
  qed simp
  have "i \<in> expanded (fold (init_seed p importance (max_fused fused)) sds st)"
    if "(i, s, ch) \<in> set sds" for sds st
    using that
  proof (induction sds arbitrary: st)
    case (Cons sd sds)
    show ?case
    proof (cases "sd = (i, s, ch)")
      case True
      then have "i \<in> expanded (init_seed p importance (max_fused fused) sd st)"
        using assms(2) by (simp add: init_seed_def Let_def expanded_reach[symmetric])
      then show ?thesis using mono by auto
    qed (use Cons in auto)
  qed simp
  then show ?thesis using assms(1) by (simp add: init_spread_def seed_items_def)
qed

lemma cmp_seed_item_pairs: "cmp_seed_item a b = cmp_f32_desc_id (fst a, fst (snd a)) (fst b, fst (snd b))"
  by (simp add: cmp_seed_item_def cmp_f32_desc_id_def)

lemma seed_items_total:
  assumes "distinct (map fst fused)" "\<forall>(i, s, ch) \<in> set fused. s \<noteq> F32_NaN"
  shows "cmp_total cmp_seed_item (\<lambda>x. x \<in> set fused)"
proof -
  have nan: "fst (snd x) \<noteq> F32_NaN" if "x \<in> set fused" for x
    using assms(2) that by (cases x) auto
  show ?thesis
  proof
    fix x y z
    assume x: "x \<in> set fused" and y: "y \<in> set fused"
    show "cmp_seed_item x y = OGreater \<Longrightarrow> cmp_seed_item y x \<noteq> OGreater"
      unfolding cmp_seed_item_pairs
      by (rule f32_desc_id.cmp_swap) (simp_all add: nan[OF x] nan[OF y])
    show "cmp_seed_item x y \<noteq> OGreater \<Longrightarrow> cmp_seed_item y x \<noteq> OGreater \<Longrightarrow> x = y"
    proof -
      assume "cmp_seed_item x y \<noteq> OGreater" "cmp_seed_item y x \<noteq> OGreater"
      then have "(fst x, fst (snd x)) = (fst y, fst (snd y))"
        unfolding cmp_seed_item_pairs
        by (intro f32_desc_id.cmp_equal) (simp_all add: nan[OF x] nan[OF y])
      then show "x = y" using assms(1) x y by (auto simp: distinct_map dest: inj_onD)
    qed
    assume z: "z \<in> set fused"
    show "cmp_seed_item x y \<noteq> OGreater \<Longrightarrow> cmp_seed_item y z \<noteq> OGreater \<Longrightarrow> cmp_seed_item x z \<noteq> OGreater"
      unfolding cmp_seed_item_pairs
      by (rule f32_desc_id.cmp_trans) (simp_all add: nan[OF x] nan[OF y] nan[OF z])
  qed
qed

lemma max_fused_perm: "mset fused' = mset fused \<Longrightarrow> max_fused fused' = max_fused fused"
  unfolding max_fused_def
  by (intro fold_permuted_eq[where P="\<lambda>_. True"])
     (auto simp: f32_max_left_commute f32_max_commute[of _ "_ :: f32"] split: prod.splits)

lemma activation_path_edges:
  "activation_path lm tr i n \<Longrightarrow> Suc k < length tr \<Longrightarrow>
     \<exists>ls l. lm (step_to (tr ! k)) = Some ls \<and> l \<in> set ls \<and>
       step_via_link (tr ! Suc k) = Some (link_type l) \<and> step_to (tr ! Suc k) = target_id l"
proof (induction arbitrary: k rule: activation_path.induct)
  case (hop tr i n ls l e)
  have tr: "length tr = Suc n" "step_to (last tr) = i"
    using activation_path_length[OF hop(1)] activation_path_ends[OF hop(1)] by auto
  show ?case
  proof (cases "Suc k < length tr")
    case True
    then show ?thesis using hop.IH by (simp add: nth_append)
  next
    case False
    then have "k = n" using hop.prems tr by simp
    moreover have "tr ! n = last tr"
      using tr(1) by (metis diff_Suc_1 last_conv_nth length_0_conv nat.distinct(1))
    ultimately show ?thesis using tr hop(2,3) by (auto simp: nth_append hop_step_def)
  qed
qed simp

definition hop_limit :: "algo_params \<Rightarrow> u32 option \<Rightarrow> nat" where
  "hop_limit p ov = unat (case ov of Some h \<Rightarrow> h | None \<Rightarrow> max_hops_default p)"

lemma spread_result_in:
  "(i, e, tr) \<in> set (fst (spread_multi_hop_fused fused lm p importance ov)) \<longleftrightarrow>
     (i, e, tr) \<in> set (sp_results (spread_rounds p lm (hop_limit p ov) 1 (init_spread p importance fused)))"
  by (simp add: spread_multi_hop_fused_def Let_def hop_limit_def)

definition spread_inputs_ok ::
    "fused_scores \<Rightarrow> links_map \<Rightarrow> algo_params \<Rightarrow> (memory_id \<Rightarrow> f32 option) \<Rightarrow> u32 option \<Rightarrow> bool" where
  "spread_inputs_ok fused lm p importance ov \<longleftrightarrow>
     energy_params_ok p \<and> fused_ok fused \<and> importance_ok importance \<and> links_map_ok lm \<and>
     hop_limit p ov < 2 ^ 31"

lemma spread_final_inv:
  assumes "spread_inputs_ok fused lm p importance ov"
  obtains k where "k \<le> hop_limit p ov"
    "spread_inv p lm k (spread_rounds p lm (hop_limit p ov) 1 (init_spread p importance fused))"
proof -
  have ok: "energy_params_ok p" "links_map_ok lm" "fused_ok fused" "importance_ok importance"
    "0 + hop_limit p ov < 2 ^ 31" using assms by (simp_all add: spread_inputs_ok_def)
  from spread_rounds_inv[OF ok(1,2) init_spread_inv[OF ok(1,3,4)] ok(5)]
  show thesis using that by auto
qed

section \<open>Properties\<close>

text \<open>
  C8: multi-hop spreading. On well-formed edges, finite non-negative fused scores and sane
  parameters the traversal returns every memory at most once, sorted by descending energy; every
  returned energy is a number at or above the propagation threshold; and every seed whose energy
  reaches the threshold is returned.
\<close>

theorem spread_multi_hop_spec:
  assumes "spread_inputs_ok fused lm p importance ov"
    and "spread_multi_hop_fused fused lm p importance ov = (results, merged)"
  shows "distinct (map fst results) \<and>
    sorted_wrt (\<lambda>(_, e, _) (_, e', _). e' \<le> e) results \<and>
    (\<forall>(i, e, tr) \<in> set results. bounded_energy e \<and> min_propagation_energy p \<le> e) \<and>
    (\<forall>(i, s, ch) \<in> set fused.
       \<not> seed_energy p importance (max_fused fused) i s < min_propagation_energy p \<longrightarrow>
       i \<in> fst ` set results)"
proof -
  let ?st = "spread_rounds p lm (hop_limit p ov) 1 (init_spread p importance fused)"
  obtain k where inv: "spread_inv p lm k ?st" using spread_final_inv[OF assms(1)] .
  have res: "results = sort_by (cmp_f32_desc (\<lambda>(_, e, _). e)) (sp_results ?st)"
    using assms(2) by (simp add: spread_multi_hop_fused_def Let_def hop_limit_def)
  have ok: "bounded_energy e \<and> min_propagation_energy p \<le> e" if "(i, e, tr) \<in> set results" for i e tr
    using spread_inv_results(1)[OF inv, of i e tr] that by (simp add: res energy_ok_def)
  have "list_all (\<lambda>x. (case x of (_, e, _) \<Rightarrow> e) \<noteq> F32_NaN) (sp_results ?st)"
    using ok by (fastforce simp: list_all_iff res elim!: bounded_energyE)
  from sorted_desc_by[OF this] have srt: "sorted_wrt (\<lambda>(_, e, _) (_, e', _). e' \<le> e) results"
    unfolding res[symmetric] by (rule sorted_wrt_mono_rel[rotated]) (auto split: prod.splits)
  have ids: "fst ` set results = expanded ?st" "distinct (map fst results)"
    using inv unfolding spread_inv_def res by simp_all
  have seeds: "i \<in> fst ` set results"
    if "(i, s, ch) \<in> set fused" "\<not> seed_energy p importance (max_fused fused) i s < min_propagation_energy p"
    for i s ch
    using expanded_init[OF that] expanded_spread_rounds unfolding ids(1) by blast
  show ?thesis using ids(2) srt ok seeds by blast
qed

definition demo_fused :: fused_scores where
  "demo_fused = [(MemoryId 1, F32 1, RC_Bm25)]"

definition demo_graph :: links_map where
  "demo_graph = [MemoryId 1 \<mapsto> [demo_link 2 LT_EntityOverlap 1], MemoryId 2 \<mapsto> [demo_link 1 LT_Causal 1]]"

lemma demo_spread_ok: "spread_inputs_ok demo_fused demo_graph algo_params_default (\<lambda>_. None) (Some 3)"
  using energy_params_ok_default
  by (auto simp: spread_inputs_ok_def demo_fused_def fused_ok_def importance_ok_def links_map_ok_def
      demo_graph_def links_wf_def demo_link_wf hop_limit_def split: if_splits)

theorem spread_multi_hop_spec_witness:
  "distinct (map fst (fst (spread_multi_hop_fused demo_fused demo_graph algo_params_default (\<lambda>_. None) (Some 3))))"
  using spread_multi_hop_spec[OF demo_spread_ok surjective_pairing] by blast

text \<open>
  C9: every returned memory is explained by its trace: the trace starts with a seed step of hop
  zero, each later step leaves the node where the previous one arrived and follows an edge that
  node has, the last step arrives at the memory, and the trace has at most the configured number
  of hops.
\<close>

theorem spread_trace_is_path:
  assumes "spread_inputs_ok fused lm p importance ov"
    and "(i, e, tr) \<in> set (fst (spread_multi_hop_fused fused lm p importance ov))"
  shows "tr \<noteq> [] \<and> length tr \<le> Suc (hop_limit p ov) \<and> step_from (hd tr) = None \<and>
    step_hop (hd tr) = 0 \<and> step_to (last tr) = i \<and>
    (\<forall>k. Suc k < length tr \<longrightarrow> step_from (tr ! Suc k) = Some (step_to (tr ! k)) \<and>
      (\<exists>ls l. lm (step_to (tr ! k)) = Some ls \<and> l \<in> set ls \<and>
         step_via_link (tr ! Suc k) = Some (link_type l) \<and> step_to (tr ! Suc k) = target_id l))"
proof -
  obtain m where m: "m \<le> hop_limit p ov"
    "spread_inv p lm m (spread_rounds p lm (hop_limit p ov) 1 (init_spread p importance fused))"
    using spread_final_inv[OF assms(1)] .
  obtain n where n: "n \<le> m" "activation_path lm tr i n"
    using spread_inv_results(2)[OF m(2)] assms(2) unfolding spread_result_in by blast
  show ?thesis
    using activation_path_length[OF n(2)] activation_path_ends[OF n(2)] m(1) n(1)
      activation_path_chain[OF n(2)] activation_path_edges[OF n(2)] by simp
qed

theorem spread_trace_is_path_witness:
  "list_all (\<lambda>(i, e, tr). tr \<noteq> [] \<and> step_to (last tr) = i)
     (fst (spread_multi_hop_fused demo_fused demo_graph algo_params_default (\<lambda>_. None) (Some 3)))"
  unfolding list_all_iff using spread_trace_is_path[OF demo_spread_ok] by blast

text \<open>
  The traversal is deterministic although its input is a hash map with a random iteration
  order: any permutation of the fused scores gives the same results and the same merge count.
\<close>

theorem spread_multi_hop_order_independent:
  assumes "distinct (map fst fused)" "list_all (\<lambda>(_, s, _). s \<noteq> F32_NaN) fused"
    and "mset fused' = mset fused"
  shows "spread_multi_hop_fused fused' lm p importance ov = spread_multi_hop_fused fused lm p importance ov"
proof -
  have "cmp_total cmp_seed_item (\<lambda>x. x \<in> set fused)"
    using assms(1,2) by (intro seed_items_total) (auto simp: list_all_iff)
  from cmp_total.sort_by_perm[OF this, of fused fused'] assms(3)
  have "seed_items fused' = seed_items fused" by (simp add: seed_items_def list_all_iff)
  then show ?thesis
    using max_fused_perm[OF assms(3)] by (simp add: spread_multi_hop_fused_def init_spread_def)
qed

theorem spread_multi_hop_order_independent_witness:
  "spread_multi_hop_fused [(MemoryId 2, F32 0, RC_Goal), (MemoryId 1, F32 1, RC_Bm25)] demo_graph
     algo_params_default (\<lambda>_. None) None =
   spread_multi_hop_fused [(MemoryId 1, F32 1, RC_Bm25), (MemoryId 2, F32 0, RC_Goal)] demo_graph
     algo_params_default (\<lambda>_. None) None"
  by (rule spread_multi_hop_order_independent) simp_all

lemma demo_propagated:
  "propagated_energy (F32 1) (demo_link 2 LT_EntityOverlap 1) 1 algo_params_default = F32 (9227469/33554432)"
  by code_simp

lemma demo_merged:
  "merge_energy (F32 (1/16)) (F32 (9227469/33554432)) algo_params_default = F32 (9856615/33554432)"
  by code_simp

text \<open>
  When a second, stronger path reaches a node in the same round, the energies are merged but the
  trace of the weaker first path is kept: the merged energy differs from the energy of the new
  path, and the code replaces the trace only when they are equal.
\<close>

theorem stronger_path_keeps_weaker_trace:
  "F32 (1/16) < propagated_energy (F32 1) (demo_link 2 LT_EntityOverlap 1) 1 algo_params_default \<and>
   round_traces (visit_link algo_params_default 1 empty_spread (MemoryId 1) (F32 1)
     (demo_link 2 LT_EntityOverlap 1)
     \<lparr>round_energy = [(MemoryId 2, F32 (1/16))], round_traces = [MemoryId 2 \<mapsto> old], round_merges = 0\<rparr>)
     (MemoryId 2) = Some old"
proof -
  have "min_propagation_energy algo_params_default = F32 (13421773/268435456)"
    unfolding algo_params_default_def algo_params.simps by code_simp
  moreover have "target_id (demo_link 2 LT_EntityOverlap 1) = MemoryId 2" by (simp add: demo_link_def)
  ultimately show ?thesis
    unfolding visit_link_def Let_def demo_propagated
    by (simp add: empty_spread_def demo_merged f32_eq_def)
qed

end
