(* ===== verification/Retrieval_Results.thy ===== *)
theory Retrieval_Results
  imports Retrieval_Spreading Core_Text
begin

text \<open>
  Presentation of results: reranking by energy, risk warnings and the explanation of a trace
  (\<open>hippmem-retrieval/src/rerank.rs\<close>, \<open>warnings.rs\<close>, \<open>explain.rs\<close>).
\<close>

section \<open>Reranking\<close>

type_synonym scored = "memory_id \<times> f32 \<times> activation_step list \<times> memory_unit"

definition rerank_by_energy :: "activated list \<Rightarrow> memory_unit list \<Rightarrow> scored list" where
  "rerank_by_energy act us =
     sort_by (cmp_f32_desc (\<lambda>(_, e, _, _). e))
       (List.map_filter (\<lambda>(i, e, tr). map_option (\<lambda>u. (i, e, tr, u)) (find_first (\<lambda>u. mem_id u = i) us)) act)"

section \<open>Warnings\<close>

fun link_warning :: "association_link \<Rightarrow> memory_warning option" where
  "link_warning l =
     (case link_type l of
        LT_Correction \<Rightarrow> Some (MW_HasCorrection (target_id l))
      | LT_Contradiction \<Rightarrow> Some (MW_HasContradiction (target_id l))
      | LT_Supersedes \<Rightarrow> Some (MW_Superseded (target_id l))
      | _ \<Rightarrow> None)"

definition check_warnings :: "memory_unit \<Rightarrow> f32 \<Rightarrow> memory_warning list" where
  "check_warnings u energy =
     (if energy < f32_of_rat (20/100) then [MW_LowConfidence] else []) @
     (if lifecycle u = LC_Deprecated then [MW_Deprecated] else []) @
     List.map_filter link_warning (links u) @
     (if energy < f32_of_rat (10/100) then [MW_StaleFreshness] else [])"

section \<open>Explanation\<close>

fun recall_channel_to_match_dimension :: "recall_channel \<Rightarrow> match_dimension option" where
  "recall_channel_to_match_dimension RC_EntityInverted = Some MD_Entity"
| "recall_channel_to_match_dimension RC_Bm25 = Some MD_Semantic"
| "recall_channel_to_match_dimension RC_SemanticDense = Some MD_Semantic"
| "recall_channel_to_match_dimension RC_SemanticBinary = Some MD_Semantic"
| "recall_channel_to_match_dimension RC_Temporal = Some MD_Temporal"
| "recall_channel_to_match_dimension RC_TopicCluster = Some MD_Topic"
| "recall_channel_to_match_dimension RC_Goal = Some MD_Goal"
| "recall_channel_to_match_dimension RC_Event = Some MD_Event"
| "recall_channel_to_match_dimension RC_Causal = Some MD_Causal"
| "recall_channel_to_match_dimension RC_RecentActivation = Some MD_CoContext"
| "recall_channel_to_match_dimension RC_GraphSpreading = None"

fun explain_dimension_of_link :: "link_type \<Rightarrow> match_dimension option" where
  "explain_dimension_of_link LT_EntityOverlap = Some MD_Entity"
| "explain_dimension_of_link LT_Causal = Some MD_Causal"
| "explain_dimension_of_link LT_TopicRelated = Some MD_Topic"
| "explain_dimension_of_link LT_TemporalAdjacent = Some MD_Temporal"
| "explain_dimension_of_link LT_SemanticSimilar = Some MD_Semantic"
| "explain_dimension_of_link LT_SameGoal = Some MD_Goal"
| "explain_dimension_of_link LT_SameEvent = Some MD_Event"
| "explain_dimension_of_link LT_EmotionalResonance = Some MD_Emotion"
| "explain_dimension_of_link LT_CoActivation = Some MD_CoContext"
| "explain_dimension_of_link _ = None"

definition seed_dimension :: "activation_step list \<Rightarrow> match_dimension list" where
  "seed_dimension trace =
     (case trace of [] \<Rightarrow> []
      | st # _ \<Rightarrow>
          if step_hop st = 0 then
            (case Option.bind (step_channel st) recall_channel_to_match_dimension of
               Some d \<Rightarrow> [d] | None \<Rightarrow> [])
          else [])"

definition deduce_dimensions :: "activation_step list \<Rightarrow> match_dimension list" where
  "deduce_dimensions trace =
     dedup (List.map_filter (\<lambda>st. Option.bind (step_via_link st) explain_dimension_of_link) trace
       @ seed_dimension trace)"

fun link_type_name :: "link_type \<Rightarrow> string" where
  "link_type_name LT_EntityOverlap = ''EntityOverlap''"
| "link_type_name LT_TemporalAdjacent = ''TemporalAdjacent''"
| "link_type_name LT_SemanticSimilar = ''SemanticSimilar''"
| "link_type_name LT_TopicRelated = ''TopicRelated''"
| "link_type_name LT_SameGoal = ''SameGoal''"
| "link_type_name LT_SameEvent = ''SameEvent''"
| "link_type_name LT_Causal = ''Causal''"
| "link_type_name LT_EmotionalResonance = ''EmotionalResonance''"
| "link_type_name LT_Contradiction = ''Contradiction''"
| "link_type_name LT_Correction = ''Correction''"
| "link_type_name LT_Elaboration = ''Elaboration''"
| "link_type_name LT_CoActivation = ''CoActivation''"
| "link_type_name LT_Supersedes = ''Supersedes''"
| "link_type_name LT_Deprecated = ''Deprecated''"

text \<open>The format \<open>{:.3}\<close>: three decimals, padded with zeros.\<close>

definition pad3 :: "nat \<Rightarrow> string" where
  "pad3 n = (if n < 10 then ''00'' else if n < 100 then ''0'' else []) @ nat_str n"

fun fmt_f32_3 :: "f32 \<Rightarrow> string" where
  "fmt_f32_3 (F32 q) =
     (let n = nat (rne (\<bar>q\<bar> * 1000)) in
      (if q < 0 then ''-'' else []) @ nat_str (n div 1000) @ ''.'' @ pad3 (n mod 1000))"
| "fmt_f32_3 F32_Inf = ''inf''"
| "fmt_f32_3 F32_NegInf = ''-inf''"
| "fmt_f32_3 F32_NaN = ''NaN''"

definition id_str :: "memory_id \<Rightarrow> string" where
  "id_str i = nat_str (unat (as_u128 i))"

definition explain_trace :: "activation_step list \<Rightarrow> memory_id \<Rightarrow> string" where
  "explain_trace trace seed_id =
     (if length trace \<le> 1 then ''direct seed recall (id='' @ id_str seed_id @ '')''
      else str_join '' '' ((''seed='' @ id_str seed_id) #
        List.map_filter (\<lambda>st. map_option (\<lambda>lt. ''-'' @ link_type_name lt @ ''->'' @ id_str (step_to st)
            @ '' (e='' @ fmt_f32_3 (step_energy_in st) @ '')'') (step_via_link st)) (drop 1 trace)))"

section \<open>Properties\<close>

lemma map_filter_set: "set (List.map_filter f xs) = {y. \<exists>x \<in> set xs. f x = Some y}"
  by (force simp: List.map_filter_def)

lemma link_warning_iff:
  "link_warning l = Some w \<longleftrightarrow>
     link_type l = LT_Correction \<and> w = MW_HasCorrection (target_id l) \<or>
     link_type l = LT_Contradiction \<and> w = MW_HasContradiction (target_id l) \<or>
     link_type l = LT_Supersedes \<and> w = MW_Superseded (target_id l)"
  by (cases "link_type l") auto

declare link_warning.simps [simp del]

text \<open>
  No risk goes unmentioned. A warning list reports a correction, a contradiction or a
  supersession exactly for the edges of these types, deprecation exactly for deprecated units, low
  confidence and staleness exactly below the two energy thresholds.
\<close>

theorem check_warnings_spec:
  "(MW_HasCorrection t \<in> set (check_warnings u e) \<longleftrightarrow> (t, LT_Correction) \<in> link_key ` set (links u)) \<and>
   (MW_HasContradiction t \<in> set (check_warnings u e) \<longleftrightarrow> (t, LT_Contradiction) \<in> link_key ` set (links u)) \<and>
   (MW_Superseded t \<in> set (check_warnings u e) \<longleftrightarrow> (t, LT_Supersedes) \<in> link_key ` set (links u)) \<and>
   (MW_Deprecated \<in> set (check_warnings u e) \<longleftrightarrow> lifecycle u = LC_Deprecated) \<and>
   (MW_LowConfidence \<in> set (check_warnings u e) \<longleftrightarrow> e < f32_of_rat (20/100)) \<and>
   (MW_StaleFreshness \<in> set (check_warnings u e) \<longleftrightarrow> e < f32_of_rat (10/100))"
  by (auto simp: check_warnings_def map_filter_set link_warning_iff link_key_def image_iff) metis+

text \<open>
  Reranking keeps exactly the activated memories whose unit exists, each with that unit, and
  orders them by descending energy.
\<close>

theorem rerank_by_energy_spec:
  assumes "list_all (\<lambda>(_, e, _). e \<noteq> F32_NaN) act"
  shows "sorted_wrt (\<lambda>(_, e, _, _) (_, e', _, _). e' \<le> e) (rerank_by_energy act us) \<and>
    ((i, e, tr, u) \<in> set (rerank_by_energy act us) \<longleftrightarrow>
       (i, e, tr) \<in> set act \<and> find_first (\<lambda>u. mem_id u = i) us = Some u)"
proof
  let ?xs = "List.map_filter (\<lambda>(i, e, tr). map_option (\<lambda>u. (i, e, tr, u))
      (find_first (\<lambda>u. mem_id u = i) us)) act"
  have in_iff: "(i, e, tr, u) \<in> set ?xs \<longleftrightarrow> (i, e, tr) \<in> set act \<and> find_first (\<lambda>u. mem_id u = i) us = Some u"
    for i e tr u
    by (auto simp: map_filter_set intro!: bexI[of _ "(i, e, tr)"])
  have "list_all (\<lambda>x. (case x of (_, e, _, _) \<Rightarrow> e) \<noteq> F32_NaN) ?xs"
    using assms by (auto simp: list_all_iff in_iff)
  from sorted_desc_by[OF this]
  show "sorted_wrt (\<lambda>(_, e, _, _) (_, e', _, _). e' \<le> e) (rerank_by_energy act us)"
    unfolding rerank_by_energy_def by (rule sorted_wrt_mono_rel[rotated]) (auto split: prod.splits)
  show "(i, e, tr, u) \<in> set (rerank_by_energy act us) \<longleftrightarrow>
       (i, e, tr) \<in> set act \<and> find_first (\<lambda>u. mem_id u = i) us = Some u"
    unfolding rerank_by_energy_def set_sort_by by (rule in_iff)
qed

theorem rerank_by_energy_spec_witness:
  "(MemoryId 1, F32 1, [], demo_unit 1 ''a'' []) \<in>
     set (rerank_by_energy [(MemoryId 1, F32 1, []), (MemoryId 2, F32 0, [])] [demo_unit 1 ''a'' []])"
  using rerank_by_energy_spec[of "[(MemoryId 1, F32 1, []), (MemoryId 2, F32 0, [])]"
      "[demo_unit 1 ''a'' []]" "MemoryId 1" "F32 1" "[]" "demo_unit 1 ''a'' []"]
  by simp

end
