(* ===== verification/Write_Keys.thy ===== *)
theory Write_Keys
  imports Core_Text
begin

text \<open>
  Recall keys of a memory (\<open>hippmem-write/src/keys.rs\<close>): hashes of entities, topics, goals, events
  and causal claims, time buckets, and the 256-bit signature of the text. The signature is computed
  in 256 signed counters; a counter is changed by one per token, so its 64 bits never overflow in
  memory and it is an \<open>int\<close>. The bytes that the hash of a causal claim reads are those of the
  concatenated strings.
\<close>

definition entity_keys_from :: "text_env \<Rightarrow> memory_understanding \<Rightarrow> entity_key list" where
  "entity_keys_from env u = map (\<lambda>e. xxh3_64 env (em_canonical e)) (mu_entities u)"

text \<open>Division of \<open>i64\<close> truncates towards zero; the cast \<open>as u32\<close> keeps the low 32 bits.\<close>

definition i64_div :: "i64 \<Rightarrow> i64 \<Rightarrow> i64" where
  "i64_div a b = sgn a * (\<bar>a\<bar> div b)"

definition temporal_keys_from :: "timestamp \<Rightarrow> temporal_key list" where
  "temporal_keys_from ts =
     (let ms = as_i64 ts in
      [of_int (i64_div ms 3600000), of_int (i64_div ms 86400000), of_int (i64_div ms 604800000)])"

definition simhash_seed :: "u64 \<Rightarrow> nat \<Rightarrow> u64" where
  "simhash_seed h i = xor (h + of_nat i) (drop_bit 32 h)"

definition count_token :: "u64 \<Rightarrow> int list \<Rightarrow> int list" where
  "count_token h acc =
     map (\<lambda>(i, a). if and (simhash_seed h i) 1 = 1 then a + 1 else a - 1) (enumerate 0 acc)"

fun chunks :: "nat \<Rightarrow> nat \<Rightarrow> 'a list \<Rightarrow> 'a list list" where
  "chunks 0 n xs = []"
| "chunks (Suc k) n xs = take n xs # chunks k n (drop n xs)"

definition pack_word :: "int list \<Rightarrow> u64" where
  "pack_word vals =
     fold (\<lambda>(j, v) w. if 0 < v then or w (push_bit j 1) else w) (enumerate 0 vals) 0"

definition simhash_tokens :: "text_env \<Rightarrow> string \<Rightarrow> string list" where
  "simhash_tokens env text = tokenize env text ''zh'' @ tokenize env text ''en''"

definition simhash_text :: "text_env \<Rightarrow> string \<Rightarrow> lexical_signature" where
  "simhash_text env text =
     (let acc = fold (\<lambda>t. count_token (xxh3_64 env t)) (simhash_tokens env text) (replicate 256 0)
      in \<lparr>ls_simhash = map pack_word (chunks 4 64 acc)\<rparr>)"

definition topic_keys_from :: "text_env \<Rightarrow> memory_understanding \<Rightarrow> topic_key list" where
  "topic_keys_from env u = map (\<lambda>t. xxh3_64 env (tt_label t)) (mu_topics u)"

definition goal_keys_from :: "text_env \<Rightarrow> memory_understanding \<Rightarrow> goal_key list" where
  "goal_keys_from env u = map (\<lambda>g. xxh3_64 env (gf_description g)) (mu_goals u)"

definition event_keys_from :: "text_env \<Rightarrow> memory_understanding \<Rightarrow> event_key list" where
  "event_keys_from env u = map (\<lambda>e. xxh3_64 env (ev_action e)) (mu_events u)"

definition causal_keys_from :: "text_env \<Rightarrow> memory_understanding \<Rightarrow> causal_key list" where
  "causal_keys_from env u =
     map (\<lambda>c. xxh3_64 env (cc_cause c @ '' -> '' @ cc_effect c)) (mu_causal_claims u)"

definition generate_keys ::
    "text_env \<Rightarrow> memory_content \<Rightarrow> memory_understanding \<Rightarrow> write_context \<Rightarrow> semantic_signature
      \<Rightarrow> string + association_keys" where
  "generate_keys env c u ctx sem =
     Inr \<lparr>ak_entity_keys = entity_keys_from env u, ak_temporal_keys = temporal_keys_from (local_time ctx),
          ak_lexical_signature = simhash_text env (mc_raw c), ak_semantic_signature = sem,
          ak_topic_keys = topic_keys_from env u, ak_emotion_keys = [],
          ak_goal_keys = goal_keys_from env u, ak_event_keys = event_keys_from env u,
          ak_causal_keys = causal_keys_from env u\<rparr>"

section \<open>The signature has three values\<close>

text \<open>
  The parity of \<open>simhash_seed h i\<close> depends on \<open>i\<close> only through its parity, so the counters at even
  positions all agree and those at odd positions are their negatives.
\<close>

definition token_sign :: "u64 \<Rightarrow> int" where
  "token_sign h = (if bit (simhash_seed h 0) 0 then 1 else - 1)"

definition alternating :: "int \<Rightarrow> int list" where
  "alternating c = map (\<lambda>i. if even i then c else - c) [0..<256]"

lemma odd_simhash_seed: "odd (simhash_seed h i) \<longleftrightarrow> (odd (simhash_seed h 0) \<longleftrightarrow> even i)"
  by (auto simp: simhash_seed_def even_xor_iff)

lemma count_token_alternating: "count_token h (alternating c) = alternating (c + token_sign h)"
proof (rule nth_equalityI)
  fix i
  assume "i < length (count_token h (alternating c))"
  then have i: "i < 256" by (simp add: count_token_def alternating_def)
  have "and (simhash_seed h i) 1 = 1 \<longleftrightarrow> odd (simhash_seed h i)"
    by (simp add: and_one_eq odd_iff_mod_2_eq_one)
  then show "count_token h (alternating c) ! i = alternating (c + token_sign h) ! i"
    using i odd_simhash_seed[of h i]
    by (simp add: count_token_def alternating_def nth_enumerate_eq token_sign_def bit_0)
qed (simp add: count_token_def alternating_def)

lemma fold_count_alternating:
  "fold (\<lambda>t. count_token (f t)) ts (alternating c) = alternating (c + sum_list (map (\<lambda>t. token_sign (f t)) ts))"
  by (induction ts arbitrary: c) (simp_all add: count_token_alternating add.assoc)

lemma bit_pack_word: "bit (pack_word vals) j \<longleftrightarrow> j < length vals \<and> j < 64 \<and> 0 < vals ! j"
proof -
  have "bit (fold (\<lambda>(j, v) w. if 0 < v then or w (push_bit j 1) else w) (enumerate n vals) w) j \<longleftrightarrow>
      bit w j \<or> n \<le> j \<and> j < n + length vals \<and> j < 64 \<and> 0 < vals ! (j - n)" for n and w :: u64
  proof (induction vals arbitrary: n w)
    case (Cons v vals)
    have "bit (or w (push_bit n 1)) j \<longleftrightarrow> bit w j \<or> j = n \<and> n < 64" for w :: u64
      by (auto simp: bit_or_iff bit_exp_iff)
    then show ?case using Cons[of "Suc n"] by (auto simp: nth_Cons' Suc_diff_Suc[symmetric] not_le
          less_Suc_eq_le le_Suc_eq simp flip: Suc_diff_Suc)
  qed auto
  from this[of 0 0] show ?thesis by (simp add: pack_word_def)
qed

definition sign_word :: "int \<Rightarrow> u64" where
  "sign_word c = (if 0 < c then 0x5555555555555555 else if c < 0 then 0xAAAAAAAAAAAAAAAA else 0)"

lemma bit_sign_word: "j < 64 \<Longrightarrow> bit (sign_word c) j \<longleftrightarrow> (if even j then 0 < c else c < 0)"
proof -
  have "list_all (\<lambda>j. bit (0x5555555555555555 :: u64) j = even j) [0..<64]"
    "list_all (\<lambda>j. bit (0xAAAAAAAAAAAAAAAA :: u64) j = odd j) [0..<64]"
    by code_simp+
  then have "bit (0x5555555555555555 :: u64) j = even j" "bit (0xAAAAAAAAAAAAAAAA :: u64) j = odd j"
    if "j < 64" using that unfolding list_all_iff set_upt by auto
  moreover assume "j < 64"
  ultimately show ?thesis unfolding sign_word_def by (simp only: if_splits split: if_splits) auto
qed

lemma pack_chunk: "even k \<Longrightarrow> k + 64 \<le> 256 \<Longrightarrow> pack_word (take 64 (drop k (alternating c))) = sign_word c"
proof (rule bit_word_eqI)
  fix j
  assume k: "even k" "k + 64 \<le> 256" and "j < LENGTH(64)"
  then have j: "j < 64" by simp
  then have "take 64 (drop k (alternating c)) ! j = (if even (k + j) then c else - c)"
    using k by (simp add: alternating_def)
  then show "bit (pack_word (take 64 (drop k (alternating c)))) j = bit (sign_word c) j"
    using j k unfolding bit_pack_word bit_sign_word[OF j] by (simp add: alternating_def)
qed

lemma chunks_4: "chunks 4 64 xs = [take 64 xs, take 64 (drop 64 xs), take 64 (drop 128 xs), take 64 (drop 192 xs)]"
proof -
  have "(4::nat) = Suc (Suc (Suc (Suc 0)))" by simp
  then show ?thesis by (simp only: chunks.simps drop_drop) simp
qed

lemma pack_words_alternating: "map pack_word (chunks 4 64 (alternating c)) = replicate 4 (sign_word c)"
proof -
  have "replicate 4 (sign_word c) = [sign_word c, sign_word c, sign_word c, sign_word c]"
    by (simp add: numeral_eq_Suc)
  then show ?thesis
    unfolding chunks_4
    using pack_chunk[of 0 c] pack_chunk[of 64 c] pack_chunk[of 128 c] pack_chunk[of 192 c] by simp
qed

lemma simhash_text_eq:
  "ls_simhash (simhash_text env text) =
     replicate 4 (sign_word (sum_list (map (\<lambda>t. token_sign (xxh3_64 env t)) (simhash_tokens env text))))"
proof -
  have "replicate 256 0 = alternating 0"
    by (rule nth_equalityI) (simp_all add: alternating_def)
  then show ?thesis
    unfolding simhash_text_def Let_def by (simp add: fold_count_alternating pack_words_alternating)
qed

section \<open>Properties\<close>

text \<open>
  C12: the 256-bit text signature carries one ternary digit: whatever the text, its four words are
  equal and are 0x5555555555555555, 0xAAAAAAAAAAAAAAAA or 0, by the sign of a sum over the tokens.
\<close>

theorem simhash_text_three_values:
  "ls_simhash (simhash_text env text) =
     replicate 4 (sign_word (sum_list (map (\<lambda>t. token_sign (xxh3_64 env t)) (simhash_tokens env text))))"
  by (rule simhash_text_eq)

lemma sign_word_disagree:
  assumes "sign_word c \<noteq> 0" "sign_word d \<noteq> 0" "sign_word c \<noteq> sign_word d" "j < 64"
  shows "bit (sign_word c) j \<noteq> bit (sign_word d) j"
  using assms(1-3) unfolding bit_sign_word[OF assms(4)] by (auto simp: sign_word_def split: if_splits)

lemma equal_bits_replicate:
  "equal_bits (replicate n x) (replicate n y) = n * length (filter (\<lambda>i. bit x i = bit y i) bit_positions)"
  by (induction n) (simp_all add: equal_bits_def)

text \<open>
  Hence two texts whose signatures are not zero have similarity one or zero and nothing between:
  the signature cannot rank texts by lexical closeness, and the semantic dimension of candidate
  discovery (similarity above 0.7) holds exactly when the signatures are equal.
\<close>

theorem simhash_similarity_bimodal:
  assumes "ls_simhash (simhash_text env a) \<noteq> replicate 4 0" "ls_simhash (simhash_text env b) \<noteq> replicate 4 0"
  shows "simhash_similarity (ls_simhash (simhash_text env a)) (ls_simhash (simhash_text env b)) =
    (if ls_simhash (simhash_text env a) = ls_simhash (simhash_text env b) then 1 else 0)"
proof -
  obtain c d where eq: "ls_simhash (simhash_text env a) = replicate 4 (sign_word c)"
      "ls_simhash (simhash_text env b) = replicate 4 (sign_word d)"
    using that[OF simhash_text_eq simhash_text_eq] .
  have len: "length (replicate 4 x) = 4" for x :: u64 by simp
  have sim: "simhash_similarity (replicate 4 x) (replicate 4 y) =
      F32 (of_nat (4 * length (filter (\<lambda>i. bit x i = bit y i) bit_positions)) / 256)" for x y
    using simhash_equal_bits(1)[OF len len] unfolding equal_bits_replicate .
  show ?thesis
  proof (cases "sign_word c = sign_word d")
    case True
    then show ?thesis unfolding eq sim by (simp only: simp_thms filter_True if_True bit_positions_simps) simp
  next
    case False
    moreover have "sign_word c \<noteq> 0" using assms(1) unfolding eq by (rule contrapos_nn) (simp only:)
    moreover have "sign_word d \<noteq> 0" using assms(2) unfolding eq by (rule contrapos_nn) (simp only:)
    ultimately have "\<And>j. j < 64 \<Longrightarrow> bit (sign_word c) j \<noteq> bit (sign_word d) j"
      by (intro sign_word_disagree)
    then have "filter (\<lambda>i. bit (sign_word c) i = bit (sign_word d) i) bit_positions = []"
      by (intro filter_False ballI) (simp only: bit_positions_simps not_False_eq_True)
    moreover have "replicate 4 (sign_word c) \<noteq> replicate 4 (sign_word d)"
      using False by (simp only: replicate_eq_replicate) simp
    ultimately show ?thesis unfolding eq sim by (simp only: list.size if_False) simp
  qed
qed

definition const_hash_env :: text_env where
  "const_hash_env = demo_env\<lparr>xxh3_64 := (\<lambda>_. 1)\<rparr>"

theorem simhash_similarity_bimodal_witness:
  "simhash_similarity (ls_simhash (simhash_text const_hash_env ''abc''))
     (ls_simhash (simhash_text const_hash_env ''abc'')) = 1"
proof -
  have "token_sign 1 = 1" by (simp add: token_sign_def simhash_seed_def bit_xor_iff bit_drop_bit_eq)
  then have sum: "sum_list (map (\<lambda>t. token_sign (xxh3_64 const_hash_env t)) ts) = int (length ts)" for ts
    by (induction ts) (simp_all add: const_hash_env_def)
  have "str_trim ''abc'' \<noteq> ''''"
    by (simp add: str_trim_def chars_def of_chars_def trim_chars_def is_whitespace_def utf8_encode_def)
  then have "simhash_tokens const_hash_env ''abc'' \<noteq> []"
    by (simp add: simhash_tokens_def tokenize_def tokenize_chinese_def const_hash_env_def demo_env_def)
  then have "ls_simhash (simhash_text const_hash_env ''abc'') \<noteq> replicate 4 0"
    unfolding simhash_text_eq sum by (simp add: sign_word_def)
  from simhash_similarity_bimodal[OF this this] show ?thesis by (simp only: if_True simp_thms)
qed

end
