(* ===== verification/Write_Association.thy ===== *)
theory Write_Association
  imports Core_Config Core_Text
begin

text \<open>
  Association at write time (\<open>hippmem-write/src/candidates.rs\<close>, \<open>scoring.rs\<close>, \<open>edges.rs\<close>): which
  dimensions two memories share, the score of the pair, and the edge that is built from it. The
  hash sets of keys are HOL sets, their sizes cardinalities. \<open>u32\<close> arithmetic wraps.
\<close>

section \<open>Candidates\<close>

record candidate_result =
  matched_dimensions :: "match_dimension list"
  entity_jaccard :: f32
  topic_jaccard :: f32
  temporal_overlap :: usize
  goal_jaccard :: f32
  event_jaccard :: f32
  causal_overlap :: usize
  emotion_overlap :: usize
  importance_value :: f32
  co_context_score :: f32
  lexical_similarity :: f32
  semantic_binary_similarity :: f32

definition overlap_count :: "'a list \<Rightarrow> 'a list \<Rightarrow> usize" where
  "overlap_count a b = card (set a \<inter> set b)"

definition key_jaccard :: "u64 list \<Rightarrow> u64 list \<Rightarrow> f32" where
  "key_jaccard a b =
     (let inter = overlap_count a b;
          union = card (set a) + card (set b) - inter
      in if 0 < union then f32_of_nat inter / f32_of_nat union else 0)"

definition binary_similarity :: "u64 list \<Rightarrow> u64 list \<Rightarrow> f32" where
  "binary_similarity a b =
     f32_of_u32 (sum_list (map (\<lambda>(x, y). 64 - count_ones (xor x y)) (zip a b))) / f32_of_rat 128"

definition discover_candidates :: "association_keys \<Rightarrow> association_keys \<Rightarrow> candidate_result" where
  "discover_candidates a b =
     (let ent = key_jaccard (ak_entity_keys a) (ak_entity_keys b);
          top = key_jaccard (ak_topic_keys a) (ak_topic_keys b);
          tmp = overlap_count (ak_temporal_keys a) (ak_temporal_keys b);
          goal = key_jaccard (ak_goal_keys a) (ak_goal_keys b);
          evt = key_jaccard (ak_event_keys a) (ak_event_keys b);
          cau = overlap_count (ak_causal_keys a) (ak_causal_keys b);
          emo = overlap_count (ak_emotion_keys a) (ak_emotion_keys b);
          sa = ls_simhash (ak_lexical_signature a);
          sb = ls_simhash (ak_lexical_signature b);
          lexical = simhash_similarity sa sb;
          a_has_signal = list_ex (\<lambda>x. x \<noteq> 0) sa;
          b_has_signal = list_ex (\<lambda>x. x \<noteq> 0) sb;
          dims = (if 0 < ent then [MD_Entity] else []) @ (if 0 < top then [MD_Topic] else []) @
            (if 0 < tmp then [MD_Temporal] else []) @ (if 0 < goal then [MD_Goal] else []) @
            (if 0 < evt then [MD_Event] else []) @ (if 0 < cau then [MD_Causal] else []) @
            (if 0 < emo then [MD_Emotion] else []) @
            (if a_has_signal \<and> b_has_signal \<and> f32_of_rat (7/10) < lexical then [MD_Semantic] else [])
      in \<lparr>matched_dimensions = dims, entity_jaccard = ent, topic_jaccard = top,
          temporal_overlap = tmp, goal_jaccard = goal, event_jaccard = evt, causal_overlap = cau,
          emotion_overlap = emo, importance_value = 0, co_context_score = 0,
          lexical_similarity = lexical,
          semantic_binary_similarity = binary_similarity
            (ss_binary_code (ak_semantic_signature a)) (ss_binary_code (ak_semantic_signature b))\<rparr>)"

section \<open>Scoring\<close>

definition W_LEXICAL :: f32 where "W_LEXICAL = f32_of_rat (18/100)"
definition W_BINARY :: f32 where "W_BINARY = f32_of_rat (10/100)"

definition cold_start_factor :: "u32 \<Rightarrow> algo_params \<Rightarrow> f32" where
  "cold_start_factor total_memories p =
     (let cold = cold_start_count p in
      if total_memories < cold then single_semantic_penalty p
      else if cold * 2 \<le> total_memories then 1
      else let t = f32_of_u32 (total_memories - cold) / f32_of_u32 cold
           in single_semantic_penalty p + (1 - single_semantic_penalty p) * t)"

definition overlap_ratio :: "usize \<Rightarrow> f32 \<Rightarrow> f32" where
  "overlap_ratio overlap n = (if overlap = 0 then 0 else f32_min (f32_of_nat overlap / n) 1)"

definition raw_score :: "candidate_result \<Rightarrow> usize \<Rightarrow> u32 \<Rightarrow> algo_params \<Rightarrow> f32" where
  "raw_score c total_dim_hits total_memory_count p =
     (let n = f32_of_nat (max total_dim_hits 1);
          raw0 = w_entity p * entity_jaccard c + w_topic p * topic_jaccard c
            + w_goal p * goal_jaccard c + w_event p * event_jaccard c
            + w_temporal p * overlap_ratio (temporal_overlap c) n
            + w_causal p * overlap_ratio (causal_overlap c) n
            + w_emotion p * overlap_ratio (emotion_overlap c) n
            + w_importance p * importance_value c + w_context p * co_context_score c;
          raw1 = (if matched_dimensions c \<noteq> []
            then raw0 + (W_LEXICAL * lexical_similarity c + W_BINARY * semantic_binary_similarity c)
            else raw0);
          dim_count = length (matched_dimensions c);
          raw2 = (if unat (multi_dim_min_dims p) \<le> dim_count then raw1 + multi_dim_bonus p else raw1)
      in if dim_count = 1 \<and> MD_Semantic \<in> set (matched_dimensions c)
         then raw2 * cold_start_factor total_memory_count p else raw2)"

definition associate_score :: "candidate_result \<Rightarrow> usize \<Rightarrow> u32 \<Rightarrow> algo_params \<Rightarrow> unit_score" where
  "associate_score c total_dim_hits total_memory_count p =
     unit_score_new (clamp01 (raw_score c total_dim_hits total_memory_count p))"

section \<open>Edges\<close>

record edge_build_params =
  strong_threshold :: f32
  strong_max :: usize
  weak_max :: usize
  min_score :: f32
  observation_max :: f32
  max_candidates :: usize

definition edge_build_params_default :: edge_build_params where
  "edge_build_params_default =
     \<lparr>strong_threshold = f32_of_rat (55/100), strong_max = 8, weak_max = 24,
      min_score = f32_of_rat (25/100), observation_max = f32_of_rat (55/100), max_candidates = 0\<rparr>"

definition determine_link_type :: "candidate_result \<Rightarrow> link_type" where
  "determine_link_type c =
     (let dims = set (matched_dimensions c) in
      if MD_Causal \<in> dims then LT_Causal
      else if MD_Entity \<in> dims then LT_EntityOverlap
      else if MD_Temporal \<in> dims then LT_TemporalAdjacent
      else if MD_Topic \<in> dims then LT_TopicRelated
      else if MD_Goal \<in> dims then LT_SameGoal
      else if MD_Event \<in> dims then LT_SameEvent
      else LT_SemanticSimilar)"

definition new_edge ::
    "memory_id \<Rightarrow> candidate_result \<Rightarrow> unit_score \<Rightarrow> edge_build_params \<Rightarrow> timestamp \<Rightarrow> association_link" where
  "new_edge t c score ep now =
     (let sv = score_value score in
      \<lparr>target_id = t, link_type = determine_link_type c, direction = Forward, strength = score,
       confidence = score,
       evidence = \<lparr>le_contributing_dimensions = matched_dimensions c,
         le_score_breakdown = map (\<lambda>d. (d, sv)) (matched_dimensions c), le_text_spans = [],
         le_note = None\<rparr>,
       formed_at = now, last_activated_at = Some now, activation_count = 0,
       observation = (if sv \<le> observation_max ep then Observing now else Confirmed)\<rparr>)"

definition build_edges ::
    "memory_id \<Rightarrow> memory_id \<Rightarrow> candidate_result \<Rightarrow> usize \<Rightarrow> edge_build_params \<Rightarrow> algo_params
      \<Rightarrow> association_link list \<Rightarrow> timestamp \<Rightarrow> u32 \<Rightarrow> association_link list" where
  "build_edges s t c dim_count ep ap existing now total_memories =
     (if s = t then []
      else let score = associate_score c dim_count total_memories ap in
        if score_value score < min_score ep then []
        else if list_ex (\<lambda>l. target_id l = t \<and> link_type l = determine_link_type c) existing then []
        else [new_edge t c score ep now])"

section \<open>The cold-start ramp\<close>

text \<open>Rounding error below one.\<close>

lemma round32_err_below_one: "0 < q \<Longrightarrow> q < 1 \<Longrightarrow> round32 q \<le> q + 1 / 2 ^ 25"
proof -
  assume q: "0 < q" "q < 1"
  then have "bexp q < 0" by (intro bexp_less) simp_all
  then have "ulp_exp 24 (- 126) q \<le> - 24" using q by (simp add: ulp_exp_def max_def)
  then have "(2::rat) powi ulp_exp 24 (- 126) q \<le> 2 powi - 24" by (simp only: powi2_le_iff)
  moreover have "\<bar>round32 q - q\<bar> \<le> 2 powi ulp_exp 24 (- 126) q / 2"
    unfolding round32_def by (rule round_bin_err)
  moreover have "(2::rat) powi - 24 / 2 = 1 / 2 ^ 25" by (simp add: power_int_minus)
  ultimately show ?thesis by linarith
qed

lemma f32_one_plus: "f32_of_rat (1 + 1 / 2 ^ 25) = F32 1"
  by code_simp

lemma unit_f32_interpolate:
  assumes "unit_f32 w" "unit_f32 t"
  shows "unit_f32 (w + (1 - w) * t)" and "w \<le> w + (1 - w) * t"
proof -
  obtain q where q: "w = F32 q" "0 \<le> q" "q \<le> 1" "round32 q = q" using assms(1) by (rule unit_f32E)
  have u: "unit_f32 (1 - w)" using q by (simp add: unit_f32_of_rat)
  have prod: "unit_f32 ((1 - w) * t)" by (rule unit_f32_mult[OF u assms(2)])
  then obtain d where d: "(1 - w) * t = F32 d" "0 \<le> d" "d \<le> 1" by (rule unit_f32E)
  have vq: "f32_valid (F32 q)" using assms(1) q(1) unit_f32_valid by blast
  show ge: "w \<le> w + (1 - w) * t" unfolding d(1) unfolding q(1) using d(2) by (intro f32_add_ge[OF vq]) simp
  define r where "r = round32 (1 - q)"
  have "0 \<le> r" "r \<le> 1" unfolding r_def using q r32.R_unit[of "1 - q"] by simp_all
  then have "\<not> f32_max_finite < r" "\<not> r < - f32_max_finite"
    using f32_max_finite_ge(2) by linarith+
  then have r: "1 - w = F32 r" "r = round32 (1 - q)"
    unfolding q(1) by (simp_all add: f32_of_rat_def Let_def r_def)
  have "F32 d \<le> F32 r" using unit_f32_mult_le[OF u assms(2)] d(1) r(1) by metis
  then have "d \<le> r" by simp
  moreover have "r \<le> 1 - q + 1 / 2 ^ 25"
  proof (cases "q = 0 \<or> q = 1")
    case False
    then show ?thesis using q r(2) round32_err_below_one[of "1 - q"] by simp
  qed (use r(2) in auto)
  ultimately have "q + d \<le> 1 + 1 / 2 ^ 25" by linarith
  then have "f32_of_rat (q + d) \<le> F32 1" using f32_of_rat_mono f32_one_plus by metis
  then have "w + (1 - w) * t \<le> F32 1" unfolding d(1) unfolding q(1) by simp
  moreover have "F32 0 \<le> w + (1 - w) * t" using f32_le_trans[OF _ ge] q by simp
  ultimately show "unit_f32 (w + (1 - w) * t)" unfolding unit_f32_iff by (simp add: f32_valid_ops)
qed

lemma f32_of_nat_ratio:
  assumes "a \<le> b" "0 < b" "b < 2 ^ 32"
  shows "unit_f32 (f32_of_nat a / f32_of_nat b)"
proof -
  have big: "(2::rat) ^ 32 \<le> f32_max_finite" by (simp add: f32_max_finite_def)
  have r32: "round32 (2 ^ 32) = (2 ^ 32 :: rat)"
  proof -
    have "bexp (2 ^ 32) < 33" by (rule bexp_less) simp_all
    then show ?thesis unfolding round32_def by (intro round_bin_grid[of _ _ _ 32 1]) (simp_all add: ulp_exp_def)
  qed
  have fin: "f32_of_nat n = F32 (round32 (of_nat n)) \<and> 0 \<le> round32 (of_nat n :: rat)" if "n < 2 ^ 32" for n
  proof -
    have "(of_nat n :: rat) \<le> of_nat (2 ^ 32)" unfolding of_nat_le_iff using that by simp
    then have "round32 (of_nat n) \<le> 2 ^ 32" using r32.R_mono[of "of_nat n" "2 ^ 32"] r32 by simp
    moreover have "0 \<le> round32 (of_nat n :: rat)" by (rule r32.R_nonneg) simp
    ultimately show ?thesis using big by (simp add: f32_of_nat_def f32_of_rat_def Let_def)
  qed
  have "round32 (of_nat a) \<le> round32 (of_nat b :: rat)" using assms by (intro r32.R_mono) simp
  moreover have "1 \<le> round32 (of_nat b :: rat)" using assms by (intro r32.R_ge) simp_all
  ultimately show ?thesis
    using fin[of a] fin[of b] assms by (simp add: f32_div_simp unit_f32_of_rat)
qed

section \<open>Properties\<close>

lemma simhash_sum_commute:
  "sum_list (map (\<lambda>(x, y). 64 - count_ones (xor x y)) (zip a b)) =
   sum_list (map (\<lambda>(x, y). 64 - count_ones (xor x y)) (zip b a))"
  by (subst zip_commute) (simp add: comp_def case_prod_unfold xor.commute)

lemma key_jaccard_commute: "key_jaccard a b = key_jaccard b a"
  by (simp add: key_jaccard_def overlap_count_def Int_commute add.commute)

text \<open>
  Candidate discovery does not depend on the direction: comparing a new memory with an existing
  one or the existing one with the new gives the same dimensions and similarities.
\<close>

theorem discover_candidates_commute: "discover_candidates a b = discover_candidates b a"
  unfolding discover_candidates_def simhash_similarity_def binary_similarity_def Let_def
  by (simp only: key_jaccard_commute[of "ak_entity_keys a"] key_jaccard_commute[of "ak_topic_keys a"]
      key_jaccard_commute[of "ak_goal_keys a"] key_jaccard_commute[of "ak_event_keys a"]
      overlap_count_def Int_commute[of "set (ak_temporal_keys a)"]
      Int_commute[of "set (ak_causal_keys a)"] Int_commute[of "set (ak_emotion_keys a)"]
      simhash_sum_commute[of "ls_simhash (ak_lexical_signature a)"]
      simhash_sum_commute[of "ss_binary_code (ak_semantic_signature a)"] conj_left_commute)

lemma f32_valid_raw: "f32_valid (raw_score c n tm p)"
  unfolding raw_score_def Let_def by (auto simp: f32_valid_ops)

lemma associate_score_wf: "score_wf (associate_score c n tm p)"
proof -
  have "f32_valid (clamp01 x)" if "f32_valid x" for x using that by (auto simp: clamp01_def)
  then show ?thesis unfolding associate_score_def by (intro score_wf_new) (simp add: f32_valid_raw)
qed

text \<open>
  The score of a pair is a number of the unit interval for every candidate and every parameter
  setting, not-a-number intermediate results included.
\<close>

theorem associate_score_in_unit: "unit_f32 (score_value (associate_score c n tm p))"
  using associate_score_wf by (simp add: score_wf_def)

text \<open>
  C13: building an edge keeps the edge list of the source well formed: scores stay in the unit
  interval, targets and types stay unique, no self-loop appears; at most one edge is created, its
  strength is at least the minimum score and it is under observation exactly up to the bound
  \<open>observation_max\<close>.
\<close>

theorem build_edges_invariant:
  assumes "links_wf existing" "links_unique existing"
    and "min_score ep \<noteq> F32_NaN"
    and new: "build_edges s t c dim_count ep ap existing now tm = new_links"
  shows "links_wf (existing @ new_links) \<and> links_unique (existing @ new_links) \<and>
    s \<notin> target_id ` set new_links \<and> length new_links \<le> 1 \<and>
    list_all (\<lambda>l. target_id l = t \<and> min_score ep \<le> link_strength l \<and>
      is_observing (observation l) = (link_strength l \<le> observation_max ep)) new_links"
proof (cases "new_links = []")
  case False
  let ?score = "associate_score c dim_count tm ap"
  have nl: "new_links = [new_edge t c ?score ep now]" and st: "s \<noteq> t"
    and lt: "\<not> score_value ?score < min_score ep"
    and fresh: "\<not> list_ex (\<lambda>l. target_id l = t \<and> link_type l = determine_link_type c) existing"
    using new False by (auto simp: build_edges_def Let_def split: if_splits)
  have wf: "score_wf ?score" by (rule associate_score_wf)
  then have "score_value ?score \<noteq> F32_NaN" by (auto simp: score_wf_def elim: unit_f32E)
  then have "min_score ep \<le> score_value ?score" using lt assms(3) f32_not_less by blast
  then show ?thesis
    using assms(1,2) wf st fresh
    by (auto simp: nl new_edge_def Let_def links_wf_def link_wf_def links_unique_def link_key_def
        list_ex_iff)
qed (use assms in simp)

theorem build_edges_invariant_witness:
  "links_unique ([demo_link 2 LT_Causal (2/5)] @ build_edges (MemoryId 1) (MemoryId 2)
     (discover_candidates (keys (demo_unit 1 ''a'' [])) (keys (demo_unit 2 ''b'' []))) 1
     edge_build_params_default algo_params_default [demo_link 2 LT_Causal (2/5)] (Timestamp 0) 10)"
proof -
  have "links_wf [demo_link 2 LT_Causal (2/5)]" "links_unique [demo_link 2 LT_Causal (2/5)]"
    "min_score edge_build_params_default \<noteq> F32_NaN"
    by (simp_all add: links_wf_def demo_link_wf links_unique_def edge_build_params_default_def)
  from build_edges_invariant[OF this refl] show ?thesis by blast
qed

lemma key_jaccard_pos:
  assumes "length a + length b < 2 ^ 24"
  shows "0 < key_jaccard a b \<longleftrightarrow> set a \<inter> set b \<noteq> {}"
proof -
  define k n where "k = overlap_count a b" and "n = card (set a) + card (set b) - overlap_count a b"
  have ks: "k \<le> card (set a)" "k \<le> card (set b)" by (simp_all add: k_def overlap_count_def card_mono)
  have "card (set a) \<le> length a" "card (set b) \<le> length b" by (rule card_length)+
  then have n: "n < 2 ^ 24" "k \<le> n" using assms ks unfolding n_def k_def by linarith+
  have k0: "k = 0 \<longleftrightarrow> set a \<inter> set b = {}" by (simp add: k_def overlap_count_def)
  have kj: "key_jaccard a b = (if 0 < n then f32_of_nat k / f32_of_nat n else 0)"
    by (simp add: key_jaccard_def Let_def k_def n_def)
  show ?thesis
  proof (cases "k = 0")
    case True
    have "\<not> 0 < F32 0 / f32_of_nat n" if "0 < n"
      using that n(1) by (simp add: f32_of_nat_exact f32_div_simp f32_of_rat_id)
    then show ?thesis using True k0 by (simp add: kj f32_of_nat_exact)
  next
    case False
    then have pos: "0 < n" "0 < k" using n(2) by auto
    have q: "f32_of_nat k / f32_of_nat n = f32_of_rat (of_nat k / of_nat n)"
      using pos n by (simp add: f32_of_nat_exact f32_div_simp)
    have "(2::rat) powi - 24 \<le> of_nat k / of_nat n"
    proof -
      have "(of_nat n :: rat) \<le> of_nat (2 ^ 24)" unfolding of_nat_le_iff using n(1) by simp
      moreover have "(1::rat) \<le> of_nat k" using pos by simp
      ultimately show ?thesis using pos by (simp add: power_int_minus field_simps)
    qed
    then have "f32_of_rat (2 powi - 24) \<le> f32_of_rat (of_nat k / of_nat n)" by (rule f32_of_rat_mono)
    moreover have "f32_of_rat (2 powi - 24) = F32 (1 / 16777216)" by code_simp
    ultimately have "0 < f32_of_rat (of_nat k / of_nat n)"
      by (cases "f32_of_rat (of_nat k / of_nat n)") auto
    then show ?thesis using pos False k0 by (simp add: kj q)
  qed
qed

text \<open>
  The dimension list tells the truth: as long as the key lists together are shorter than
  \<open>2 ^ 24\<close>, the entity, topic, goal and event dimensions are reported exactly when the two memories
  share a key, so a shared key is never rounded away.
\<close>

theorem discover_candidates_dimensions:
  assumes "length (ak_entity_keys a) + length (ak_entity_keys b) < 2 ^ 24"
    and "length (ak_topic_keys a) + length (ak_topic_keys b) < 2 ^ 24"
    and "length (ak_goal_keys a) + length (ak_goal_keys b) < 2 ^ 24"
    and "length (ak_event_keys a) + length (ak_event_keys b) < 2 ^ 24"
    and "dims = set (matched_dimensions (discover_candidates a b))"
  shows "(MD_Entity \<in> dims \<longleftrightarrow> set (ak_entity_keys a) \<inter> set (ak_entity_keys b) \<noteq> {}) \<and>
    (MD_Topic \<in> dims \<longleftrightarrow> set (ak_topic_keys a) \<inter> set (ak_topic_keys b) \<noteq> {}) \<and>
    (MD_Goal \<in> dims \<longleftrightarrow> set (ak_goal_keys a) \<inter> set (ak_goal_keys b) \<noteq> {}) \<and>
    (MD_Event \<in> dims \<longleftrightarrow> set (ak_event_keys a) \<inter> set (ak_event_keys b) \<noteq> {}) \<and>
    (MD_Temporal \<in> dims \<longleftrightarrow> set (ak_temporal_keys a) \<inter> set (ak_temporal_keys b) \<noteq> {}) \<and>
    (MD_Causal \<in> dims \<longleftrightarrow> set (ak_causal_keys a) \<inter> set (ak_causal_keys b) \<noteq> {})"
  unfolding assms(5) discover_candidates_def Let_def
    key_jaccard_pos[OF assms(1), symmetric] key_jaccard_pos[OF assms(2), symmetric]
    key_jaccard_pos[OF assms(3), symmetric] key_jaccard_pos[OF assms(4), symmetric]
  by (simp add: overlap_count_def card_gt_0_iff)

theorem discover_candidates_dimensions_witness:
  "MD_Entity \<notin> set (matched_dimensions (discover_candidates
     (keys (demo_unit 1 ''a'' [])) (keys (demo_unit 2 ''b'' []))))"
  using discover_candidates_dimensions[of "keys (demo_unit 1 ''a'' [])" "keys (demo_unit 2 ''b'' [])"]
  by (simp add: demo_unit_def)

text \<open>
  The cold-start factor ramps from the configured penalty to one: for a penalty in the unit
  interval and a cold-start count below \<open>2 ^ 31\<close> (the code doubles it in 32 bits) the factor lies
  between the penalty and one, is the penalty below the count and exactly one from twice the count
  on, rounding included.
\<close>

theorem cold_start_factor_bounds:
  assumes "unit_f32 (single_semantic_penalty p)" "unat (cold_start_count p) < 2 ^ 31"
  shows "unit_f32 (cold_start_factor n p) \<and> single_semantic_penalty p \<le> cold_start_factor n p \<and>
    (unat n < unat (cold_start_count p) \<longrightarrow> cold_start_factor n p = single_semantic_penalty p) \<and>
    (2 * unat (cold_start_count p) \<le> unat n \<longrightarrow> cold_start_factor n p = 1)"
proof -
  define cold where "cold = cold_start_count p"
  have dbl: "unat (cold * 2) = 2 * unat cold"
    using assms(2) by (simp add: cold_def unat_word_ariths)
  have le1: "single_semantic_penalty p \<le> F32 1" "single_semantic_penalty p \<le> single_semantic_penalty p"
    using assms(1) by (auto elim: unit_f32E)
  consider "n < cold" | "\<not> n < cold" "cold * 2 \<le> n" | "\<not> n < cold" "\<not> cold * 2 \<le> n" by blast
  then show ?thesis
  proof cases
    case 1
    then show ?thesis
      using assms(1) le1 by (simp add: cold_start_factor_def cold_def word_less_nat_alt)
  next
    case 2
    then show ?thesis using le1 by (simp add: cold_start_factor_def cold_def word_less_nat_alt)
  next
    case 3
    then have w: "unat cold \<le> unat n" "unat n < 2 * unat cold"
      using dbl by (simp_all add: word_less_nat_alt word_le_nat_alt)
    then have sub: "unat (n - cold) = unat n - unat cold" by (simp add: unat_sub_if')
    have "unit_f32 (f32_of_u32 (n - cold) / f32_of_u32 cold)"
      unfolding f32_of_u32_def using w sub unsigned_less[of cold] by (intro f32_of_nat_ratio) simp_all
    from unit_f32_interpolate[OF assms(1) this] show ?thesis
      using 3 w by (simp add: cold_start_factor_def Let_def cold_def)
  qed
qed

theorem cold_start_factor_bounds_witness: "cold_start_factor 1000 algo_params_default = 1"
proof -
  have "unit_f32 (single_semantic_penalty algo_params_default)" "unat (cold_start_count algo_params_default) < 2 ^ 31"
    "2 * unat (cold_start_count algo_params_default) \<le> unat (1000 :: u32)"
    by (simp_all add: algo_params_default_def unit_f32_of_rat del: unit_f32.simps)
  then show ?thesis using cold_start_factor_bounds[of algo_params_default 1000] by blast
qed

end
