(* ===== verification/Store_Semantic.thy ===== *)
theory Store_Semantic
  imports Core_Types
begin

text \<open>
  The in-memory semantic indexes (\<open>hippmem-store/src/semantic\<close>): the binary-code index with Hamming
  distance and the flat vector index with squared Euclidean distance. Both search by scoring every
  entry, sorting and truncating; the locale \<open>nearest_search\<close> states that and proves once what the
  traits \<open>BinaryIndex\<close> and \<open>VectorIndex\<close> promise of \<open>search\<close>.
\<close>

unbundle bit_operations_syntax

section \<open>Nearest neighbours\<close>

text \<open>\<open>scored[..limit]\<close> after the sort; an empty index and \<open>k = 0\<close> return early.\<close>

definition nearest ::
    "('q \<Rightarrow> 'v \<Rightarrow> 'r) \<Rightarrow> (u128 \<times> 'r \<Rightarrow> u128 \<times> 'r \<Rightarrow> ordering) \<Rightarrow> (u128 \<times> 'v) list \<Rightarrow> 'q \<Rightarrow> nat
      \<Rightarrow> (u128 \<times> 'r) list" where
  "nearest score_fn cmp entries query k =
     (if entries = [] \<or> k = 0 then []
      else let scored = sort_by cmp (map (\<lambda>(i, v). (i, score_fn query v)) entries)
           in take (min k (length scored)) scored)"

locale nearest_search = cmp_preorder cmp carrier
  for cmp :: "u128 \<times> 'r \<Rightarrow> u128 \<times> 'r \<Rightarrow> ordering" and carrier :: "u128 \<times> 'r \<Rightarrow> bool" +
  fixes score_fn :: "'q \<Rightarrow> 'v \<Rightarrow> 'r" and search :: "(u128 \<times> 'v) list \<Rightarrow> 'q \<Rightarrow> nat \<Rightarrow> (u128 \<times> 'r) list"
  assumes search_eq: "search entries query k = nearest score_fn cmp entries query k"
begin

lemma search_prefix:
  "search entries query k = take k (sort_by cmp (map (\<lambda>(i, v). (i, score_fn query v)) entries))"
  by (auto simp: search_eq nearest_def Let_def min_def)

lemma search_nearest:
  assumes "list_all carrier (map (\<lambda>(i, v). (i, score_fn query v)) entries)"
  shows "length (search entries query k) = min k (length entries)"
    and "sorted_wrt le (search entries query k)"
    and "\<exists>rest. mset (map (\<lambda>(i, v). (i, score_fn query v)) entries) =
        mset (search entries query k) + mset rest \<and>
      (\<forall>x \<in> set (search entries query k). \<forall>y \<in> set rest. le x y)"
proof -
  define s where "s = sort_by cmp (map (\<lambda>(i, v). (i, score_fn query v)) entries)"
  have srt: "sorted_wrt le (take k s @ drop k s)"
    using sorted_sort_by[OF assms] by (simp add: s_def)
  show "length (search entries query k) = min k (length entries)"
    by (simp add: search_prefix)
  show "sorted_wrt le (search entries query k)"
    using srt unfolding search_prefix s_def[symmetric] sorted_wrt_append by blast
  have "mset (map (\<lambda>(i, v). (i, score_fn query v)) entries) = mset (take k s) + mset (drop k s)"
    by (metis append_take_drop_id mset_append mset_sort_by s_def)
  then show "\<exists>rest. mset (map (\<lambda>(i, v). (i, score_fn query v)) entries) =
        mset (search entries query k) + mset rest \<and>
      (\<forall>x \<in> set (search entries query k). \<forall>y \<in> set rest. le x y)"
    using srt unfolding search_prefix s_def[symmetric] sorted_wrt_append by blast
qed

end

section \<open>Binary codes (semantic/binary.rs)\<close>

record binary_code_index =
  bi_entries :: "(u128 \<times> u8 list) list"

definition binary_index_new :: binary_code_index where
  "binary_index_new = \<lparr>bi_entries = []\<rparr>"

definition u8_count_ones :: "u8 \<Rightarrow> u32" where
  "u8_count_ones w = of_nat (length (filter (bit w) [0..<8]))"

definition hamming :: "u8 list \<Rightarrow> u8 list \<Rightarrow> u32" where
  "hamming a b = sum_list (map (\<lambda>(x, y). u8_count_ones (x XOR y)) (zip a b))"

definition binary_index_len :: "binary_code_index \<Rightarrow> nat" where
  "binary_index_len ix = length (bi_entries ix)"

definition binary_index_insert ::
    "binary_code_index \<Rightarrow> u128 \<Rightarrow> u8 list \<Rightarrow> string + binary_code_index" where
  "binary_index_insert ix i code =
     (if bi_entries ix \<noteq> [] \<and> length code \<noteq> length (snd (hd (bi_entries ix)))
      then Inl (''Code length '' @ nat_str (length code * 8) @ '' != existing '' @
             nat_str (length (snd (hd (bi_entries ix))) * 8) @ '' bits'')
      else Inr (ix\<lparr>bi_entries := entry_upsert i (\<lambda>_. code) code (bi_entries ix)\<rparr>))"

definition cmp_distance :: "u128 \<times> u32 \<Rightarrow> u128 \<times> u32 \<Rightarrow> ordering" where
  "cmp_distance a b = cmp_lin (snd a) (snd b)"

definition binary_index_search ::
    "binary_code_index \<Rightarrow> u8 list \<Rightarrow> nat \<Rightarrow> string + (u128 \<times> u32) list" where
  "binary_index_search ix query k = Inr (nearest hamming cmp_distance (bi_entries ix) query k)"

text \<open>\<open>SemanticSignature::binary_code_bytes\<close>: the two words in little-endian order.\<close>

definition to_le_bytes :: "u64 \<Rightarrow> u8 list" where
  "to_le_bytes w = map (\<lambda>i. ucast (drop_bit (8 * i) w)) [0..<8]"

definition binary_code_bytes :: "semantic_signature \<Rightarrow> u8 list" where
  "binary_code_bytes s = to_le_bytes (ss_binary_code s ! 0) @ to_le_bytes (ss_binary_code s ! 1)"

section \<open>Dense vectors (semantic/hnsw.rs, vector_index.rs)\<close>

record flat_vector_index =
  fv_entries :: "(u128 \<times> f32 list) list"

definition flat_index_new :: flat_vector_index where
  "flat_index_new = \<lparr>fv_entries = []\<rparr>"

definition l2_squared :: "f32 list \<Rightarrow> f32 list \<Rightarrow> f32" where
  "l2_squared a b = foldl (+) (F32 0) (map (\<lambda>(x, y). f32_powi (x - y) 2) (zip a b))"

definition flat_index_len :: "flat_vector_index \<Rightarrow> nat" where
  "flat_index_len ix = length (fv_entries ix)"

definition flat_index_insert ::
    "flat_vector_index \<Rightarrow> u128 \<Rightarrow> f32 list \<Rightarrow> string + flat_vector_index" where
  "flat_index_insert ix i v = Inr (ix\<lparr>fv_entries := entry_upsert i (\<lambda>_. v) v (fv_entries ix)\<rparr>)"

definition cmp_f32_asc :: "'a \<times> f32 \<Rightarrow> 'a \<times> f32 \<Rightarrow> ordering" where
  "cmp_f32_asc a b = f32_partial_cmp_or_eq (snd a) (snd b)"

definition flat_index_search ::
    "flat_vector_index \<Rightarrow> f32 list \<Rightarrow> nat \<Rightarrow> string + (u128 \<times> f32) list" where
  "flat_index_search ix query k = Inr (nearest l2_squared cmp_f32_asc (fv_entries ix) query k)"

definition flat_index_remove :: "flat_vector_index \<Rightarrow> u128 \<Rightarrow> string + flat_vector_index" where
  "flat_index_remove ix i = Inr (ix\<lparr>fv_entries := filter (\<lambda>(j, _). j \<noteq> i) (fv_entries ix)\<rparr>)"

section \<open>The indexes meet the contract\<close>

interpretation bin: nearest_search cmp_distance "\<lambda>_. True" hamming
  "\<lambda>es q k. nearest hamming cmp_distance es q k"
  by unfold_locales (auto simp: cmp_distance_def)

lemma cmp_f32_asc_le:
  "snd a \<noteq> F32_NaN \<Longrightarrow> snd b \<noteq> F32_NaN \<Longrightarrow> cmp_f32_asc a b \<noteq> OGreater \<longleftrightarrow> snd a \<le> snd b"
  by (simp add: cmp_f32_asc_def f32_cmp_simps f32_not_less)

interpretation dense: nearest_search cmp_f32_asc "\<lambda>x. snd x \<noteq> F32_NaN" l2_squared
  "\<lambda>es q k. nearest l2_squared cmp_f32_asc es q k"
proof unfold_locales
  fix x y z :: "u128 \<times> f32"
  assume c: "snd x \<noteq> F32_NaN" "snd y \<noteq> F32_NaN"
  show "cmp_f32_asc x y = OGreater \<Longrightarrow> cmp_f32_asc y x \<noteq> OGreater"
    by (auto simp: cmp_f32_asc_def f32_partial_cmp_or_eq_def f32_less_le split: if_splits)
  show "snd z \<noteq> F32_NaN \<Longrightarrow> cmp_f32_asc x y \<noteq> OGreater \<Longrightarrow> cmp_f32_asc y z \<noteq> OGreater \<Longrightarrow>
      cmp_f32_asc x z \<noteq> OGreater"
    using c by (auto simp: cmp_f32_asc_le intro: f32_le_trans)
qed simp

section \<open>Hamming distance\<close>

lemma sum_list_of_nat: "sum_list (map (\<lambda>x. of_nat (f x)) xs) = of_nat (sum_list (map f xs))"
  by (induction xs) auto

lemma hamming_exact:
  assumes "length a < 2 ^ 28"
  shows "unat (hamming a b) =
    sum_list (map (\<lambda>(x, y). length (filter (\<lambda>i. bit x i \<noteq> bit y i) [0..<8])) (zip a b))"
proof -
  let ?f = "\<lambda>p :: u8 \<times> u8. length (filter (\<lambda>i. bit (fst p) i \<noteq> bit (snd p) i) [0..<8])"
  have b8: "?f p \<le> 8" for p using length_filter_le[of _ "[0..<8]"] by (metis length_upt diff_zero)
  have "sum_list (map ?f ps) \<le> 8 * length ps" for ps
    using b8 by (induction ps) (auto intro: add_mono)
  from this[of "zip a b"] have "sum_list (map ?f (zip a b)) < 2 ^ 32" using assms by simp
  moreover have "hamming a b = of_nat (sum_list (map ?f (zip a b)))"
    unfolding hamming_def sum_list_of_nat[symmetric]
    by (intro arg_cong[where f = sum_list] map_cong)
      (auto simp: u8_count_ones_def bit_xor_iff intro!: arg_cong[where f = "\<lambda>n. of_nat n :: u32"]
        arg_cong[where f = length] filter_cong)
  ultimately have "unat (hamming a b) = sum_list (map ?f (zip a b))"
    by (simp add: unat_of_nat take_bit_nat_eq_self)
  moreover have "?f = (\<lambda>(x, y). length (filter (\<lambda>i. bit x i \<noteq> bit y i) [0..<8]))"
    by (rule ext) (simp add: case_prod_beta)
  ultimately show ?thesis by simp
qed

section \<open>Invariants of the indexes\<close>

definition binary_index_ok :: "binary_code_index \<Rightarrow> bool" where
  "binary_index_ok ix \<longleftrightarrow> distinct (map fst (bi_entries ix)) \<and>
     list_all (\<lambda>(_, c). length c = length (snd (hd (bi_entries ix)))) (bi_entries ix)"

lemma set_entry_upsert:
  "set (entry_upsert i (\<lambda>_. v) v es) \<subseteq> insert (i, v) (set es)"
  by (induction es) (auto split: if_splits)

lemma map_of_entry_upsert_const: "map_of (entry_upsert i (\<lambda>_. v) v es) = (map_of es)(i \<mapsto> v)"
  by (auto simp: map_of_entry_upsert split: option.splits)

lemma binary_insert_ok:
  assumes ok: "binary_index_ok ix" and ins: "binary_index_insert ix i code = Inr ix'"
  shows "binary_index_ok ix'" and "map_of (bi_entries ix') = (map_of (bi_entries ix))(i \<mapsto> code)"
proof -
  let ?es = "bi_entries ix"
  have len: "?es \<noteq> [] \<Longrightarrow> length code = length (snd (hd ?es))"
    and ix': "ix' = ix\<lparr>bi_entries := entry_upsert i (\<lambda>_. code) code ?es\<rparr>"
    using ins by (auto simp: binary_index_insert_def split: if_splits)
  have "length c = length code" if "(j, c) \<in> set (bi_entries ix')" for j c
  proof -
    from that have "(j, c) \<in> insert (i, code) (set ?es)"
      using set_entry_upsert[of i code ?es] by (auto simp: ix')
    moreover have "length c = length code" if mem: "(j, c) \<in> set ?es"
    proof -
      have "?es \<noteq> []" using mem by auto
      then show ?thesis using ok len mem by (fastforce simp: binary_index_ok_def list_all_iff)
    qed
    ultimately show ?thesis by auto
  qed
  moreover from this have "bi_entries ix' \<noteq> [] \<Longrightarrow> length (snd (hd (bi_entries ix'))) = length code"
    by (metis hd_in_set prod.collapse)
  moreover have "bi_entries ix' \<noteq> []" by (cases ?es) (auto simp: ix' split: if_splits)
  ultimately show "binary_index_ok ix'"
    using ok by (auto simp: binary_index_ok_def ix' distinct_entry_upsert list_all_iff)
  show "map_of (bi_entries ix') = (map_of ?es)(i \<mapsto> code)"
    by (simp add: ix' map_of_entry_upsert_const)
qed

lemma binary_inserts_ok:
  "binary_index_ok ix \<Longrightarrow>
   binary_index_ok (fold (\<lambda>(i, c) ix. case binary_index_insert ix i c of Inr ix' \<Rightarrow> ix' | Inl _ \<Rightarrow> ix) ops ix)"
proof (induction ops arbitrary: ix)
  case (Cons op ops)
  obtain i c where op: "op = (i, c)" by (cases op)
  have "binary_index_ok (case binary_index_insert ix i c of Inr ix' \<Rightarrow> ix' | Inl _ \<Rightarrow> ix)"
    using Cons.prems binary_insert_ok(1)[OF Cons.prems] by (auto split: sum.split)
  then show ?case using Cons.IH by (simp add: op)
qed simp

section \<open>Properties\<close>

text \<open>The binary-code index, filled by any sequence of insertions (those with a code of another
  length are rejected), holds one code per identifier, all of one length; a search returns
  \<open>min k n\<close> entries in ascending Hamming distance, and no entry left out is nearer than one
  returned.\<close>

theorem binary_index_search_nearest:
  fixes ops :: "(u128 \<times> u8 list) list"
  defines "ix \<equiv> fold (\<lambda>(i, c) ix. case binary_index_insert ix i c of Inr ix' \<Rightarrow> ix' | Inl _ \<Rightarrow> ix) ops
      binary_index_new"
  shows "binary_index_ok ix \<and> (\<exists>res rest. binary_index_search ix query k = Inr res \<and>
    length res = min k (binary_index_len ix) \<and> sorted (map snd res) \<and>
    mset (map (\<lambda>(i, c). (i, hamming query c)) (bi_entries ix)) = mset res + mset rest \<and>
    list_all (\<lambda>x. list_all (\<lambda>y. snd x \<le> snd y) rest) res)"
proof -
  have ok: "binary_index_ok ix"
    unfolding ix_def by (rule binary_inserts_ok) (simp add: binary_index_ok_def binary_index_new_def)
  note n = bin.search_nearest[of query "bi_entries ix" k]
  have le: "cmp_distance x y \<noteq> OGreater \<longleftrightarrow> snd x \<le> snd y" for x y
    by (auto simp: cmp_distance_def)
  obtain rest where rest: "mset (map (\<lambda>(i, c). (i, hamming query c)) (bi_entries ix)) =
      mset (nearest hamming cmp_distance (bi_entries ix) query k) + mset rest"
    "\<forall>x \<in> set (nearest hamming cmp_distance (bi_entries ix) query k). \<forall>y \<in> set rest. snd x \<le> snd y"
    using n(3) by (auto simp: le list_all_iff)
  moreover have "sorted (map snd (nearest hamming cmp_distance (bi_entries ix) query k))"
    using n(2) by (simp add: le sorted_map list_all_iff)
  moreover have "length (nearest hamming cmp_distance (bi_entries ix) query k) = min k (binary_index_len ix)"
    using n(1) by (simp add: binary_index_len_def list_all_iff)
  ultimately show ?thesis
    using ok unfolding binary_index_search_def list_all_iff by blast
qed

text \<open>A search of the dense index, when no distance is undefined, returns \<open>min k n\<close> entries in
  ascending squared distance, and no entry left out is nearer than one returned.\<close>

theorem flat_index_search_nearest:
  assumes "list_all (\<lambda>(i, v). l2_squared query v \<noteq> F32_NaN) (fv_entries ix)"
  shows "\<exists>res rest. flat_index_search ix query k = Inr res \<and>
    length res = min k (flat_index_len ix) \<and> sorted_wrt (\<lambda>a b. snd a \<le> snd b) res \<and>
    mset (map (\<lambda>(i, v). (i, l2_squared query v)) (fv_entries ix)) = mset res + mset rest \<and>
    list_all (\<lambda>x. list_all (\<lambda>y. snd x \<le> snd y) rest) res"
proof -
  let ?scored = "map (\<lambda>(i, v). (i, l2_squared query v)) (fv_entries ix)"
  let ?res = "nearest l2_squared cmp_f32_asc (fv_entries ix) query k"
  have nn: "list_all (\<lambda>x. snd x \<noteq> F32_NaN) ?scored"
    using assms by (auto simp: list_all_iff)
  note n = dense.search_nearest[OF nn, of k]
  obtain rest where rest: "mset ?scored = mset ?res + mset rest"
    "\<forall>x \<in> set ?res. \<forall>y \<in> set rest. cmp_f32_asc x y \<noteq> OGreater" using n(3) by blast
  have "set ?scored = set ?res \<union> set rest"
    using arg_cong[OF rest(1), of set_mset] by (simp only: set_mset_mset set_mset_union)
  then have valid: "\<And>x. x \<in> set ?res \<union> set rest \<Longrightarrow> snd x \<noteq> F32_NaN"
    using nn unfolding list_all_iff by blast
  have "sorted_wrt (\<lambda>a b. snd a \<le> snd b) ?res"
    using n(2) by (rule sorted_wrt_mono_rel[rotated]) (use valid cmp_f32_asc_le in blast)
  moreover have "\<forall>x \<in> set ?res. \<forall>y \<in> set rest. snd x \<le> snd y"
    using rest(2) valid cmp_f32_asc_le by (meson UnCI)
  ultimately show ?thesis
    using n(1) rest(1) unfolding flat_index_search_def flat_index_len_def list_all_iff by blast
qed

theorem flat_index_search_nearest_witness:
  "\<exists>res rest. flat_index_search \<lparr>fv_entries = [(1, [F32 1]), (2, [F32 0])]\<rparr> [F32 0] 1 = Inr res \<and>
     length res = 1 \<and>
     mset [(1, l2_squared [F32 0] [F32 1]), (2, l2_squared [F32 0] [F32 0])] = mset res + mset rest"
proof -
  have "list_all (\<lambda>(i, v). l2_squared [F32 0] v \<noteq> F32_NaN)
      (fv_entries \<lparr>fv_entries = [(1 :: u128, [F32 1]), (2, [F32 0])]\<rparr>)"
    by code_simp
  from flat_index_search_nearest[OF this, of 1]
  show ?thesis by (auto simp: flat_index_len_def)
qed

end
