(* ===== verification/Store_Tables.thy ===== *)
theory Store_Tables
  imports Core_Types
begin

text \<open>
  The persistent store of \<open>hippmem-store\<close>: table definitions and errors (\<open>store.rs\<close>), the memory
  log (\<open>memory_log.rs\<close>), the key-value store (\<open>kv.rs\<close>), the association graph (\<open>graph.rs\<close>) and the
  activation log (\<open>activation_log.rs\<close>).

  Two third-party packages are parameters of the model. The record \<open>redb\<close> is the embedded
  database: a database state of any type \<open>'d\<close>, the operations on the cells of its tables, and the
  faults a transaction may run into; \<open>redb_ok\<close> is the documented behaviour the code relies on
  (a table is an ordered map, cells are independent). An operation that fails inside a write
  transaction drops the transaction, which aborts it: the state stays as it was. The record
  \<open>bincode\<close> holds the codec of each stored type; \<open>bincode_ok\<close> says that encoding succeeds and that
  decoding inverts it. \<open>'b\<close> is the type of the encoded bytes, which the store never looks into.
\<close>

section \<open>Results\<close>

text \<open>\<open>Result::and_then\<close> (the operator \<open>?\<close>), and a loop whose body may return early with an error.\<close>

primrec and_then :: "'e + 'a \<Rightarrow> ('a \<Rightarrow> 'e + 'b) \<Rightarrow> 'e + 'b" where
  "and_then (Inl e) f = Inl e"
| "and_then (Inr a) f = f a"

fun try_for_each :: "('a \<Rightarrow> 's \<Rightarrow> 'e + 's) \<Rightarrow> 'a list \<Rightarrow> 's \<Rightarrow> 'e + 's" where
  "try_for_each f [] s = Inr s"
| "try_for_each f (x # xs) s = and_then (f x s) (try_for_each f xs)"

primrec map_err :: "('e \<Rightarrow> 'f) \<Rightarrow> 'e + 'a \<Rightarrow> 'f + 'a" where
  "map_err f (Inl e) = Inl (f e)"
| "map_err f (Inr a) = Inr a"

primrec result_ok :: "'e + 'a \<Rightarrow> 'a option" where
  "result_ok (Inl e) = None"
| "result_ok (Inr a) = Some a"

lemma and_then_Inr_iff: "and_then x f = Inr b \<longleftrightarrow> (\<exists>a. x = Inr a \<and> f a = Inr b)"
  by (cases x) auto

lemma try_for_each_append:
  "try_for_each f (xs @ ys) s = and_then (try_for_each f xs s) (try_for_each f ys)"
proof (induction xs arbitrary: s)
  case (Cons x xs)
  then show ?case by (cases "f x s") simp_all
qed simp

text \<open>A loop whose body always succeeds is a fold.\<close>

lemma try_for_each_fold:
  assumes "\<And>x s. x \<in> set xs \<Longrightarrow> f x s = Inr (g x s)"
  shows "try_for_each f xs s = Inr (fold g xs s)"
  using assms by (induction xs arbitrary: s) auto

section \<open>Tables (store.rs)\<close>

datatype u128_table =
    MEMORY_LOG | MEMORY_KV | DENSE_VECTORS | LINK_OVERLAY | SUMMARY_OVERLAY
  | CORRECTION_OVERLAY | ACTIVATION_LOG | CONSOLIDATION_QUEUE

datatype u64_table =
    QUERY_CONTEXT | CONTEXT_LINKS | RETRIEVAL_PATHS | ENTITY_INDEX | TOPIC_INDEX | GOAL_INDEX
  | EVENT_INDEX | CAUSAL_INDEX

datatype u32_table = TEMPORAL_INDEX

datatype table_def = T128 u128_table | T64 u64_table | T32 u32_table

text \<open>A cell is a key of a table.\<close>

datatype cell = C128 u128_table u128 | C64 u64_table u64 | C32 u32_table u32

definition U128_TABLES :: "u128_table list" where
  "U128_TABLES = [MEMORY_LOG, MEMORY_KV, LINK_OVERLAY, SUMMARY_OVERLAY, CORRECTION_OVERLAY,
     ACTIVATION_LOG, CONSOLIDATION_QUEUE]"

definition U64_TABLES :: "u64_table list" where
  "U64_TABLES = [ENTITY_INDEX, TOPIC_INDEX, GOAL_INDEX, EVENT_INDEX, CAUSAL_INDEX]"

definition U32_TABLES :: "u32_table list" where
  "U32_TABLES = [TEMPORAL_INDEX]"

section \<open>The embedded database\<close>

text \<open>The calls of a transaction, and a fault: the call that fails with the text of its error.\<close>

datatype redb_call = Begin | OpenTable | Access | CommitTxn

record redb_fault =
  fault_call :: redb_call
  fault_text :: string

record ('d, 'b) redb =
  db_get :: "'d \<Rightarrow> cell \<Rightarrow> 'b option"
  db_insert :: "cell \<Rightarrow> 'b \<Rightarrow> 'd \<Rightarrow> 'd"
  db_remove :: "cell \<Rightarrow> 'd \<Rightarrow> 'd"
  db_iter128 :: "u128_table \<Rightarrow> 'd \<Rightarrow> (u128 \<times> 'b) list"
  db_iter64 :: "u64_table \<Rightarrow> 'd \<Rightarrow> (u64 \<times> 'b) list"
  db_iter32 :: "u32_table \<Rightarrow> 'd \<Rightarrow> (u32 \<times> 'b) list"
  write_fault :: "'d \<Rightarrow> redb_fault option"
  read_fault :: "'d \<Rightarrow> table_def \<Rightarrow> redb_fault option"

definition iter_ok :: "('k::linorder \<Rightarrow> 'b option) \<Rightarrow> ('k \<times> 'b) list \<Rightarrow> bool" where
  "iter_ok get xs \<longleftrightarrow> sorted_wrt (<) (map fst xs) \<and> (\<forall>k v. (k, v) \<in> set xs \<longleftrightarrow> get k = Some v)"

definition redb_ok :: "('d, 'b) redb \<Rightarrow> bool" where
  "redb_ok r \<longleftrightarrow>
     (\<forall>d c v c'. db_get r (db_insert r c v d) c' = (if c' = c then Some v else db_get r d c')) \<and>
     (\<forall>d c c'. db_get r (db_remove r c d) c' = (if c' = c then None else db_get r d c')) \<and>
     (\<forall>d t. iter_ok (\<lambda>k. db_get r d (C128 t k)) (db_iter128 r t d)) \<and>
     (\<forall>d t. iter_ok (\<lambda>k. db_get r d (C64 t k)) (db_iter64 r t d)) \<and>
     (\<forall>d t. iter_ok (\<lambda>k. db_get r d (C32 t k)) (db_iter32 r t d))"

text \<open>No transaction on the database fails.\<close>

definition fault_free :: "('d, 'b) redb \<Rightarrow> bool" where
  "fault_free r \<longleftrightarrow> (\<forall>d. write_fault r d = None) \<and> (\<forall>d t. read_fault r d t = None)"

text \<open>
  A write transaction: its body returns an error or the new state; a fault at the commit comes
  after the errors of the body, any other fault ends the body.
\<close>

definition write_txn ::
    "('d, 'b) redb \<Rightarrow> (redb_fault \<Rightarrow> 'e) \<Rightarrow> 'd \<Rightarrow> ('e + 'd) \<Rightarrow> 'e + 'd" where
  "write_txn r conv d body =
     (case write_fault r d of
        None \<Rightarrow> body
      | Some f \<Rightarrow>
          (case body of
             Inl e \<Rightarrow> (if fault_call f = CommitTxn then Inl e else Inl (conv f))
           | Inr d' \<Rightarrow> Inl (conv f)))"

definition read_txn ::
    "('d, 'b) redb \<Rightarrow> (redb_fault \<Rightarrow> 'e) \<Rightarrow> 'd \<Rightarrow> table_def \<Rightarrow> ('e + 'a) \<Rightarrow> 'e + 'a" where
  "read_txn r conv d t body =
     (case read_fault r d t of None \<Rightarrow> body | Some f \<Rightarrow> Inl (conv f))"

section \<open>Store errors (store.rs)\<close>

text \<open>The last constructor stands for a Rust panic (\<open>expect\<close>), which is not a value of the source.\<close>

datatype store_error =
    SE_Database string | SE_Transaction string | SE_Table string | SE_Commit string
  | SE_Storage string | SE_Io string | RecordExists u128 | SE_Panic string

definition store_error_of :: "redb_fault \<Rightarrow> store_error" where
  "store_error_of f =
     (case fault_call f of
        Begin \<Rightarrow> SE_Transaction (fault_text f)
      | OpenTable \<Rightarrow> SE_Table (fault_text f)
      | Access \<Rightarrow> SE_Storage (fault_text f)
      | CommitTxn \<Rightarrow> SE_Commit (fault_text f))"

section \<open>Codecs\<close>

record ('a, 'b) codec =
  enc :: "'a \<Rightarrow> string + 'b"
  dec :: "'b \<Rightarrow> string + 'a"

definition codec_ok :: "('a, 'b) codec \<Rightarrow> bool" where
  "codec_ok c \<longleftrightarrow> (\<forall>x. \<exists>b. enc c x = Inr b \<and> dec c b = Inr x)"

lemma codec_okE:
  assumes "codec_ok c"
  obtains b where "enc c x = Inr b" and "dec c b = Inr x"
  using assms unfolding codec_ok_def by blast

record activation_record =
  retrieval_id :: u64
  used_memory_ids :: "u128 list"
  signal :: string
  recorded_at_ms :: i64

record legacy_activation_record =
  legacy_retrieval_id :: u64
  legacy_used_memory_ids :: "u64 list"
  legacy_signal :: string
  legacy_recorded_at_ms :: i64

record query_context =
  entity_hashes :: "u64 list"
  topic_hashes :: "u64 list"

record context_link =
  cl_memory_id :: u128
  cl_strength :: f32
  cl_review_count :: u32
  cl_last_reviewed_at_ms :: i64

record retrieval_path =
  path_from :: u128
  path_to :: u128

record 'b bincode =
  c_unit :: "(memory_unit, 'b) codec"
  c_links :: "(association_link list, 'b) codec"
  c_ids :: "(u128 list, 'b) codec"
  c_activation :: "(activation_record, 'b) codec"
  c_legacy :: "(legacy_activation_record, 'b) codec"
  c_context :: "(query_context, 'b) codec"
  c_context_links :: "(context_link list, 'b) codec"
  c_paths :: "(retrieval_path list, 'b) codec"
  c_vector :: "(f32 list, 'b) codec"

definition bincode_ok :: "'b bincode \<Rightarrow> bool" where
  "bincode_ok bc \<longleftrightarrow> codec_ok (c_unit bc) \<and> codec_ok (c_links bc) \<and> codec_ok (c_ids bc) \<and>
     codec_ok (c_activation bc) \<and> codec_ok (c_context bc) \<and> codec_ok (c_context_links bc) \<and>
     codec_ok (c_paths bc) \<and> codec_ok (c_vector bc)"

lemma bincode_okD:
  assumes "bincode_ok bc"
  shows "codec_ok (c_unit bc)" "codec_ok (c_links bc)" "codec_ok (c_ids bc)"
    "codec_ok (c_activation bc)" "codec_ok (c_context bc)" "codec_ok (c_context_links bc)"
    "codec_ok (c_paths bc)" "codec_ok (c_vector bc)"
  using assms by (auto simp: bincode_ok_def)

section \<open>The memory log (memory_log.rs)\<close>

definition append_body ::
    "('d, 'b) redb \<Rightarrow> u128 \<Rightarrow> 'b \<Rightarrow> 'd \<Rightarrow> store_error + 'd" where
  "append_body r i data d =
     (if db_get r d (C128 MEMORY_LOG i) \<noteq> None then Inl (RecordExists i)
      else Inr (db_insert r (C128 MEMORY_LOG i) data d))"

definition memory_log_append ::
    "('d, 'b) redb \<Rightarrow> u128 \<Rightarrow> 'b \<Rightarrow> 'd \<Rightarrow> store_error + 'd" where
  "memory_log_append r i data d = write_txn r store_error_of d (append_body r i data d)"

definition memory_log_get :: "('d, 'b) redb \<Rightarrow> u128 \<Rightarrow> 'd \<Rightarrow> store_error + 'b option" where
  "memory_log_get r i d =
     read_txn r store_error_of d (T128 MEMORY_LOG) (Inr (db_get r d (C128 MEMORY_LOG i)))"

definition memory_log_read_all :: "('d, 'b) redb \<Rightarrow> 'd \<Rightarrow> store_error + (u128 \<times> 'b) list" where
  "memory_log_read_all r d =
     read_txn r store_error_of d (T128 MEMORY_LOG) (Inr (db_iter128 r MEMORY_LOG d))"

section \<open>The key-value store (kv.rs)\<close>

definition kv_put :: "('d, 'b) redb \<Rightarrow> u128 \<Rightarrow> 'b \<Rightarrow> 'd \<Rightarrow> store_error + 'd" where
  "kv_put r i data d =
     write_txn r store_error_of d (Inr (db_insert r (C128 MEMORY_KV i) data d))"

definition kv_get :: "('d, 'b) redb \<Rightarrow> u128 \<Rightarrow> 'd \<Rightarrow> store_error + 'b option" where
  "kv_get r i d =
     read_txn r store_error_of d (T128 MEMORY_KV) (Inr (db_get r d (C128 MEMORY_KV i)))"

section \<open>The association graph (graph.rs)\<close>

text \<open>The prefix of the error text names the call.\<close>

definition call_error :: "string \<Rightarrow> string \<Rightarrow> redb_fault \<Rightarrow> string" where
  "call_error begin_name access_name f =
     (case fault_call f of
        Begin \<Rightarrow> begin_name
      | OpenTable \<Rightarrow> ''open_table''
      | Access \<Rightarrow> access_name
      | CommitTxn \<Rightarrow> ''commit'') @ '': '' @ fault_text f"

definition put_outgoing ::
    "('d, 'b) redb \<Rightarrow> 'b bincode \<Rightarrow> memory_id \<Rightarrow> association_link list \<Rightarrow> 'd \<Rightarrow> string + 'd" where
  "put_outgoing r bc node_id ls d =
     and_then (enc (c_links bc) ls) (\<lambda>data.
       write_txn r (call_error ''begin_write'' ''insert'') d
         (Inr (db_insert r (C128 LINK_OVERLAY (as_u128 node_id)) data d)))"

definition get_outgoing ::
    "('d, 'b) redb \<Rightarrow> 'b bincode \<Rightarrow> memory_id \<Rightarrow> 'd \<Rightarrow> string + association_link list" where
  "get_outgoing r bc node_id d =
     read_txn r (call_error ''begin_read'' ''get'') d (T128 LINK_OVERLAY)
       (case db_get r d (C128 LINK_OVERLAY (as_u128 node_id)) of
          Some v \<Rightarrow> map_err (\<lambda>e. ''decode: '' @ e) (dec (c_links bc) v)
        | None \<Rightarrow> Inr [])"

section \<open>The activation log (activation_log.rs)\<close>

definition upgrade_record :: "legacy_activation_record \<Rightarrow> activation_record" where
  "upgrade_record l =
     \<lparr>retrieval_id = legacy_retrieval_id l,
      used_memory_ids = map ucast (legacy_used_memory_ids l),
      signal = legacy_signal l, recorded_at_ms = legacy_recorded_at_ms l\<rparr>"

definition decode_record :: "'b bincode \<Rightarrow> 'b \<Rightarrow> activation_record option" where
  "decode_record bc data =
     (case dec (c_activation bc) data of
        Inr rec \<Rightarrow> Some rec
      | Inl _ \<Rightarrow> map_option upgrade_record (result_ok (dec (c_legacy bc) data)))"

text \<open>\<open>(retrieval_id as u128) << 32 | (recorded_at_ms as u128 & 0xFFFF_FFFF)\<close>; the cast of an
  \<open>i64\<close> to \<open>u128\<close> sign-extends.\<close>

unbundle bit_operations_syntax

definition activation_key :: "activation_record \<Rightarrow> u128" where
  "activation_key rec =
     (push_bit 32 (ucast (retrieval_id rec)) OR
      (word_of_int (recorded_at_ms rec) AND 0xFFFFFFFF))"

definition record_activation ::
    "('d, 'b) redb \<Rightarrow> 'b bincode \<Rightarrow> activation_record \<Rightarrow> 'd \<Rightarrow> string + 'd" where
  "record_activation r bc rec d =
     and_then (enc (c_activation bc) rec) (\<lambda>data.
       write_txn r (call_error ''begin_write'' ''insert'') d
         (Inr (db_insert r (C128 ACTIVATION_LOG (activation_key rec)) data d)))"

definition read_all_activations ::
    "('d, 'b) redb \<Rightarrow> 'b bincode \<Rightarrow> 'd \<Rightarrow> string + activation_record list" where
  "read_all_activations r bc d =
     read_txn r (call_error ''begin_read'' ''iter'') d (T128 ACTIVATION_LOG)
       (Inr (List.map_filter (\<lambda>(_, v). decode_record bc v) (db_iter128 r ACTIVATION_LOG d)))"

section \<open>Statistics and opening (store.rs)\<close>

record store_stats =
  memory_log_count :: nat
  memory_kv_count :: nat
  entity_index_size :: nat
  topic_index_size :: nat
  goal_index_size :: nat
  event_index_size :: nat
  temporal_index_size :: nat
  causal_index_size :: nat

definition table_len128 :: "('d, 'b) redb \<Rightarrow> 'd \<Rightarrow> u128_table \<Rightarrow> store_error + nat" where
  "table_len128 r d t = read_txn r store_error_of d (T128 t) (Inr (length (db_iter128 r t d)))"

definition table_len64 :: "('d, 'b) redb \<Rightarrow> 'd \<Rightarrow> u64_table \<Rightarrow> store_error + nat" where
  "table_len64 r d t = read_txn r store_error_of d (T64 t) (Inr (length (db_iter64 r t d)))"

definition table_len32 :: "('d, 'b) redb \<Rightarrow> 'd \<Rightarrow> u32_table \<Rightarrow> store_error + nat" where
  "table_len32 r d t = read_txn r store_error_of d (T32 t) (Inr (length (db_iter32 r t d)))"

definition stats :: "('d, 'b) redb \<Rightarrow> 'd \<Rightarrow> store_error + store_stats" where
  "stats r d =
     and_then (table_len128 r d MEMORY_LOG) (\<lambda>log_n.
     and_then (table_len128 r d MEMORY_KV) (\<lambda>kv_n.
     and_then (table_len64 r d ENTITY_INDEX) (\<lambda>entity_n.
     and_then (table_len64 r d TOPIC_INDEX) (\<lambda>topic_n.
     and_then (table_len64 r d GOAL_INDEX) (\<lambda>goal_n.
     and_then (table_len64 r d EVENT_INDEX) (\<lambda>event_n.
     and_then (table_len32 r d TEMPORAL_INDEX) (\<lambda>temporal_n.
     and_then (table_len64 r d CAUSAL_INDEX) (\<lambda>causal_n.
       Inr \<lparr>memory_log_count = log_n, memory_kv_count = kv_n, entity_index_size = entity_n,
         topic_index_size = topic_n, goal_index_size = goal_n, event_index_size = event_n,
         temporal_index_size = temporal_n, causal_index_size = causal_n\<rparr>))))))))"

section \<open>Laws of the database and of transactions\<close>

lemma redb_get [simp]:
  assumes "redb_ok r"
  shows "db_get r (db_insert r c v d) c' = (if c' = c then Some v else db_get r d c')"
    and "db_get r (db_remove r c d) c' = (if c' = c then None else db_get r d c')"
  using assms by (simp_all add: redb_ok_def)

lemma redb_iter:
  assumes "redb_ok r"
  shows "(k128, v) \<in> set (db_iter128 r t128 d) \<longleftrightarrow> db_get r d (C128 t128 k128) = Some v"
    and "(k64, v) \<in> set (db_iter64 r t64 d) \<longleftrightarrow> db_get r d (C64 t64 k64) = Some v"
    and "(k32, v) \<in> set (db_iter32 r t32 d) \<longleftrightarrow> db_get r d (C32 t32 k32) = Some v"
  using assms unfolding redb_ok_def iter_ok_def by blast+

lemma redb_iter_sorted:
  assumes "redb_ok r"
  shows "sorted_wrt (<) (map fst (db_iter128 r t128 d))"
    and "sorted_wrt (<) (map fst (db_iter64 r t64 d))"
    and "sorted_wrt (<) (map fst (db_iter32 r t32 d))"
  using assms unfolding redb_ok_def iter_ok_def by blast+

lemma sorted_fst_unique:
  fixes xs ys :: "('k::linorder \<times> 'b) list"
  assumes "sorted_wrt (<) (map fst xs)" and "sorted_wrt (<) (map fst ys)" and "set xs = set ys"
  shows "xs = ys"
  using assms
proof (induction xs arbitrary: ys)
  case (Cons x xs)
  then obtain y ys' where ys: "ys = y # ys'" by (cases ys) auto
  have "x = y"
  proof (rule ccontr)
    assume "x \<noteq> y"
    with Cons.prems(3) ys have "x \<in> set ys'" and "y \<in> set xs" by auto
    then show False using Cons.prems(1,2) ys by fastforce
  qed
  moreover from this have "set xs = set ys'"
    using Cons.prems ys by (auto dest: bspec)
  ultimately show ?case using Cons.IH[of ys'] Cons.prems ys by simp
qed simp

lemma write_txn_Inr: "write_txn r conv d body = Inr d' \<longleftrightarrow> write_fault r d = None \<and> body = Inr d'"
  by (auto simp: write_txn_def split: option.splits sum.splits if_splits)

lemma read_txn_Inr: "read_txn r conv d t body = Inr x \<longleftrightarrow> read_fault r d t = None \<and> body = Inr x"
  by (auto simp: read_txn_def split: option.splits)

lemma fault_free_txn [simp]:
  assumes "fault_free r"
  shows "write_txn r conv d body = body" and "read_txn r conv d t body' = body'"
  using assms by (simp_all add: fault_free_def write_txn_def read_txn_def)

text \<open>
  Two database states with the same cells cannot be told apart by the operations.
\<close>

definition same_cells :: "('d, 'b) redb \<Rightarrow> 'd \<Rightarrow> 'd \<Rightarrow> (cell \<Rightarrow> bool) \<Rightarrow> bool" where
  "same_cells r d d' P \<longleftrightarrow> (\<forall>c. P c \<longrightarrow> db_get r d' c = db_get r d c)"

lemma iter128_cong:
  assumes "redb_ok r" and "\<And>k. db_get r d' (C128 t k) = db_get r d (C128 t k)"
  shows "db_iter128 r t d' = db_iter128 r t d"
  using assms by (intro sorted_fst_unique) (auto simp: redb_iter redb_iter_sorted)

section \<open>A database in memory\<close>

text \<open>
  A concrete database and codec for the instances of the theorems: the state is a list of cells
  with their values, the encoded form of a value is a tagged copy of it.
\<close>

datatype blob =
    B_unit memory_unit | B_links "association_link list" | B_ids "u128 list"
  | B_activation activation_record | B_legacy legacy_activation_record
  | B_context query_context | B_context_links "context_link list" | B_paths "retrieval_path list"
  | B_vector "f32 list"

type_synonym cells = "(cell \<times> blob) list"

fun u128_key :: "u128_table \<Rightarrow> cell \<Rightarrow> u128 option" where
  "u128_key t (C128 t' k) = (if t' = t then Some k else None)"
| "u128_key t _ = None"

fun u64_key :: "u64_table \<Rightarrow> cell \<Rightarrow> u64 option" where
  "u64_key t (C64 t' k) = (if t' = t then Some k else None)"
| "u64_key t _ = None"

fun u32_key :: "u32_table \<Rightarrow> cell \<Rightarrow> u32 option" where
  "u32_key t (C32 t' k) = (if t' = t then Some k else None)"
| "u32_key t _ = None"

definition cells_iter :: "(cell \<Rightarrow> 'k::linorder option) \<Rightarrow> ('k \<Rightarrow> cell) \<Rightarrow> cells \<Rightarrow> ('k \<times> blob) list" where
  "cells_iter key mk d =
     map (\<lambda>k. (k, the (map_of d (mk k)))) (sort (remdups (List.map_filter (key \<circ> fst) d)))"

definition cells_redb :: "(cells, blob) redb" where
  "cells_redb =
     \<lparr>db_get = map_of,
      db_insert = (\<lambda>c v d. (c, v) # d),
      db_remove = (\<lambda>c. filter (\<lambda>(c', _). c' \<noteq> c)),
      db_iter128 = (\<lambda>t. cells_iter (u128_key t) (C128 t)),
      db_iter64 = (\<lambda>t. cells_iter (u64_key t) (C64 t)),
      db_iter32 = (\<lambda>t. cells_iter (u32_key t) (C32 t)),
      write_fault = (\<lambda>_. None), read_fault = (\<lambda>_ _. None)\<rparr>"

definition cells_bincode :: "blob bincode" where
  "cells_bincode =
     \<lparr>c_unit = \<lparr>enc = \<lambda>x. Inr (B_unit x), dec = \<lambda>b. case b of B_unit x \<Rightarrow> Inr x | _ \<Rightarrow> Inl ''unit''\<rparr>,
      c_links = \<lparr>enc = \<lambda>x. Inr (B_links x), dec = \<lambda>b. case b of B_links x \<Rightarrow> Inr x | _ \<Rightarrow> Inl ''links''\<rparr>,
      c_ids = \<lparr>enc = \<lambda>x. Inr (B_ids x), dec = \<lambda>b. case b of B_ids x \<Rightarrow> Inr x | _ \<Rightarrow> Inl ''ids''\<rparr>,
      c_activation = \<lparr>enc = \<lambda>x. Inr (B_activation x),
        dec = \<lambda>b. case b of B_activation x \<Rightarrow> Inr x | _ \<Rightarrow> Inl ''activation''\<rparr>,
      c_legacy = \<lparr>enc = \<lambda>x. Inr (B_legacy x), dec = \<lambda>b. case b of B_legacy x \<Rightarrow> Inr x | _ \<Rightarrow> Inl ''legacy''\<rparr>,
      c_context = \<lparr>enc = \<lambda>x. Inr (B_context x), dec = \<lambda>b. case b of B_context x \<Rightarrow> Inr x | _ \<Rightarrow> Inl ''context''\<rparr>,
      c_context_links = \<lparr>enc = \<lambda>x. Inr (B_context_links x),
        dec = \<lambda>b. case b of B_context_links x \<Rightarrow> Inr x | _ \<Rightarrow> Inl ''context links''\<rparr>,
      c_paths = \<lparr>enc = \<lambda>x. Inr (B_paths x), dec = \<lambda>b. case b of B_paths x \<Rightarrow> Inr x | _ \<Rightarrow> Inl ''paths''\<rparr>,
      c_vector = \<lparr>enc = \<lambda>x. Inr (B_vector x), dec = \<lambda>b. case b of B_vector x \<Rightarrow> Inr x | _ \<Rightarrow> Inl ''vector''\<rparr>\<rparr>"

lemma cells_iter_ok:
  assumes inj: "\<And>c k. key c = Some k \<longleftrightarrow> c = mk k"
  shows "iter_ok (\<lambda>k. map_of d (mk k)) (cells_iter key mk d)"
proof -
  have keys: "k \<in> set (List.map_filter (key \<circ> fst) d) \<longleftrightarrow> mk k \<in> fst ` set d" for k
  proof -
    have "k \<in> set (List.map_filter (key \<circ> fst) d) \<longleftrightarrow> (\<exists>x \<in> set d. key (fst x) = Some k)"
      by (induction d) (auto simp: List.map_filter_simps split: option.splits)
    then show ?thesis unfolding inj image_iff by metis
  qed
  define ks where "ks = sort (remdups (List.map_filter (key \<circ> fst) d))"
  have "sorted_wrt (<) ks" by (simp add: ks_def strict_sorted_iff)
  moreover have "k \<in> set ks \<longleftrightarrow> map_of d (mk k) \<noteq> None" for k
    by (simp only: ks_def set_sort set_remdups keys map_of_eq_None_iff not_not)
  ultimately show ?thesis
    unfolding iter_ok_def cells_iter_def ks_def[symmetric] by (auto simp: comp_def)
qed

lemma map_of_filter_key:
  "map_of (filter (\<lambda>(c', _). c' \<noteq> c) d) c' = (if c' = c then None else map_of d c')"
  by (induction d) auto

lemma cells_redb_ok: "redb_ok cells_redb"
proof -
  have k: "u128_key t128 c = Some k128 \<longleftrightarrow> c = C128 t128 k128"
    "u64_key t64 c = Some k64 \<longleftrightarrow> c = C64 t64 k64"
    "u32_key t32 c = Some k32 \<longleftrightarrow> c = C32 t32 k32" for t128 t64 t32 c k128 k64 k32
    by (cases c; auto)+
  show ?thesis
    by (simp add: redb_ok_def cells_redb_def cells_iter_ok k map_of_filter_key)
qed

lemma cells_fault_free: "fault_free cells_redb"
  by (simp add: fault_free_def cells_redb_def)

lemma cells_bincode_ok: "bincode_ok cells_bincode"
  by (simp add: bincode_ok_def cells_bincode_def codec_ok_def)

lemmas cells_model = cells_redb_ok cells_fault_free cells_bincode_ok

section \<open>Properties of the activation log\<close>

lemma bit_activation_key:
  "bit (activation_key rec) n \<longleftrightarrow>
     (if n < 32 then bit (recorded_at_ms rec) n else n < 128 \<and> bit (retrieval_id rec) (n - 32))"
proof -
  have m: "(0xFFFFFFFF :: u128) = mask 32" by (simp add: mask_eq_exp_minus_1)
  show ?thesis
    by (auto simp: activation_key_def m bit_simps dest: bit_imp_le_length)
qed

text \<open>Two activation records share a key exactly when they belong to the same retrieval and
  their times agree modulo \<open>2\<^sup>3\<^sup>2\<close> milliseconds (about 49.7 days).\<close>

theorem activation_key_collision:
  "activation_key a = activation_key b \<longleftrightarrow>
     retrieval_id a = retrieval_id b \<and> recorded_at_ms a mod 2 ^ 32 = recorded_at_ms b mod 2 ^ 32"
proof
  assume eq: "activation_key a = activation_key b"
  have "bit (retrieval_id a) n = bit (retrieval_id b) n" if "n < 64" for n
    using arg_cong[OF eq, of "\<lambda>w. bit w (n + 32)"] that by (simp add: bit_activation_key)
  then have "retrieval_id a = retrieval_id b" by (auto intro!: bit_word_eqI)
  moreover have "bit (recorded_at_ms a) n = bit (recorded_at_ms b) n" if "n < 32" for n
    using arg_cong[OF eq, of "\<lambda>w. bit w n"] that by (simp add: bit_activation_key)
  then have "take_bit 32 (recorded_at_ms a) = take_bit 32 (recorded_at_ms b)"
    by (auto intro!: bit_eqI simp: bit_take_bit_iff)
  ultimately show "retrieval_id a = retrieval_id b \<and>
      recorded_at_ms a mod 2 ^ 32 = recorded_at_ms b mod 2 ^ 32"
    by (simp add: take_bit_eq_mod)
next
  assume "retrieval_id a = retrieval_id b \<and>
    recorded_at_ms a mod 2 ^ 32 = recorded_at_ms b mod 2 ^ 32"
  then have r: "retrieval_id a = retrieval_id b"
    and t: "take_bit 32 (recorded_at_ms a) = take_bit 32 (recorded_at_ms b)"
    by (simp_all add: take_bit_eq_mod)
  have "bit (recorded_at_ms a) n = bit (recorded_at_ms b) n" if "n < 32" for n
    using arg_cong[OF t, of "\<lambda>w. bit w n"] that by (simp add: bit_take_bit_iff)
  then show "activation_key a = activation_key b"
    by (intro bit_word_eqI) (simp add: bit_activation_key r)
qed

lemma set_map_filter_iter:
  "set (List.map_filter (\<lambda>(_, v). f v) xs) = {y. \<exists>k v. (k, v) \<in> set xs \<and> f v = Some y}"
  by (induction xs) (auto simp: List.map_filter_simps split: option.splits)

lemma set_read_all_activations:
  assumes "redb_ok r" and "read_all_activations r bc d = Inr recs"
  shows "set recs = {rec. \<exists>k v. db_get r d (C128 ACTIVATION_LOG k) = Some v \<and>
    decode_record bc v = Some rec}"
proof -
  from assms(2) have "recs = List.map_filter (\<lambda>(_, v). decode_record bc v) (db_iter128 r ACTIVATION_LOG d)"
    by (simp add: read_all_activations_def read_txn_Inr)
  then show ?thesis by (simp add: set_map_filter_iter redb_iter[OF assms(1)])
qed

text \<open>Recording an activation keeps every stored record under another key and makes the new
  record readable; a record under the same key is overwritten; nothing else of the database
  changes. With \<open>activation_key_collision\<close>: two feedback signals on one retrieval in the same
  millisecond leave one record.\<close>

theorem record_activation_spec:
  assumes db: "redb_ok r" and bc: "bincode_ok bc" and ok: "record_activation r bc rec d = Inr d'"
    and old: "read_all_activations r bc d = Inr recs" and new: "read_all_activations r bc d' = Inr recs'"
  shows "set recs' = insert rec {rec'. \<exists>k v. k \<noteq> activation_key rec \<and>
        db_get r d (C128 ACTIVATION_LOG k) = Some v \<and> decode_record bc v = Some rec'} \<and>
      (db_get r d (C128 ACTIVATION_LOG (activation_key rec)) = None \<longrightarrow>
        set recs' = insert rec (set recs)) \<and>
      (\<forall>c. c \<noteq> C128 ACTIVATION_LOG (activation_key rec) \<longrightarrow> db_get r d' c = db_get r d c)"
    (is "?A \<and> ?B \<and> ?C")
proof (intro conjI)
  obtain b where b: "enc (c_activation bc) rec = Inr b" "dec (c_activation bc) b = Inr rec"
    using bincode_okD(4)[OF bc] by (rule codec_okE)
  then have d': "d' = db_insert r (C128 ACTIVATION_LOG (activation_key rec)) b d"
    using ok by (simp add: record_activation_def write_txn_Inr)
  have "decode_record bc b = Some rec" by (simp add: decode_record_def b)
  then show ?A
    using set_read_all_activations[OF db new] db by (auto simp: d' split: if_splits)
  then show ?B using set_read_all_activations[OF db old] by (auto, metis option.distinct(1))
  show ?C using db by (simp add: d')
qed

definition demo_activation :: "nat \<Rightarrow> u128 list \<Rightarrow> activation_record" where
  "demo_activation i ids =
     \<lparr>retrieval_id = of_nat i, used_memory_ids = ids, signal = ''Referenced'', recorded_at_ms = 5\<rparr>"

lemma cells_record:
  "record_activation cells_redb cells_bincode a [] =
     Inr [(C128 ACTIVATION_LOG (activation_key a), B_activation a)]"
  by (simp add: record_activation_def cells_fault_free) (simp add: cells_redb_def cells_bincode_def)

theorem record_activation_spec_witness:
  "map_option set (result_ok (read_all_activations cells_redb cells_bincode
     [(C128 ACTIVATION_LOG (activation_key (demo_activation 7 [1])),
       B_activation (demo_activation 7 [1]))])) = Some {demo_activation 7 [1]}"
proof -
  obtain recs where new: "read_all_activations cells_redb cells_bincode
      [(C128 ACTIVATION_LOG (activation_key (demo_activation 7 [1])),
        B_activation (demo_activation 7 [1]))] = Inr recs"
    by (simp add: read_all_activations_def cells_fault_free)
  have "read_all_activations cells_redb cells_bincode [] = Inr []"
    by (simp add: read_all_activations_def cells_fault_free)
      (simp add: cells_redb_def cells_iter_def List.map_filter_simps)
  from record_activation_spec[OF cells_redb_ok cells_bincode_ok cells_record this new]
  show ?thesis by (simp add: new) (simp add: cells_redb_def)
qed

end
