(* ===== verification/Store_Index.thy ===== *)
theory Store_Index
  imports Store_Tables
begin

text \<open>
  The inverted indexes of \<open>kv.rs\<close>: posting lists from attribute keys to memory identifiers, the
  single-transaction persistence of a memory unit and the removal of a memory from all indexes.

  The locale \<open>posting_list\<close> is the contract of a posting list: entries carry a memory identifier,
  adding an identifier appends it once. It is interpreted here for the identifier lists and in
  \<open>Store_Context\<close> for the context links, which the store removes with the same two passes.

  The relation \<open>index_rel\<close> between cells and identifiers is the abstract view of the six indexes;
  \<open>index_ops_refine\<close> shows that the operations implement set insertion and deletion on it.
\<close>

section \<open>Posting lists\<close>

definition strip_entries :: "('e \<Rightarrow> u128) \<Rightarrow> u128 \<Rightarrow> 'e list \<Rightarrow> 'e list" where
  "strip_entries key i xs = filter (\<lambda>e. key e \<noteq> i) xs"

lemma strip_entries_simps [simp]:
  "key ` set (strip_entries key i xs) = key ` set xs - {i}"
  "strip_entries key i (strip_entries key i xs) = strip_entries key i xs"
  "i \<notin> key ` set xs \<Longrightarrow> strip_entries key i xs = xs"
  "strip_entries key i [] = []"
  by (auto simp: strip_entries_def filter_id_conv)

locale posting_list =
  fixes key :: "'e \<Rightarrow> u128" and add :: "u128 \<Rightarrow> 'e list \<Rightarrow> 'e list"
  assumes keys_add: "map key (add i xs) = (if i \<in> key ` set xs then map key xs else map key xs @ [i])"
begin

lemma mem_add: "key ` set (add i xs) = insert i (key ` set xs)"
proof -
  have "key ` set (add i xs) = set (map key (add i xs))" by simp
  also have "\<dots> = insert i (key ` set xs)" unfolding keys_add by auto
  finally show ?thesis .
qed

lemma distinct_add: "distinct (map key xs) \<Longrightarrow> distinct (map key (add i xs))"
  by (simp add: keys_add)

lemma distinct_strip: "distinct (map key xs) \<Longrightarrow> distinct (map key (strip_entries key i xs))"
  by (simp add: strip_entries_def distinct_map_filter)

lemma add_idem: "map key (add i (add i xs)) = map key (add i xs)"
  using keys_add[of i "add i xs"] mem_add by simp

lemma strip_add:
  assumes "i \<notin> key ` set xs"
  shows "map key (strip_entries key i (add i xs)) = map key xs"
proof -
  have "map key (strip_entries key i ys) = filter (\<lambda>k. k \<noteq> i) (map key ys)" for ys
    by (simp add: strip_entries_def filter_map comp_def)
  with assms show ?thesis by (simp only: keys_add) (auto simp: filter_id_conv)
qed

end

definition append_id :: "u128 \<Rightarrow> u128 list \<Rightarrow> u128 list" where
  "append_id i ids = (if i \<in> set ids then ids else ids @ [i])"

interpretation ids: posting_list "\<lambda>i. i" append_id
  by unfold_locales (simp add: append_id_def)

section \<open>Posting tables\<close>

definition postings :: "('d, 'b) redb \<Rightarrow> ('e list, 'b) codec \<Rightarrow> 'd \<Rightarrow> cell \<Rightarrow> 'e list" where
  "postings r cd d c =
     (case db_get r d c of
        Some v \<Rightarrow> (case dec cd v of Inr xs \<Rightarrow> xs | Inl _ \<Rightarrow> [])
      | None \<Rightarrow> [])"

text \<open>\<open>decode_ids\<close>: an absent or undecodable entry counts as the empty list.\<close>

definition decode_ids :: "'b bincode \<Rightarrow> 'b option \<Rightarrow> u128 list" where
  "decode_ids bc entry =
     (case entry of
        Some v \<Rightarrow> (case dec (c_ids bc) v of Inr xs \<Rightarrow> xs | Inl _ \<Rightarrow> [])
      | None \<Rightarrow> [])"

lemma decode_ids_postings: "decode_ids bc (db_get r d c) = postings r (c_ids bc) d c"
  by (simp add: decode_ids_def postings_def)

definition append_ids ::
    "('d, 'b) redb \<Rightarrow> 'b bincode \<Rightarrow> u128 \<Rightarrow> cell \<Rightarrow> 'd \<Rightarrow> store_error + 'd" where
  "append_ids r bc i c d =
     (let ids = decode_ids bc (db_get r d c) in
      if i \<in> set ids then Inr d
      else case enc (c_ids bc) (ids @ [i]) of
             Inr encoded \<Rightarrow> Inr (db_insert r c encoded d)
           | Inl e \<Rightarrow> Inl (SE_Panic e))"

text \<open>Pass 1 of the removal: the keys of a table whose posting list holds the identifier; pass 2:
  the rewriting of one posting list.\<close>

definition affected_keys ::
    "('e list, 'b) codec \<Rightarrow> ('e \<Rightarrow> u128) \<Rightarrow> u128 \<Rightarrow> ('k \<times> 'b) list \<Rightarrow> 'k list" where
  "affected_keys cd key i entries =
     map fst (filter (\<lambda>(k, v). case dec cd v of Inr xs \<Rightarrow> i \<in> key ` set xs | Inl _ \<Rightarrow> False) entries)"

definition strip_cell ::
    "('d, 'b) redb \<Rightarrow> ('e list, 'b) codec \<Rightarrow> ('e \<Rightarrow> u128) \<Rightarrow> u128 \<Rightarrow> cell \<Rightarrow> 'd \<Rightarrow> 'd" where
  "strip_cell r cd key i c d =
     (case db_get r d c of
        None \<Rightarrow> d
      | Some raw \<Rightarrow>
          (case dec cd raw of
             Inl _ \<Rightarrow> d
           | Inr xs \<Rightarrow>
               (let xs' = strip_entries key i xs in
                if xs' = [] then db_remove r c d
                else case enc cd xs' of Inr b \<Rightarrow> db_insert r c b d | Inl _ \<Rightarrow> d)))"

section \<open>The inverted index (kv.rs)\<close>

fun table_of :: "cell \<Rightarrow> table_def" where
  "table_of (C128 t _) = T128 t"
| "table_of (C64 t _) = T64 t"
| "table_of (C32 t _) = T32 t"

definition append_to_table ::
    "('d, 'b) redb \<Rightarrow> 'b bincode \<Rightarrow> cell \<Rightarrow> u128 \<Rightarrow> 'd \<Rightarrow> store_error + 'd" where
  "append_to_table r bc c i d = write_txn r store_error_of d (append_ids r bc i c d)"

definition read_table ::
    "('d, 'b) redb \<Rightarrow> 'b bincode \<Rightarrow> cell \<Rightarrow> 'd \<Rightarrow> store_error + u128 list" where
  "read_table r bc c d =
     read_txn r store_error_of d (table_of c) (Inr (decode_ids bc (db_get r d c)))"

definition add_entity where "add_entity r bc key = append_to_table r bc (C64 ENTITY_INDEX key)"
definition get_entity where "get_entity r bc key = read_table r bc (C64 ENTITY_INDEX key)"
definition add_topic where "add_topic r bc key = append_to_table r bc (C64 TOPIC_INDEX key)"
definition get_topic where "get_topic r bc key = read_table r bc (C64 TOPIC_INDEX key)"
definition add_goal where "add_goal r bc key = append_to_table r bc (C64 GOAL_INDEX key)"
definition get_goal where "get_goal r bc key = read_table r bc (C64 GOAL_INDEX key)"
definition add_event where "add_event r bc key = append_to_table r bc (C64 EVENT_INDEX key)"
definition get_event where "get_event r bc key = read_table r bc (C64 EVENT_INDEX key)"
definition add_causal where "add_causal r bc key = append_to_table r bc (C64 CAUSAL_INDEX key)"
definition get_causal where "get_causal r bc key = read_table r bc (C64 CAUSAL_INDEX key)"
definition add_temporal where "add_temporal r bc key = append_to_table r bc (C32 TEMPORAL_INDEX key)"
definition get_temporal where "get_temporal r bc key = read_table r bc (C32 TEMPORAL_INDEX key)"

text \<open>The six key slices that \<open>add_all\<close> and \<open>persist_memory_unit\<close> take.\<close>

record index_keys =
  ik_entity :: "u64 list"
  ik_topic :: "u64 list"
  ik_temporal :: "u32 list"
  ik_goal :: "u64 list"
  ik_event :: "u64 list"
  ik_causal :: "u64 list"

definition add_all_cells :: "index_keys \<Rightarrow> cell list" where
  "add_all_cells ks =
     map (C64 ENTITY_INDEX) (ik_entity ks) @ map (C64 TOPIC_INDEX) (ik_topic ks) @
     map (C32 TEMPORAL_INDEX) (ik_temporal ks) @ map (C64 GOAL_INDEX) (ik_goal ks) @
     map (C64 EVENT_INDEX) (ik_event ks) @ map (C64 CAUSAL_INDEX) (ik_causal ks)"

definition add_all ::
    "('d, 'b) redb \<Rightarrow> 'b bincode \<Rightarrow> index_keys \<Rightarrow> u128 \<Rightarrow> 'd \<Rightarrow> store_error + 'd" where
  "add_all r bc ks i d =
     (if ik_entity ks = [] \<and> ik_topic ks = [] \<and> ik_temporal ks = [] \<and> ik_goal ks = [] \<and>
         ik_event ks = [] \<and> ik_causal ks = []
      then Inr d
      else write_txn r store_error_of d (try_for_each (append_ids r bc i) (add_all_cells ks) d))"

section \<open>Persistence of a unit\<close>

definition persist_cells :: "index_keys \<Rightarrow> cell list" where
  "persist_cells ks =
     map (C64 ENTITY_INDEX) (ik_entity ks) @ map (C64 TOPIC_INDEX) (ik_topic ks) @
     map (C64 GOAL_INDEX) (ik_goal ks) @ map (C64 EVENT_INDEX) (ik_event ks) @
     map (C64 CAUSAL_INDEX) (ik_causal ks) @ map (C32 TEMPORAL_INDEX) (ik_temporal ks)"

definition persist_tables ::
    "('d, 'b) redb \<Rightarrow> u128 \<Rightarrow> 'b \<Rightarrow> 'b \<Rightarrow> 'b option \<Rightarrow> 'd \<Rightarrow> 'd" where
  "persist_tables r i bincode_unit bincode_links dense_vector d =
     (let d1 = db_insert r (C128 MEMORY_KV i) bincode_unit d;
          d2 = (case dense_vector of
                  Some bytes \<Rightarrow> db_insert r (C128 DENSE_VECTORS i) bytes d1
                | None \<Rightarrow> db_remove r (C128 DENSE_VECTORS i) d1)
      in db_insert r (C128 LINK_OVERLAY i) bincode_links d2)"

definition persist_memory_unit ::
    "('d, 'b) redb \<Rightarrow> 'b bincode \<Rightarrow> u128 \<Rightarrow> 'b \<Rightarrow> 'b \<Rightarrow> index_keys \<Rightarrow> bool \<Rightarrow> 'b option \<Rightarrow> 'd
       \<Rightarrow> store_error + 'd" where
  "persist_memory_unit r bc i bincode_unit bincode_links ks skip_memory_log dense_vector d =
     write_txn r store_error_of d
       (and_then (if skip_memory_log then Inr d else append_body r i bincode_unit d) (\<lambda>d0.
          try_for_each (append_ids r bc i) (persist_cells ks)
            (persist_tables r i bincode_unit bincode_links dense_vector d0)))"

section \<open>Removal from all indexes\<close>

definition removal_cells :: "('d, 'b) redb \<Rightarrow> 'b bincode \<Rightarrow> u128 \<Rightarrow> 'd \<Rightarrow> cell list" where
  "removal_cells r bc i d =
     concat (map (\<lambda>t. map (C64 t) (affected_keys (c_ids bc) (\<lambda>x. x) i (db_iter64 r t d)))
       [ENTITY_INDEX, TOPIC_INDEX, GOAL_INDEX, EVENT_INDEX, CAUSAL_INDEX]) @
     map (C32 TEMPORAL_INDEX) (affected_keys (c_ids bc) (\<lambda>x. x) i (db_iter32 r TEMPORAL_INDEX d))"

definition remove_memory_from_indexes ::
    "('d, 'b) redb \<Rightarrow> 'b bincode \<Rightarrow> u128 \<Rightarrow> 'd \<Rightarrow> store_error + 'd" where
  "remove_memory_from_indexes r bc i d =
     write_txn r store_error_of d
       (Inr (fold (strip_cell r (c_ids bc) (\<lambda>x. x) i) (removal_cells r bc i d) d))"

section \<open>Laws of posting tables\<close>

lemma append_ids_ok:
  assumes "redb_ok r" "bincode_ok bc"
  obtains d' where "append_ids r bc i c d = Inr d'"
    and "postings r (c_ids bc) d' c = append_id i (postings r (c_ids bc) d c)"
    and "\<And>c'. c' \<noteq> c \<Longrightarrow> db_get r d' c' = db_get r d c'"
proof (cases "i \<in> set (postings r (c_ids bc) d c)")
  case True
  then show ?thesis using that[of d] by (simp add: append_ids_def decode_ids_postings append_id_def)
next
  case False
  let ?ids = "postings r (c_ids bc) d c @ [i]"
  obtain b where b: "enc (c_ids bc) ?ids = Inr b" "dec (c_ids bc) b = Inr ?ids"
    using bincode_okD(3)[OF assms(2)] by (rule codec_okE)
  show ?thesis
  proof (rule that[of "db_insert r c b d"])
    show "append_ids r bc i c d = Inr (db_insert r c b d)"
      using False b by (simp add: append_ids_def decode_ids_postings)
    show "postings r (c_ids bc) (db_insert r c b d) c = append_id i (postings r (c_ids bc) d c)"
      using False assms b by (simp add: append_id_def postings_def)
  qed (use assms in simp)
qed

lemma postings_cong: "db_get r d' c = db_get r d c \<Longrightarrow> postings r cd d' c = postings r cd d c"
  by (simp add: postings_def)

lemma append_id_twice [simp]: "append_id i (append_id i xs) = append_id i xs"
  by (simp add: append_id_def)

text \<open>The loop over the keys adds the identifier to the posting lists of exactly these cells.\<close>

lemma append_cells_ok:
  assumes "redb_ok r" "bincode_ok bc"
  shows "\<exists>d'. try_for_each (append_ids r bc i) cs d = Inr d' \<and>
    (\<forall>c. postings r (c_ids bc) d' c =
       (if c \<in> set cs then append_id i (postings r (c_ids bc) d c) else postings r (c_ids bc) d c)) \<and>
    (\<forall>c. c \<notin> set cs \<longrightarrow> db_get r d' c = db_get r d c)"
proof (induction cs arbitrary: d)
  case (Cons c cs)
  obtain d1 where d1: "append_ids r bc i c d = Inr d1"
      "postings r (c_ids bc) d1 c = append_id i (postings r (c_ids bc) d c)"
      "\<And>c'. c' \<noteq> c \<Longrightarrow> db_get r d1 c' = db_get r d c'"
    using append_ids_ok[OF assms] by metis
  have other: "postings r (c_ids bc) d1 c' = postings r (c_ids bc) d c'" if "c' \<noteq> c" for c'
    using d1(3)[OF that] by (rule postings_cong)
  from Cons.IH[of d1] obtain d' where d': "try_for_each (append_ids r bc i) cs d1 = Inr d'"
      "\<And>c'. postings r (c_ids bc) d' c' =
        (if c' \<in> set cs then append_id i (postings r (c_ids bc) d1 c') else postings r (c_ids bc) d1 c')"
      "\<And>c'. c' \<notin> set cs \<Longrightarrow> db_get r d' c' = db_get r d1 c'"
    by blast
  have "postings r (c_ids bc) d' c' = (if c' \<in> set (c # cs)
      then append_id i (postings r (c_ids bc) d c') else postings r (c_ids bc) d c')" for c'
    using d'(2)[of c'] d1(2) other[of c'] by (cases "c' = c") auto
  then show ?case using d1(1,3) d'(1,3) by auto
qed simp

lemma strip_cell_postings:
  assumes "redb_ok r" "codec_ok cd"
  shows "postings r cd (strip_cell r cd key i c d) c' =
      (if c' = c then strip_entries key i (postings r cd d c) else postings r cd d c')"
    and "c' \<noteq> c \<Longrightarrow> db_get r (strip_cell r cd key i c d) c' = db_get r d c'"
proof -
  show 2: "db_get r (strip_cell r cd key i c d) c' = db_get r d c'" if "c' \<noteq> c"
    using that assms(1) by (simp add: strip_cell_def Let_def split: option.splits sum.splits)
  have "postings r cd (strip_cell r cd key i c d) c = strip_entries key i (postings r cd d c)"
  proof (cases "db_get r d c")
    case (Some raw)
    show ?thesis
    proof (cases "dec cd raw")
      case (Inr xs)
      obtain b where "enc cd (strip_entries key i xs) = Inr b"
          "dec cd b = Inr (strip_entries key i xs)"
        using assms(2) by (rule codec_okE)
      then show ?thesis
        using Some Inr assms(1) by (auto simp: strip_cell_def postings_def Let_def)
    qed (simp add: strip_cell_def postings_def Some)
  qed (simp add: strip_cell_def postings_def)
  with 2 show "postings r cd (strip_cell r cd key i c d) c' =
      (if c' = c then strip_entries key i (postings r cd d c) else postings r cd d c')"
    by (auto intro: postings_cong)
qed

lemma strip_cells_postings:
  assumes "redb_ok r" "codec_ok cd"
  shows "(\<forall>c. postings r cd (fold (strip_cell r cd key i) cs d) c =
       (if c \<in> set cs then strip_entries key i (postings r cd d c) else postings r cd d c)) \<and>
     (\<forall>c. c \<notin> set cs \<longrightarrow> db_get r (fold (strip_cell r cd key i) cs d) c = db_get r d c)"
  by (induction cs arbitrary: d) (auto simp: strip_cell_postings[OF assms])

lemma affected_keys_iff:
  assumes "\<And>k v. (k, v) \<in> set entries \<longleftrightarrow> db_get r d (mk k) = Some v"
  shows "k \<in> set (affected_keys cd key i entries) \<longleftrightarrow> i \<in> key ` set (postings r cd d (mk k))"
proof -
  have "k \<in> set (affected_keys cd key i entries) \<longleftrightarrow> (\<exists>v. (k, v) \<in> set entries \<and>
      (case dec cd v of Inr xs \<Rightarrow> i \<in> key ` set xs | Inl _ \<Rightarrow> False))"
    by (auto simp: affected_keys_def image_iff Bex_def)
  also have "\<dots> \<longleftrightarrow> i \<in> key ` set (postings r cd d (mk k))"
    unfolding assms by (cases "db_get r d (mk k)") (simp_all add: postings_def split: sum.split)
  finally show ?thesis .
qed

section \<open>The abstract index\<close>

fun index_cell :: "cell \<Rightarrow> bool" where
  "index_cell (C64 t _) \<longleftrightarrow> t \<in> set [ENTITY_INDEX, TOPIC_INDEX, GOAL_INDEX, EVENT_INDEX, CAUSAL_INDEX]"
| "index_cell (C32 _ _) \<longleftrightarrow> True"
| "index_cell (C128 _ _) \<longleftrightarrow> False"

definition index_rel :: "('d, 'b) redb \<Rightarrow> 'b bincode \<Rightarrow> 'd \<Rightarrow> (cell \<times> u128) set" where
  "index_rel r bc d = {(c, i). index_cell c \<and> i \<in> set (postings r (c_ids bc) d c)}"

lemma set_persist_cells: "set (persist_cells ks) = set (add_all_cells ks)"
  by (auto simp: persist_cells_def add_all_cells_def)

lemma add_all_cells_index: "c \<in> set (add_all_cells ks) \<Longrightarrow> index_cell c"
  by (auto simp: add_all_cells_def)

lemma removal_cells_iff:
  assumes "redb_ok r"
  shows "c \<in> set (removal_cells r bc i d) \<longleftrightarrow> (c, i) \<in> index_rel r bc d"
proof -
  have a64: "k \<in> set (affected_keys (c_ids bc) (\<lambda>x. x) i (db_iter64 r t d)) \<longleftrightarrow>
      i \<in> set (postings r (c_ids bc) d (C64 t k))" for k t
    by (subst affected_keys_iff[where mk = "C64 t" and r = r and d = d])
      (simp_all add: redb_iter[OF assms])
  have a32: "k \<in> set (affected_keys (c_ids bc) (\<lambda>x. x) i (db_iter32 r t d)) \<longleftrightarrow>
      i \<in> set (postings r (c_ids bc) d (C32 t k))" for k t
    by (subst affected_keys_iff[where mk = "C32 t" and r = r and d = d])
      (simp_all add: redb_iter[OF assms])
  show ?thesis
    by (cases c) (auto simp: removal_cells_def index_rel_def a64 a32 image_iff split: u32_table.splits,
      (metis (full_types) u32_table.exhaust)+)
qed

lemma remove_body_postings:
  fixes i :: u128 and d :: 'd
  assumes "redb_ok r" "bincode_ok bc"
  defines "d' \<equiv> fold (strip_cell r (c_ids bc) (\<lambda>x. x) i) (removal_cells r bc i d) d"
  shows "index_cell c \<Longrightarrow> postings r (c_ids bc) d' c =
      strip_entries (\<lambda>x. x) i (postings r (c_ids bc) d c)"
    and "\<not> index_cell c \<Longrightarrow> db_get r d' c = db_get r d c"
proof -
  note st = strip_cells_postings[OF assms(1) bincode_okD(3)[OF assms(2)], where key = "\<lambda>x. x"
      and i = i and cs = "removal_cells r bc i d" and d = d, folded d'_def]
  show "postings r (c_ids bc) d' c = strip_entries (\<lambda>x. x) i (postings r (c_ids bc) d c)"
    if "index_cell c"
    using that st by (simp add: removal_cells_iff[OF assms(1)] index_rel_def)
  show "\<not> index_cell c \<Longrightarrow> db_get r d' c = db_get r d c"
    using st by (simp add: removal_cells_iff[OF assms(1)] index_rel_def)
qed

text \<open>The operations on the indexes and their abstract counterparts on the relation.\<close>

datatype 'b index_op =
    AddTo cell u128
  | AddAll index_keys u128
  | Persist u128 'b 'b index_keys "'b option"
  | RemoveId u128

fun run_index_op :: "('d, 'b) redb \<Rightarrow> 'b bincode \<Rightarrow> 'b index_op \<Rightarrow> 'd \<Rightarrow> store_error + 'd" where
  "run_index_op r bc (AddTo c i) d = append_to_table r bc c i d"
| "run_index_op r bc (AddAll ks i) d = add_all r bc ks i d"
| "run_index_op r bc (Persist i u ls ks dense) d = persist_memory_unit r bc i u ls ks True dense d"
| "run_index_op r bc (RemoveId i) d = remove_memory_from_indexes r bc i d"

fun spec_index_op :: "'b index_op \<Rightarrow> (cell \<times> u128) set \<Rightarrow> (cell \<times> u128) set" where
  "spec_index_op (AddTo c i) R = (if index_cell c then insert (c, i) R else R)"
| "spec_index_op (AddAll ks i) R = R \<union> set (add_all_cells ks) \<times> {i}"
| "spec_index_op (Persist i u ls ks dense) R = R \<union> set (add_all_cells ks) \<times> {i}"
| "spec_index_op (RemoveId i) R = {(c, j). (c, j) \<in> R \<and> j \<noteq> i}"

lemma persist_tables_get:
  assumes "redb_ok r"
  shows "db_get r (persist_tables r i u ls dense d) c =
    (if c = C128 MEMORY_KV i then Some u else if c = C128 LINK_OVERLAY i then Some ls
     else if c = C128 DENSE_VECTORS i then dense else db_get r d c)"
  using assms by (auto simp: persist_tables_def Let_def split: option.splits)

lemma persist_tables_postings:
  assumes "redb_ok r" "index_cell c"
  shows "postings r cd (persist_tables r i u ls dense d) c = postings r cd d c"
  using assms by (intro postings_cong) (auto simp: persist_tables_get)

lemma index_rel_append:
  assumes "\<And>c. postings r (c_ids bc) d' c =
      (if c \<in> S then append_id i (postings r (c_ids bc) d c) else postings r (c_ids bc) d c)"
    and "\<And>c. c \<in> S \<Longrightarrow> index_cell c"
  shows "index_rel r bc d' = index_rel r bc d \<union> S \<times> {i}"
  using assms ids.mem_add by (auto simp: index_rel_def split: if_splits)

lemma index_rel_cong:
  "(\<And>c. index_cell c \<Longrightarrow> postings r (c_ids bc) d' c = postings r (c_ids bc) d c) \<Longrightarrow>
    index_rel r bc d' = index_rel r bc d"
  by (auto simp: index_rel_def)

lemma run_index_op_refines:
  assumes db: "redb_ok r" and bc: "bincode_ok bc" and ff: "fault_free r"
  shows "\<exists>d'. run_index_op r bc op d = Inr d' \<and>
    index_rel r bc d' = spec_index_op op (index_rel r bc d)"
proof (cases op)
  case (AddTo c i)
  obtain d' where d': "append_ids r bc i c d = Inr d'"
      "postings r (c_ids bc) d' c = append_id i (postings r (c_ids bc) d c)"
      "\<And>c'. c' \<noteq> c \<Longrightarrow> postings r (c_ids bc) d' c' = postings r (c_ids bc) d c'"
    using append_ids_ok[OF db bc] postings_cong by metis
  show ?thesis
  proof (cases "index_cell c")
    case True
    then have "index_rel r bc d' = index_rel r bc d \<union> {c} \<times> {i}"
      using d' by (intro index_rel_append) auto
    with True d'(1) ff show ?thesis by (simp add: AddTo append_to_table_def)
  next
    case False
    then have "index_rel r bc d' = index_rel r bc d"
      using d' by (intro index_rel_cong) metis
    with False d'(1) ff show ?thesis by (simp add: AddTo append_to_table_def)
  qed
next
  case (AddAll ks i)
  obtain d' where d': "try_for_each (append_ids r bc i) (add_all_cells ks) d = Inr d'"
      "index_rel r bc d' = index_rel r bc d \<union> set (add_all_cells ks) \<times> {i}"
    using append_cells_ok[OF db bc, of i "add_all_cells ks" d]
      index_rel_append[of r bc _ "set (add_all_cells ks)" i d] add_all_cells_index by blast
  show ?thesis
  proof (cases "add_all_cells ks = []")
    case True
    with d' ff show ?thesis by (simp add: AddAll add_all_def)
  next
    case False
    with d' ff show ?thesis by (auto simp: AddAll add_all_def add_all_cells_def)
  qed
next
  case (Persist i u ls ks dense)
  let ?d1 = "persist_tables r i u ls dense d"
  have "index_rel r bc ?d1 = index_rel r bc d"
    using db by (intro index_rel_cong persist_tables_postings)
  then show ?thesis
    using append_cells_ok[OF db bc, of i "persist_cells ks" ?d1] ff
      index_rel_append[of r bc _ "set (add_all_cells ks)" i ?d1] add_all_cells_index
    by (auto simp: Persist persist_memory_unit_def set_persist_cells)
next
  case (RemoveId i)
  show ?thesis
    using remove_body_postings(1)[OF db bc, of _ i d] ff
    by (auto simp: RemoveId remove_memory_from_indexes_def index_rel_def strip_entries_def)
qed

section \<open>Properties\<close>

text \<open>C14: the inverted indexes implement a relation between keys and memories: whatever sequence
  of single additions, batch additions, unit writes and removals runs on the store, it succeeds
  and the posting lists hold exactly the pairs that inserting into and deleting from the relation
  leaves.\<close>

theorem index_ops_refine:
  assumes "redb_ok r" "bincode_ok bc" "fault_free r"
  shows "\<exists>d'. try_for_each (run_index_op r bc) ops d = Inr d' \<and>
    index_rel r bc d' = fold spec_index_op ops (index_rel r bc d)"
proof (induction ops arbitrary: d)
  case (Cons op ops)
  obtain d1 where d1: "run_index_op r bc op d = Inr d1"
      "index_rel r bc d1 = spec_index_op op (index_rel r bc d)"
    using run_index_op_refines[OF assms] by blast
  then show ?case using Cons.IH[of d1] by auto
qed simp

definition demo_keys :: index_keys where
  "demo_keys = \<lparr>ik_entity = [1, 2], ik_topic = [], ik_temporal = [9], ik_goal = [], ik_event = [],
     ik_causal = []\<rparr>"

theorem index_ops_refine_witness:
  "\<exists>d'. try_for_each (run_index_op cells_redb cells_bincode)
       [AddAll demo_keys 5, AddTo (C64 ENTITY_INDEX 2) 6, RemoveId 5] [] = Inr d' \<and>
     index_rel cells_redb cells_bincode d' = {(C64 ENTITY_INDEX 2, 6)}"
proof -
  have "index_rel cells_redb cells_bincode [] = {}"
    by (simp add: index_rel_def postings_def cells_redb_def)
  moreover have "fold spec_index_op [AddAll demo_keys 5, AddTo (C64 ENTITY_INDEX 2) 6, RemoveId 5] {}
      = {(C64 ENTITY_INDEX 2, 6)}"
    by (auto simp: add_all_cells_def demo_keys_def)
  ultimately show ?thesis
    using index_ops_refine[OF cells_redb_ok cells_bincode_ok cells_fault_free,
        of "[AddAll demo_keys 5, AddTo (C64 ENTITY_INDEX 2) 6, RemoveId 5]" "[]"]
    by simp
qed

lemma persist_run:
  assumes db: "redb_ok r" and bc: "bincode_ok bc" and ff: "fault_free r"
    and new: "skip \<or> db_get r d (C128 MEMORY_LOG i) = None"
  obtains d' where "persist_memory_unit r bc i u ls ks skip dense d = Inr d'"
    and "\<And>c. \<not> index_cell c \<Longrightarrow> db_get r d' c =
      (if c = C128 MEMORY_KV i then Some u else if c = C128 LINK_OVERLAY i then Some ls
       else if c = C128 DENSE_VECTORS i then dense
       else if c = C128 MEMORY_LOG i \<and> \<not> skip then Some u else db_get r d c)"
    and "\<And>c. index_cell c \<Longrightarrow> postings r (c_ids bc) d' c =
      (if c \<in> set (add_all_cells ks) then append_id i (postings r (c_ids bc) d c) else postings r (c_ids bc) d c)"
proof -
  define d0 where "d0 = (if skip then d else db_insert r (C128 MEMORY_LOG i) u d)"
  let ?d1 = "persist_tables r i u ls dense d0"
  obtain d' where d': "try_for_each (append_ids r bc i) (persist_cells ks) ?d1 = Inr d'"
      "\<And>c. postings r (c_ids bc) d' c = (if c \<in> set (add_all_cells ks)
        then append_id i (postings r (c_ids bc) ?d1 c) else postings r (c_ids bc) ?d1 c)"
      "\<And>c. c \<notin> set (add_all_cells ks) \<Longrightarrow> db_get r d' c = db_get r ?d1 c"
    using append_cells_ok[OF db bc, of i "persist_cells ks" ?d1] by (auto simp: set_persist_cells)
  have ok: "persist_memory_unit r bc i u ls ks skip dense d = Inr d'"
    using new ff d'(1) by (auto simp: persist_memory_unit_def append_body_def d0_def)
  have get: "db_get r d' c =
      (if c = C128 MEMORY_KV i then Some u else if c = C128 LINK_OVERLAY i then Some ls
       else if c = C128 DENSE_VECTORS i then dense
       else if c = C128 MEMORY_LOG i \<and> \<not> skip then Some u else db_get r d c)"
    if "\<not> index_cell c" for c
  proof -
    have "c \<notin> set (add_all_cells ks)" using that add_all_cells_index by blast
    from d'(3)[OF this] db show ?thesis by (simp add: persist_tables_get d0_def)
  qed
  have "postings r (c_ids bc) ?d1 c = postings r (c_ids bc) d c" if "index_cell c" for c
    using that db by (intro postings_cong) (auto simp: persist_tables_get d0_def)
  then show thesis using that[OF ok get] d'(2) by simp
qed

lemma index_rel_frame:
  "(\<And>c. index_cell c \<Longrightarrow> db_get r d' c = db_get r d c) \<Longrightarrow> index_rel r bc d' = index_rel r bc d"
  by (intro index_rel_cong postings_cong)

text \<open>Appending to several tables in transactions of their own.\<close>

lemma append_tables_ok:
  assumes db: "redb_ok r" and bc: "bincode_ok bc" and ff: "fault_free r"
  shows "\<exists>d'. try_for_each (\<lambda>c. append_to_table r bc c i) cs d = Inr d' \<and>
    (\<forall>c. postings r (c_ids bc) d' c =
       (if c \<in> set cs then append_id i (postings r (c_ids bc) d c) else postings r (c_ids bc) d c)) \<and>
    (\<forall>c. c \<notin> set cs \<longrightarrow> db_get r d' c = db_get r d c)"
proof -
  have "(\<lambda>c. append_to_table r bc c i) = append_ids r bc i"
    using ff by (simp add: append_to_table_def fun_eq_iff)
  then show ?thesis using append_cells_ok[OF db bc] by simp
qed

text \<open>C15: writing a unit in one transaction fails exactly when its identifier is already in the
  append-only log and the log is not skipped. Otherwise the key-value store returns the unit, the
  edges, the dense vector (or its absence) and the log entry are in place, the identifier is
  appended once to the posting list of each of its keys, and no other cell changes.\<close>

theorem persist_memory_unit_spec:
  assumes db: "redb_ok r" and bc: "bincode_ok bc" and ff: "fault_free r"
  shows "case persist_memory_unit r bc i u ls ks skip dense d of
      Inl e \<Rightarrow> e = RecordExists i \<and> \<not> skip \<and> db_get r d (C128 MEMORY_LOG i) \<noteq> None
    | Inr d' \<Rightarrow>
        (skip \<or> db_get r d (C128 MEMORY_LOG i) = None) \<and>
        kv_get r i d' = Inr (Some u) \<and>
        (\<forall>c. \<not> index_cell c \<longrightarrow> db_get r d' c =
          (if c = C128 MEMORY_KV i then Some u else if c = C128 LINK_OVERLAY i then Some ls
           else if c = C128 DENSE_VECTORS i then dense
           else if c = C128 MEMORY_LOG i \<and> \<not> skip then Some u else db_get r d c)) \<and>
        (\<forall>c. index_cell c \<longrightarrow> postings r (c_ids bc) d' c =
          (if c \<in> set (add_all_cells ks) then append_id i (postings r (c_ids bc) d c)
           else postings r (c_ids bc) d c))"
proof (cases "\<not> skip \<and> db_get r d (C128 MEMORY_LOG i) \<noteq> None")
  case True
  then show ?thesis using ff by (simp add: persist_memory_unit_def append_body_def)
next
  case False
  then have new: "skip \<or> db_get r d (C128 MEMORY_LOG i) = None" by blast
  show ?thesis
    by (rule persist_run[OF db bc ff new, where u = u and ls = ls and ks = ks and dense = dense])
      (use new ff in \<open>simp add: kv_get_def\<close>)
qed

theorem persist_memory_unit_spec_witness:
  "case persist_memory_unit cells_redb cells_bincode 5 (B_unit (demo_unit 5 ''a'' [])) (B_links [])
     demo_keys False None [] of
     Inl e \<Rightarrow> False
   | Inr d' \<Rightarrow> kv_get cells_redb 5 d' = Inr (Some (B_unit (demo_unit 5 ''a'' [])))"
  using persist_memory_unit_spec[OF cells_redb_ok cells_bincode_ok cells_fault_free,
      where i = 5 and u = "B_unit (demo_unit 5 ''a'' [])" and ls = "B_links []" and ks = demo_keys
        and skip = False and dense = None and d = "[]"]
  by (simp add: cells_redb_def split: sum.splits)

end
