(* ===== verification/Store_Context.thy ===== *)
theory Store_Context
  imports Store_Index Forgetting_Curve
begin

text \<open>
  Context links (\<open>hippmem-store/src/context_links.rs\<close>): a confirmation binds the confirmed memory
  to the fingerprint of the query; a later query collects the decayed strengths of the links its
  features carry. The posting lists of the features meet the contract \<open>posting_list\<close>, so adding
  and removing a memory is reasoned about with the lemmas of \<open>Store_Index\<close>.

  A read of a table that was never created fails in \<open>redb\<close>; the functions below treat every read
  fault as the absence of an entry.
\<close>

section \<open>Query fingerprints\<close>

definition ctx_is_empty :: "query_context \<Rightarrow> bool" where
  "ctx_is_empty ctx \<longleftrightarrow> entity_hashes ctx = [] \<and> topic_hashes ctx = []"

definition feature_hashes :: "query_context \<Rightarrow> u64 list" where
  "feature_hashes ctx = dedup (sort (entity_hashes ctx @ topic_hashes ctx))"

definition LINK_HALF_LIFE_BASE_MS :: i64 where "LINK_HALF_LIFE_BASE_MS = 86400000"
definition LINK_HALF_LIFE_MAX_DOUBLINGS :: u32 where "LINK_HALF_LIFE_MAX_DOUBLINGS = 6"
definition LINK_STRENGTH_CAP :: f32 where "LINK_STRENGTH_CAP = F32 1"

definition effective_strength :: "(f64 \<Rightarrow> f64 \<Rightarrow> f64) \<Rightarrow> context_link \<Rightarrow> i64 \<Rightarrow> f32" where
  "effective_strength powf l now_ms =
     (let inactive = f64_of_i64 (max (i64_sub now_ms (cl_last_reviewed_at_ms l)) 0);
          doublings = min (cl_review_count l) LINK_HALF_LIFE_MAX_DOUBLINGS;
          half_life = f64_mul (f64_of_i64 LINK_HALF_LIFE_BASE_MS) (f64_powi (F64 2) (unat doublings))
      in f32_of_f64 (f64_mul (f64_of_f32 (cl_strength l)) (powf (F64 (1/2)) (f64_div inactive half_life))))"

definition write_query_context ::
    "('d, 'b) redb \<Rightarrow> 'b bincode \<Rightarrow> u64 \<Rightarrow> query_context \<Rightarrow> 'd \<Rightarrow> string + 'd" where
  "write_query_context r bc rid ctx d =
     and_then (enc (c_context bc) ctx) (\<lambda>encoded.
       write_txn r fault_text d (Inr (db_insert r (C64 QUERY_CONTEXT rid) encoded d)))"

definition read_query_context ::
    "('d, 'b) redb \<Rightarrow> 'b bincode \<Rightarrow> u64 \<Rightarrow> 'd \<Rightarrow> query_context option" where
  "read_query_context r bc rid d =
     (case read_fault r d (T64 QUERY_CONTEXT) of
        Some _ \<Rightarrow> None
      | None \<Rightarrow>
          (case db_get r d (C64 QUERY_CONTEXT rid) of
             None \<Rightarrow> None
           | Some v \<Rightarrow> result_ok (dec (c_context bc) v)))"

section \<open>Context links\<close>

definition review_link :: "f32 \<Rightarrow> i64 \<Rightarrow> context_link \<Rightarrow> context_link" where
  "review_link delta now_ms l =
     l\<lparr>cl_strength := f32_min (cl_strength l + delta) LINK_STRENGTH_CAP,
       cl_review_count := u32_saturating_add (cl_review_count l) 1,
       cl_last_reviewed_at_ms := now_ms\<rparr>"

fun strengthen_entry :: "f32 \<Rightarrow> i64 \<Rightarrow> u128 \<Rightarrow> context_link list \<Rightarrow> context_link list" where
  "strengthen_entry delta now_ms i [] =
     [\<lparr>cl_memory_id = i, cl_strength = f32_min delta LINK_STRENGTH_CAP, cl_review_count = 1,
       cl_last_reviewed_at_ms = now_ms\<rparr>]"
| "strengthen_entry delta now_ms i (l # ls) =
     (if cl_memory_id l = i then review_link delta now_ms l # ls
      else l # strengthen_entry delta now_ms i ls)"

definition strengthen_feature ::
    "('d, 'b) redb \<Rightarrow> 'b bincode \<Rightarrow> u128 \<Rightarrow> f32 \<Rightarrow> i64 \<Rightarrow> u64 \<Rightarrow> 'd \<Rightarrow> string + 'd" where
  "strengthen_feature r bc i delta now_ms feature d =
     and_then (enc (c_context_links bc) (strengthen_entry delta now_ms i
         (postings r (c_context_links bc) d (C64 CONTEXT_LINKS feature)))) (\<lambda>encoded.
       Inr (db_insert r (C64 CONTEXT_LINKS feature) encoded d))"

definition strengthen_links ::
    "('d, 'b) redb \<Rightarrow> 'b bincode \<Rightarrow> query_context \<Rightarrow> u128 \<Rightarrow> f32 \<Rightarrow> i64 \<Rightarrow> 'd \<Rightarrow> string + 'd" where
  "strengthen_links r bc ctx i delta now_ms d =
     (if ctx_is_empty ctx then Inr d
      else write_txn r fault_text d
        (try_for_each (strengthen_feature r bc i delta now_ms) (feature_hashes ctx) d))"

definition collect_link ::
    "(f64 \<Rightarrow> f64 \<Rightarrow> f64) \<Rightarrow> i64 \<Rightarrow> context_link \<Rightarrow> (u128 \<times> f32) list \<Rightarrow> (u128 \<times> f32) list" where
  "collect_link powf now_ms l out =
     (let eff = effective_strength powf l now_ms
      in entry_upsert (cl_memory_id l) (\<lambda>s. f32_max s eff) eff out)"

definition collect_link_strengths ::
    "('d, 'b) redb \<Rightarrow> 'b bincode \<Rightarrow> (f64 \<Rightarrow> f64 \<Rightarrow> f64) \<Rightarrow> query_context \<Rightarrow> i64 \<Rightarrow> 'd
      \<Rightarrow> (u128 \<times> f32) list" where
  "collect_link_strengths r bc powf ctx now_ms d =
     (if ctx_is_empty ctx then []
      else if read_fault r d (T64 CONTEXT_LINKS) \<noteq> None then []
      else fold (\<lambda>feature. fold (collect_link powf now_ms)
             (postings r (c_context_links bc) d (C64 CONTEXT_LINKS feature)))
           (feature_hashes ctx) [])"

definition remove_memory_links ::
    "('d, 'b) redb \<Rightarrow> 'b bincode \<Rightarrow> u128 \<Rightarrow> 'd \<Rightarrow> string + 'd" where
  "remove_memory_links r bc i d =
     write_txn r fault_text d
       (Inr (fold (strip_cell r (c_context_links bc) cl_memory_id i)
          (map (C64 CONTEXT_LINKS) (affected_keys (c_context_links bc) cl_memory_id i
             (db_iter64 r CONTEXT_LINKS d))) d))"

section \<open>Propagation paths\<close>

definition write_retrieval_paths ::
    "('d, 'b) redb \<Rightarrow> 'b bincode \<Rightarrow> u64 \<Rightarrow> retrieval_path list \<Rightarrow> 'd \<Rightarrow> string + 'd" where
  "write_retrieval_paths r bc rid paths d =
     (if paths = [] then Inr d
      else and_then (enc (c_paths bc) paths) (\<lambda>encoded.
        write_txn r fault_text d (Inr (db_insert r (C64 RETRIEVAL_PATHS rid) encoded d))))"

definition read_retrieval_paths ::
    "('d, 'b) redb \<Rightarrow> 'b bincode \<Rightarrow> u64 \<Rightarrow> 'd \<Rightarrow> retrieval_path list" where
  "read_retrieval_paths r bc rid d =
     (if read_fault r d (T64 RETRIEVAL_PATHS) \<noteq> None then []
      else postings r (c_paths bc) d (C64 RETRIEVAL_PATHS rid))"

section \<open>Laws\<close>

interpretation ctx_links: posting_list cl_memory_id "strengthen_entry delta now_ms" for delta now_ms
proof
  fix i xs
  show "map cl_memory_id (strengthen_entry delta now_ms i xs) =
      (if i \<in> cl_memory_id ` set xs then map cl_memory_id xs else map cl_memory_id xs @ [i])"
    by (induction xs) (auto simp: review_link_def)
qed

lemma feature_hashes_simps [simp]:
  "set (feature_hashes ctx) = set (entity_hashes ctx) \<union> set (topic_hashes ctx)"
  "distinct (feature_hashes ctx)"
  "feature_hashes ctx = [] \<longleftrightarrow> ctx_is_empty ctx"
proof -
  show "distinct (feature_hashes ctx)"
    unfolding feature_hashes_def using dedup_sorted_distinct[OF sorted_sort] by blast
  have "sort xs = [] \<longleftrightarrow> xs = []" for xs :: "u64 list"
    by (metis length_0_conv length_sort)
  then show "feature_hashes ctx = [] \<longleftrightarrow> ctx_is_empty ctx"
    by (simp add: feature_hashes_def ctx_is_empty_def)
qed (simp add: feature_hashes_def)

text \<open>The invariant of the context links: one link per memory and feature, strengths in the unit
  interval.\<close>

definition ctx_list_ok :: "context_link list \<Rightarrow> bool" where
  "ctx_list_ok ls \<longleftrightarrow> distinct (map cl_memory_id ls) \<and> list_all (\<lambda>l. unit_f32 (cl_strength l)) ls"

definition ctx_ok :: "('d, 'b) redb \<Rightarrow> 'b bincode \<Rightarrow> 'd \<Rightarrow> bool" where
  "ctx_ok r bc d \<longleftrightarrow> (\<forall>f. ctx_list_ok (postings r (c_context_links bc) d (C64 CONTEXT_LINKS f)))"

lemma unit_review:
  assumes "unit_f32 s" "unit_f32 delta"
  shows "unit_f32 (f32_min (s + delta) LINK_STRENGTH_CAP)" and "s \<le> f32_min (s + delta) LINK_STRENGTH_CAP"
proof -
  obtain p where s: "s = F32 p" using assms(1) by (rule unit_f32E)
  have ge: "s \<le> s + delta"
    unfolding s by (rule f32_add_ge) (use assms s in \<open>auto simp: unit_f32_iff simp del: f32_valid.simps\<close>)
  have cap: "s \<le> F32 1" "F32 0 \<le> s" using assms by (auto simp: unit_f32_iff)
  show le: "s \<le> f32_min (s + delta) LINK_STRENGTH_CAP"
    using ge cap f32_min_cases[of "s + delta" "F32 1"] by (auto simp: LINK_STRENGTH_CAP_def)
  have "f32_valid (f32_min (s + delta) (F32 1))"
    by (intro f32_valid_minmax f32_valid_ops) simp
  moreover have "f32_min (s + delta) (F32 1) \<le> F32 1" by (rule f32_min_le) simp
  ultimately show "unit_f32 (f32_min (s + delta) LINK_STRENGTH_CAP)"
    using le cap(2) f32_le_trans by (auto simp: unit_f32_iff LINK_STRENGTH_CAP_def)
qed

lemma cap_unit: "unit_f32 delta \<Longrightarrow> f32_min delta LINK_STRENGTH_CAP = delta"
  by (auto simp: f32_min_def LINK_STRENGTH_CAP_def elim!: unit_f32E)

lemma ctx_list_ok_strengthen:
  assumes "ctx_list_ok ls" "unit_f32 delta"
  shows "ctx_list_ok (strengthen_entry delta now_ms i ls)"
proof -
  have "list_all (\<lambda>l. unit_f32 (cl_strength l)) ls \<Longrightarrow>
      list_all (\<lambda>l. unit_f32 (cl_strength l)) (strengthen_entry delta now_ms i ls)"
    using assms(2) by (induction ls) (auto simp: review_link_def unit_review cap_unit)
  then show ?thesis
    using assms ctx_links.distinct_add[of ls delta now_ms i] by (simp add: ctx_list_ok_def)
qed

lemma ctx_list_ok_strip: "ctx_list_ok ls \<Longrightarrow> ctx_list_ok (strip_entries cl_memory_id i ls)"
  by (auto simp: ctx_list_ok_def strip_entries_def list_all_iff distinct_map_filter)

text \<open>Strengthening rewrites exactly the posting lists of the features.\<close>

lemma strengthen_features_ok:
  assumes "redb_ok r" "bincode_ok bc" "distinct fs"
  shows "\<exists>d'. try_for_each (strengthen_feature r bc i delta now_ms) fs d = Inr d' \<and>
    (\<forall>f \<in> set fs. postings r (c_context_links bc) d' (C64 CONTEXT_LINKS f) =
       strengthen_entry delta now_ms i (postings r (c_context_links bc) d (C64 CONTEXT_LINKS f))) \<and>
    (\<forall>c. c \<notin> C64 CONTEXT_LINKS ` set fs \<longrightarrow> db_get r d' c = db_get r d c)"
  using assms(3)
proof (induction fs arbitrary: d)
  case (Cons f fs)
  let ?new = "strengthen_entry delta now_ms i (postings r (c_context_links bc) d (C64 CONTEXT_LINKS f))"
  obtain b where
    b: "enc (c_context_links bc) ?new = Inr b" "dec (c_context_links bc) b = Inr ?new"
    using bincode_okD(6)[OF assms(2)] by (rule codec_okE)
  let ?d1 = "db_insert r (C64 CONTEXT_LINKS f) b d"
  have step: "strengthen_feature r bc i delta now_ms f d = Inr ?d1"
    by (simp add: strengthen_feature_def b)
  have p: "postings r (c_context_links bc) ?d1 (C64 CONTEXT_LINKS g) =
      (if g = f then ?new else postings r (c_context_links bc) d (C64 CONTEXT_LINKS g))" for g
    using assms(1) b by (simp add: postings_def)
  from Cons.prems have dist: "f \<notin> set fs" "distinct fs" by auto
  obtain d' where IH: "try_for_each (strengthen_feature r bc i delta now_ms) fs ?d1 = Inr d' \<and>
      (\<forall>g \<in> set fs. postings r (c_context_links bc) d' (C64 CONTEXT_LINKS g) =
        strengthen_entry delta now_ms i (postings r (c_context_links bc) ?d1 (C64 CONTEXT_LINKS g))) \<and>
      (\<forall>c. c \<notin> C64 CONTEXT_LINKS ` set fs \<longrightarrow> db_get r d' c = db_get r ?d1 c)"
    using Cons.IH[OF dist(2), of ?d1] by (elim exE)
  note d' = IH[THEN conjunct1] IH[THEN conjunct2, THEN conjunct1, rule_format]
    IH[THEN conjunct2, THEN conjunct2, rule_format]
  have "postings r (c_context_links bc) d' (C64 CONTEXT_LINKS f) = ?new"
  proof -
    have nin: "C64 CONTEXT_LINKS f \<notin> C64 CONTEXT_LINKS ` set fs" using dist by auto
    show ?thesis unfolding postings_cong[OF d'(3)[OF nin]] p by simp
  qed
  moreover have "postings r (c_context_links bc) d' (C64 CONTEXT_LINKS g) =
      strengthen_entry delta now_ms i (postings r (c_context_links bc) d (C64 CONTEXT_LINKS g))"
    if "g \<in> set fs" for g
  proof -
    have "g \<noteq> f" using that dist by blast
    then show ?thesis using d'(2)[OF that] by (simp only: p if_False)
  qed
  moreover have "db_get r d' c = db_get r d c" if "c \<notin> C64 CONTEXT_LINKS ` set (f # fs)" for c
    using d'(3)[of c] that assms(1) by simp
  ultimately show ?case using step d'(1) by (intro exI[of _ d']) simp
qed simp

lemma remove_links_ok:
  fixes i :: u128 and d :: 'd
  assumes db: "redb_ok r" and bc: "bincode_ok bc" and ff: "fault_free r"
  obtains d' where "remove_memory_links r bc i d = Inr d'"
    and "\<And>f. postings r (c_context_links bc) d' (C64 CONTEXT_LINKS f) =
      strip_entries cl_memory_id i (postings r (c_context_links bc) d (C64 CONTEXT_LINKS f))"
    and "\<And>c. c \<notin> range (C64 CONTEXT_LINKS) \<Longrightarrow> db_get r d' c = db_get r d c"
proof -
  let ?ks = "affected_keys (c_context_links bc) cl_memory_id i (db_iter64 r CONTEXT_LINKS d)"
  let ?cs = "map (C64 CONTEXT_LINKS) ?ks"
  let ?d' = "fold (strip_cell r (c_context_links bc) cl_memory_id i) ?cs d"
  have ks: "f \<in> set ?ks \<longleftrightarrow>
      i \<in> cl_memory_id ` set (postings r (c_context_links bc) d (C64 CONTEXT_LINKS f))" for f
    by (subst affected_keys_iff[where mk = "C64 CONTEXT_LINKS" and r = r and d = d])
      (simp_all add: redb_iter[OF db])
  note st = strip_cells_postings[OF db bincode_okD(6)[OF bc], where key = cl_memory_id and i = i
      and cs = ?cs and d = d]
  have "postings r (c_context_links bc) ?d' (C64 CONTEXT_LINKS f) =
      strip_entries cl_memory_id i (postings r (c_context_links bc) d (C64 CONTEXT_LINKS f))" for f
    using st ks[of f] by (cases "f \<in> set ?ks") auto
  moreover have "db_get r ?d' c = db_get r d c" if "c \<notin> range (C64 CONTEXT_LINKS)" for c
  proof -
    have "c \<notin> set ?cs" using that by auto
    with st show ?thesis by blast
  qed
  ultimately show thesis using that[of ?d'] ff by (simp add: remove_memory_links_def)
qed

section \<open>Histories of confirmations and removals\<close>

datatype ctx_op = Strengthen query_context u128 f32 i64 | Unlink u128

fun run_ctx_op :: "('d, 'b) redb \<Rightarrow> 'b bincode \<Rightarrow> ctx_op \<Rightarrow> 'd \<Rightarrow> string + 'd" where
  "run_ctx_op r bc (Strengthen ctx i delta now_ms) d = strengthen_links r bc ctx i delta now_ms d"
| "run_ctx_op r bc (Unlink i) d = remove_memory_links r bc i d"

fun ctx_op_ok :: "ctx_op \<Rightarrow> bool" where
  "ctx_op_ok (Strengthen _ _ delta _) \<longleftrightarrow> unit_f32 delta"
| "ctx_op_ok (Unlink _) \<longleftrightarrow> True"

text \<open>The abstract view of the context links: which memory is linked to which feature.\<close>

definition ctx_rel :: "('d, 'b) redb \<Rightarrow> 'b bincode \<Rightarrow> 'd \<Rightarrow> (u64 \<times> u128) set" where
  "ctx_rel r bc d =
     {(f, i). i \<in> cl_memory_id ` set (postings r (c_context_links bc) d (C64 CONTEXT_LINKS f))}"

fun spec_ctx_op :: "ctx_op \<Rightarrow> (u64 \<times> u128) set \<Rightarrow> (u64 \<times> u128) set" where
  "spec_ctx_op (Strengthen ctx i _ _) R = R \<union> (set (entity_hashes ctx) \<union> set (topic_hashes ctx)) \<times> {i}"
| "spec_ctx_op (Unlink i) R = {(f, j). (f, j) \<in> R \<and> j \<noteq> i}"

lemma strengthen_links_ok:
  assumes db: "redb_ok r" and bc: "bincode_ok bc" and ff: "fault_free r"
  obtains d' where "strengthen_links r bc ctx i delta now_ms d = Inr d'"
    and "\<And>f. postings r (c_context_links bc) d' (C64 CONTEXT_LINKS f) =
      (if f \<in> set (entity_hashes ctx) \<union> set (topic_hashes ctx)
       then strengthen_entry delta now_ms i (postings r (c_context_links bc) d (C64 CONTEXT_LINKS f))
       else postings r (c_context_links bc) d (C64 CONTEXT_LINKS f))"
    and "\<And>c. c \<notin> range (C64 CONTEXT_LINKS) \<Longrightarrow> db_get r d' c = db_get r d c"
proof (cases "ctx_is_empty ctx")
  case True
  then show thesis using that[of d] by (simp add: strengthen_links_def ctx_is_empty_def)
next
  case False
  obtain d' where
    d': "try_for_each (strengthen_feature r bc i delta now_ms) (feature_hashes ctx) d = Inr d'"
      "\<And>f. f \<in> set (feature_hashes ctx) \<Longrightarrow> postings r (c_context_links bc) d' (C64 CONTEXT_LINKS f) =
        strengthen_entry delta now_ms i (postings r (c_context_links bc) d (C64 CONTEXT_LINKS f))"
      "\<And>c. c \<notin> C64 CONTEXT_LINKS ` set (feature_hashes ctx) \<Longrightarrow> db_get r d' c = db_get r d c"
    using strengthen_features_ok[OF db bc feature_hashes_simps(2)[of ctx]] by blast
  have keep: "postings r (c_context_links bc) d' (C64 CONTEXT_LINKS f) =
      postings r (c_context_links bc) d (C64 CONTEXT_LINKS f)" if "f \<notin> set (feature_hashes ctx)" for f
    by (rule postings_cong, rule d'(3)) (use that in auto)
  show thesis
  proof (rule that[of d'])
    show "strengthen_links r bc ctx i delta now_ms d = Inr d'"
      using False d'(1) ff by (simp add: strengthen_links_def)
    show "db_get r d' c = db_get r d c" if "c \<notin> range (C64 CONTEXT_LINKS)" for c
      by (rule d'(3)) (use that in blast)
  qed (use d'(2) keep in simp)
qed

lemma run_ctx_op_ok:
  assumes db: "redb_ok r" and bc: "bincode_ok bc" and ff: "fault_free r"
    and "ctx_ok r bc d" "ctx_op_ok op"
  shows "\<exists>d'. run_ctx_op r bc op d = Inr d' \<and> ctx_ok r bc d' \<and>
    ctx_rel r bc d' = spec_ctx_op op (ctx_rel r bc d)"
proof (cases op)
  case (Strengthen ctx i delta now_ms)
  obtain d' where d': "strengthen_links r bc ctx i delta now_ms d = Inr d'"
    "\<And>f. postings r (c_context_links bc) d' (C64 CONTEXT_LINKS f) =
      (if f \<in> set (entity_hashes ctx) \<union> set (topic_hashes ctx)
       then strengthen_entry delta now_ms i (postings r (c_context_links bc) d (C64 CONTEXT_LINKS f))
       else postings r (c_context_links bc) d (C64 CONTEXT_LINKS f))"
    using strengthen_links_ok[OF db bc ff] by metis
  have "(f, j) \<in> ctx_rel r bc d' \<longleftrightarrow> (f, j) \<in> spec_ctx_op op (ctx_rel r bc d)" for f j
    by (auto simp: ctx_rel_def d'(2) ctx_links.mem_add Strengthen simp del: image_iff)
  moreover have "ctx_ok r bc d'"
    using assms(4,5) by (simp add: ctx_ok_def d'(2) Strengthen ctx_list_ok_strengthen)
  ultimately show ?thesis using d'(1) by (auto simp: Strengthen)
next
  case (Unlink i)
  obtain d' where "remove_memory_links r bc i d = Inr d'"
    "\<And>f. postings r (c_context_links bc) d' (C64 CONTEXT_LINKS f) =
      strip_entries cl_memory_id i (postings r (c_context_links bc) d (C64 CONTEXT_LINKS f))"
    using remove_links_ok[OF db bc ff] by metis
  then show ?thesis
    using assms(4) by (auto simp: Unlink ctx_ok_def ctx_rel_def ctx_list_ok_strip)
qed

section \<open>Effective strengths\<close>

lemma effective_strength_bounds:
  assumes "powf_half_ok powf" "unit_f32 (cl_strength l)"
  shows "unit_f32 (effective_strength powf l now_ms)"
    and "effective_strength powf l now_ms \<le> cl_strength l"
proof -
  obtain q where q: "cl_strength l = F32 q" "0 \<le> q" "q \<le> 1" "round32 q = q"
    using assms(2) by (rule unit_f32E)
  obtain x where x: "f64_mul (f64_of_f32 (F32 q)) (powf (F64 (1/2))
      (f64_div (f64_of_i64 (max (i64_sub now_ms (cl_last_reviewed_at_ms l)) 0))
        (f64_mul (f64_of_i64 86400000) (f64_powi (F64 2) (unat (min (cl_review_count l) 6)))))) = F64 x"
      "0 \<le> x" "x \<le> q"
    using decayed_product_bounds[OF assms(1) q(2-4) decay_exponent_nonneg] by blast
  have eff: "effective_strength powf l now_ms = f32_of_rat x"
    using x(1) by (simp add: effective_strength_def q LINK_HALF_LIFE_BASE_MS_def
        LINK_HALF_LIFE_MAX_DOUBLINGS_def)
  show "unit_f32 (effective_strength powf l now_ms)"
    unfolding eff by (rule unit_f32_of_rat) (use x q in auto)
  have "f32_valid (F32 q)" using unit_f32_valid[OF assms(2)] unfolding q(1) .
  then show "effective_strength powf l now_ms \<le> cl_strength l"
    unfolding eff q(1) using x by (intro f32_of_rat_le)
qed

lemma effective_strength_now:
  assumes "powf_zero_ok powf" "unit_f32 (cl_strength l)" "cl_last_reviewed_at_ms l = now_ms"
  shows "effective_strength powf l now_ms = cl_strength l"
proof -
  obtain q where q: "cl_strength l = F32 q" "0 \<le> q" "q \<le> 1" "round32 q = q"
    using assms(2) by (rule unit_f32E)
  have z: "f64_of_i64 0 = F64 0" by (simp add: f64_of_i64_def f64_of_rat_def r64.R_zero f64_max_finite_def)
  have "i64_sub now_ms now_ms = 0" by (simp add: i64_sub_def i64_wrap_def)
  then have "f64_div (f64_of_i64 (max (i64_sub now_ms now_ms) 0)) (f64_mul (f64_of_i64 86400000)
      (f64_powi (F64 2) (unat (min (cl_review_count l) 6)))) = F64 0"
    unfolding f64_half_life_u32 using z by (simp add: f64_of_rat_def r64.R_zero f64_max_finite_def)
  moreover have "f64_of_rat q = F64 q"
    using f64_of_rat_unit[OF q(2,3)] round64_round32[OF q(4)] by simp
  moreover have "f32_of_rat q = F32 q"
    using unit_f32_valid[OF assms(2)] unfolding q(1) by (rule f32_of_rat_id)
  ultimately show ?thesis
    using assms(1,3) by (simp add: effective_strength_def LINK_HALF_LIFE_BASE_MS_def
        LINK_HALF_LIFE_MAX_DOUBLINGS_def powf_zero_ok_def q(1))
qed

section \<open>Collected strengths\<close>

lemma fold_collect_concat:
  "fold (\<lambda>f. fold g (h f)) fs out = fold g (concat (map h fs)) out"
  by (induction fs arbitrary: out) auto

text \<open>Collecting a list of links keeps the largest effective strength of every memory.\<close>

definition collect_inv :: "(context_link \<Rightarrow> f32) \<Rightarrow> context_link list \<Rightarrow> (u128 \<times> f32) list \<Rightarrow> bool" where
  "collect_inv eff ls out \<longleftrightarrow> distinct (map fst out) \<and>
     (\<forall>i s. map_of out i = Some s \<longrightarrow> (\<exists>l \<in> set ls. cl_memory_id l = i \<and> eff l = s)) \<and>
     (\<forall>l \<in> set ls. \<exists>s. map_of out (cl_memory_id l) = Some s \<and> eff l \<le> s)"

lemma collect_inv_step:
  assumes inv: "collect_inv eff ls out" and nn: "eff l \<noteq> F32_NaN" "\<forall>l' \<in> set ls. eff l' \<noteq> F32_NaN"
  shows "collect_inv eff (ls @ [l]) (entry_upsert (cl_memory_id l) (\<lambda>s. f32_max s (eff l)) (eff l) out)"
proof (cases "map_of out (cl_memory_id l)")
  case None
  then show ?thesis
    using inv nn unfolding collect_inv_def
    by (auto simp: map_of_entry_upsert distinct_entry_upsert f32_le_refl split: if_splits)
next
  case (Some s)
  then obtain l0 where l0: "l0 \<in> set ls" "cl_memory_id l0 = cl_memory_id l" "eff l0 = s"
    using inv unfolding collect_inv_def by blast
  have s: "s \<noteq> F32_NaN" using nn l0 by blast
  note mx = f32_max_ge(1)[OF s, of "eff l"] f32_max_ge(2)[OF nn(1), of s] f32_max_cases[of s "eff l"]
  have up: "map_of (entry_upsert (cl_memory_id l) (\<lambda>s. f32_max s (eff l)) (eff l) out) =
      (map_of out)(cl_memory_id l \<mapsto> f32_max s (eff l))"
    by (simp add: map_of_entry_upsert Some)
  have "\<exists>l' \<in> set (ls @ [l]). cl_memory_id l' = i \<and> eff l' = t"
    if "((map_of out)(cl_memory_id l \<mapsto> f32_max s (eff l))) i = Some t" for i t
    using that mx(3) l0 inv unfolding collect_inv_def by (auto split: if_splits)
  moreover have "\<exists>t. ((map_of out)(cl_memory_id l \<mapsto> f32_max s (eff l))) (cl_memory_id l') = Some t \<and>
      eff l' \<le> t" if l': "l' \<in> set (ls @ [l])" for l'
  proof (cases "cl_memory_id l' = cl_memory_id l")
    case True
    have "eff l' \<le> f32_max s (eff l)"
    proof (cases "l' \<in> set ls")
      case True
      with inv \<open>cl_memory_id l' = cl_memory_id l\<close> Some have "eff l' \<le> s"
        unfolding collect_inv_def by fastforce
      then show ?thesis using mx(1) f32_le_trans by blast
    qed (use l' mx(2) in auto)
    with True show ?thesis by simp
  qed (use l' inv in \<open>auto simp: collect_inv_def\<close>)
  ultimately show ?thesis
    using inv unfolding collect_inv_def up by (auto simp: distinct_entry_upsert)
qed

lemma collect_inv_fold:
  assumes "\<forall>l \<in> set (ls0 @ ls). effective_strength powf l now_ms \<noteq> F32_NaN"
    and "collect_inv (\<lambda>l. effective_strength powf l now_ms) ls0 out"
  shows "collect_inv (\<lambda>l. effective_strength powf l now_ms) (ls0 @ ls) (fold (collect_link powf now_ms) ls out)"
  using assms
proof (induction ls arbitrary: ls0 out)
  case (Cons l ls)
  have "collect_inv (\<lambda>l. effective_strength powf l now_ms) (ls0 @ [l]) (collect_link powf now_ms l out)"
    unfolding collect_link_def Let_def
    by (rule collect_inv_step[where eff = "\<lambda>l. effective_strength powf l now_ms"]) (use Cons.prems in auto)
  with Cons.IH[of "ls0 @ [l]"] Cons.prems(1) show ?case by simp
qed simp

section \<open>Properties\<close>

text \<open>C16: whatever sequence of confirmations and removals runs, it succeeds, every feature keeps
  at most one link per memory with a strength in the unit interval, and the linked pairs of
  features and memories are those that inserting and deleting in the relation leaves: a removed
  memory has no link, a confirmed one is linked to every feature of the query.\<close>

theorem context_links_refine:
  assumes "redb_ok r" "bincode_ok bc" "fault_free r" "ctx_ok r bc d" "list_all ctx_op_ok ops"
  shows "\<exists>d'. try_for_each (run_ctx_op r bc) ops d = Inr d' \<and> ctx_ok r bc d' \<and>
    ctx_rel r bc d' = fold spec_ctx_op ops (ctx_rel r bc d)"
  using assms(4,5)
proof (induction ops arbitrary: d)
  case (Cons op ops)
  obtain d1 where d1: "run_ctx_op r bc op d = Inr d1" "ctx_ok r bc d1"
      "ctx_rel r bc d1 = spec_ctx_op op (ctx_rel r bc d)"
    using run_ctx_op_ok[OF assms(1-3)] Cons.prems by force
  then show ?case using Cons.IH[of d1] Cons.prems by auto
qed simp

definition demo_ctx :: query_context where
  "demo_ctx = \<lparr>entity_hashes = [3, 3], topic_hashes = [4]\<rparr>"

theorem context_links_refine_witness:
  "\<exists>d'. try_for_each (run_ctx_op cells_redb cells_bincode)
       [Strengthen demo_ctx 5 (F32 1) 0, Strengthen demo_ctx 6 (F32 1) 0, Unlink 5] [] = Inr d' \<and>
     ctx_rel cells_redb cells_bincode d' = {(3, 6), (4, 6)}"
proof -
  have init: "ctx_ok cells_redb cells_bincode []" "ctx_rel cells_redb cells_bincode [] = {}"
    by (simp_all add: ctx_ok_def ctx_list_ok_def ctx_rel_def postings_def cells_redb_def)
  moreover have "list_all ctx_op_ok
      [Strengthen demo_ctx 5 (F32 1) 0, Strengthen demo_ctx 6 (F32 1) 0, Unlink 5]"
    by (simp only: list.pred_inject ctx_op_ok.simps unit_f32_01 simp_thms)
  moreover have "fold spec_ctx_op
      [Strengthen demo_ctx 5 (F32 1) 0, Strengthen demo_ctx 6 (F32 1) 0, Unlink 5] {} = {(3, 6), (4, 6)}"
    by (auto simp: demo_ctx_def)
  ultimately show ?thesis
    using context_links_refine[OF cells_redb_ok cells_bincode_ok cells_fault_free, of "[]"
        "[Strengthen demo_ctx 5 (F32 1) 0, Strengthen demo_ctx 6 (F32 1) 0, Unlink 5]"]
    by auto
qed

text \<open>Collecting the links of a query lists every memory linked to a feature of the query once,
  with the largest effective strength of its links: a number of the unit interval that is the
  effective strength of one of these links and not below any other.\<close>

theorem collect_link_strengths_spec:
  fixes ctx :: query_context and now_ms :: i64
  assumes "powf_half_ok powf" "ctx_ok r bc d" "read_fault r d (T64 CONTEXT_LINKS) = None"
  defines "ls \<equiv> concat (map (\<lambda>f. postings r (c_context_links bc) d (C64 CONTEXT_LINKS f))
    (feature_hashes ctx))"
    and "out \<equiv> collect_link_strengths r bc powf ctx now_ms d"
  shows "distinct (map fst out) \<and> fst ` set out = cl_memory_id ` set ls \<and>
    list_all (\<lambda>(i, s). unit_f32 s \<and>
      list_ex (\<lambda>l. cl_memory_id l = i \<and> effective_strength powf l now_ms = s) ls \<and>
      list_all (\<lambda>l. cl_memory_id l = i \<longrightarrow> effective_strength powf l now_ms \<le> s) ls) out"
proof -
  let ?eff = "\<lambda>l. effective_strength powf l now_ms"
  have unit: "unit_f32 (?eff l)" if "l \<in> set ls" for l
    using that assms(1,2) by (intro effective_strength_bounds)
      (auto simp: ls_def ctx_ok_def ctx_list_ok_def list_all_iff)
  have "out = fold (collect_link powf now_ms) ls []"
  proof (cases "ctx_is_empty ctx")
    case True
    then have fh: "feature_hashes ctx = []" by simp
    show ?thesis unfolding out_def ls_def collect_link_strengths_def fh using True by simp
  next
    case False
    then show ?thesis using assms(3)
      by (simp add: out_def collect_link_strengths_def ls_def fold_collect_concat)
  qed
  moreover have "collect_inv ?eff ([] @ ls) (fold (collect_link powf now_ms) ls [])"
  proof (rule collect_inv_fold)
    show "\<forall>l \<in> set ([] @ ls). ?eff l \<noteq> F32_NaN" using unit by (auto dest!: unit)
  qed (simp add: collect_inv_def)
  ultimately have inv: "collect_inv ?eff ls out" by simp
  then have dist: "distinct (map fst out)" by (simp add: collect_inv_def)
  from inv have sound: "\<And>i s. map_of out i = Some s \<Longrightarrow> \<exists>l \<in> set ls. cl_memory_id l = i \<and> ?eff l = s"
    and complete: "\<And>l. l \<in> set ls \<Longrightarrow> \<exists>s. map_of out (cl_memory_id l) = Some s \<and> ?eff l \<le> s"
    by (auto simp: collect_inv_def)
  have mem: "map_of out i = Some s" if "(i, s) \<in> set out" for i s using dist that by simp
  have "i \<in> cl_memory_id ` set ls" if "(i, s) \<in> set out" for i s
    using sound[OF mem[OF that]] by blast
  moreover have "cl_memory_id l \<in> fst ` set out" if "l \<in> set ls" for l
    using complete[OF that] map_of_SomeD by force
  ultimately have keys: "fst ` set out = cl_memory_id ` set ls" by auto
  have "unit_f32 s \<and> (\<exists>l \<in> set ls. cl_memory_id l = i \<and> ?eff l = s) \<and>
      (\<forall>l \<in> set ls. cl_memory_id l = i \<longrightarrow> ?eff l \<le> s)" if "(i, s) \<in> set out" for i s
  proof (intro conjI ballI impI)
    show ex: "\<exists>l \<in> set ls. cl_memory_id l = i \<and> ?eff l = s" by (rule sound[OF mem[OF that]])
    then show "unit_f32 s" using unit by blast
    show "?eff l \<le> s" if "l \<in> set ls" "cl_memory_id l = i" for l
      using complete[OF that(1)] mem[OF \<open>(i, s) \<in> set out\<close>] that(2) by simp
  qed
  then show ?thesis using dist keys by (auto simp: list_all_iff list_ex_iff)
qed

text \<open>A stored link of strength one, reviewed now.\<close>

definition demo_ctx_cells :: cells where
  "demo_ctx_cells = [(C64 CONTEXT_LINKS 3, B_context_links
     [\<lparr>cl_memory_id = 5, cl_strength = F32 1, cl_review_count = 1, cl_last_reviewed_at_ms = 0\<rparr>])]"

theorem collect_link_strengths_spec_witness:
  "fst ` set (collect_link_strengths cells_redb cells_bincode powf_step demo_ctx 0 demo_ctx_cells) = {5}"
proof -
  have f: "feature_hashes demo_ctx = [3, 4]" by (simp add: feature_hashes_def demo_ctx_def)
  have p: "postings cells_redb (c_context_links cells_bincode) demo_ctx_cells (C64 CONTEXT_LINKS k) =
      (if k = 3 then [\<lparr>cl_memory_id = 5, cl_strength = F32 1, cl_review_count = 1,
        cl_last_reviewed_at_ms = 0\<rparr>] else [])" for k
    by (simp add: postings_def cells_redb_def cells_bincode_def demo_ctx_cells_def)
  have ok: "ctx_ok cells_redb cells_bincode demo_ctx_cells"
    unfolding ctx_ok_def p using unit_f32_01(2) by (simp add: ctx_list_ok_def)
  have "read_fault cells_redb demo_ctx_cells (T64 CONTEXT_LINKS) = None"
    by (simp add: cells_redb_def)
  from collect_link_strengths_spec[OF powf_step_ok ok this, of demo_ctx 0]
  show ?thesis unfolding f by (simp add: p)
qed

end
