(* ===== verification/Engine_Core.thy ===== *)
theory Engine_Core
  imports Store_Context
begin

text \<open>
  The error type and the operations of \<open>hippmem-engine\<close> that change the store without the model
  back ends: \<open>delete\<close> (\<open>delete_api.rs\<close>), \<open>feedback\<close> (\<open>feedback_api.rs\<close>, \<open>signals.rs\<close>) and the
  loading of all units (\<open>retrieve_api.rs\<close>).

  An engine operation runs several transactions; when it returns an error the transactions
  committed before stay. It is a function from the database state to the state it leaves and its
  result. The invariant \<open>store_sync\<close> ties the authoritative units of \<open>memory_kv\<close> to the edge lists
  of \<open>link_overlay\<close>, which the code keeps in two tables.
\<close>

section \<open>Errors and sequencing\<close>

text \<open>The last constructor stands for a Rust panic.\<close>

datatype engine_error =
    EE_Store string | EE_NotFound memory_id | EE_InvalidInput string | EE_SchemaTooNew u16
  | EE_Model string | EE_BackendUnavailable string | EE_Internal string | EE_Panic string

type_synonym ('d, 'a) eng = "'d \<Rightarrow> 'd \<times> (engine_error + 'a)"

definition eng_return :: "'a \<Rightarrow> ('d, 'a) eng" where
  "eng_return x d = (d, Inr x)"

definition eng_bind :: "('d, 'a) eng \<Rightarrow> ('a \<Rightarrow> ('d, 'b) eng) \<Rightarrow> ('d, 'b) eng" where
  "eng_bind m f d = (case m d of (d', Inl e) \<Rightarrow> (d', Inl e) | (d', Inr a) \<Rightarrow> f a d')"

text \<open>A store operation that writes, one that reads, and a computation without the store.\<close>

definition eng_write :: "('e \<Rightarrow> engine_error) \<Rightarrow> ('d \<Rightarrow> 'e + 'd) \<Rightarrow> ('d, unit) eng" where
  "eng_write conv w d = (case w d of Inl e \<Rightarrow> (d, Inl (conv e)) | Inr d' \<Rightarrow> (d', Inr ()))"

definition eng_read :: "('e \<Rightarrow> engine_error) \<Rightarrow> ('d \<Rightarrow> 'e + 'a) \<Rightarrow> ('d, 'a) eng" where
  "eng_read conv q d = (d, map_err conv (q d))"

definition eng_pure :: "('e \<Rightarrow> engine_error) \<Rightarrow> 'e + 'a \<Rightarrow> ('d, 'a) eng" where
  "eng_pure conv x d = (d, map_err conv x)"

text \<open>\<open>let _ = ...\<close>: the result is dropped, the effect stays.\<close>

definition eng_ignore :: "('d, 'a) eng \<Rightarrow> ('d, unit) eng" where
  "eng_ignore m d = (fst (m d), Inr ())"

fun eng_loop :: "('x \<Rightarrow> 's \<Rightarrow> ('d, 's) eng) \<Rightarrow> 'x list \<Rightarrow> 's \<Rightarrow> ('d, 's) eng" where
  "eng_loop f [] s = eng_return s"
| "eng_loop f (x # xs) s = eng_bind (f x s) (eng_loop f xs)"

lemma eng_simps [simp]:
  "eng_return x d = (d, Inr x)"
  "m d = (d', Inr a) \<Longrightarrow> eng_bind m f d = f a d'"
  "m d = (d', Inl e) \<Longrightarrow> eng_bind m f d = (d', Inl e)"
  "w d = Inr d' \<Longrightarrow> eng_write conv w d = (d', Inr ())"
  "w d = Inl se \<Longrightarrow> eng_write conv w d = (d, Inl (conv se))"
  "eng_read conv' q d = (d, map_err conv' (q d))"
  "eng_pure conv'' x' d = (d, map_err conv'' x')"
  by (simp_all add: eng_return_def eng_bind_def eng_write_def eng_read_def eng_pure_def)

text \<open>The \<open>Display\<close> text of a store error.\<close>

fun store_error_string :: "store_error \<Rightarrow> string" where
  "store_error_string (SE_Database e) = ''Database error: '' @ e"
| "store_error_string (SE_Transaction e) = ''Transaction error: '' @ e"
| "store_error_string (SE_Table e) = ''Table error: '' @ e"
| "store_error_string (SE_Commit e) = ''Commit error: '' @ e"
| "store_error_string (SE_Storage e) = ''Storage error: '' @ e"
| "store_error_string (SE_Io e) = ''IO error: '' @ e"
| "store_error_string (RecordExists i) =
     ''Record already exists, cannot be overwritten: id='' @ nat_str (unat i)"
| "store_error_string (SE_Panic e) = e"

fun engine_error_of :: "store_error \<Rightarrow> engine_error" where
  "engine_error_of (SE_Panic e) = EE_Panic e"
| "engine_error_of e = EE_Store (store_error_string e)"

section \<open>Loading units (retrieve_api.rs)\<close>

definition load_all_units :: "('d, 'b) redb \<Rightarrow> 'b bincode \<Rightarrow> 'd \<Rightarrow> engine_error + memory_unit list" where
  "load_all_units r bc d =
     read_txn r (\<lambda>f. EE_Panic (fault_text f)) d (T128 MEMORY_KV)
       (Inr (List.map_filter (\<lambda>(_, v). result_ok (dec (c_unit bc) v)) (db_iter128 r MEMORY_KV d)))"

section \<open>Signals (signals.rs)\<close>

datatype usage_signal = Referenced | UserConfirmedCorrect | TaskSucceeded | UserRejected

fun signal_to_string :: "usage_signal \<Rightarrow> string" where
  "signal_to_string Referenced = ''Referenced''"
| "signal_to_string UserConfirmedCorrect = ''UserConfirmedCorrect''"
| "signal_to_string TaskSucceeded = ''TaskSucceeded''"
| "signal_to_string UserRejected = ''UserRejected''"

definition is_positive_signal :: "string \<Rightarrow> bool" where
  "is_positive_signal s \<longleftrightarrow> s \<in> set [''Referenced'', ''UserConfirmedCorrect'', ''TaskSucceeded'']"

definition usage_delta :: "string \<Rightarrow> f32" where
  "usage_delta s =
     (if s = ''UserConfirmedCorrect'' then f32_of_rat (10/100)
      else if s = ''TaskSucceeded'' then f32_of_rat (8/100)
      else if s = ''Referenced'' then f32_of_rat (5/100)
      else if s = ''UserRejected'' then - f32_of_rat (10/100)
      else F32 0)"

section \<open>Deletion (delete_api.rs)\<close>

record delete_output =
  deleted :: u64
  edges_removed :: u64

definition delete_state :: "('d, 'b) redb \<Rightarrow> u128 \<Rightarrow> 'd \<Rightarrow> string + 'd" where
  "delete_state r i d =
     write_txn r fault_text d
       (Inr (db_remove r (C128 LINK_OVERLAY i)
         (db_remove r (C128 DENSE_VECTORS i) (db_remove r (C128 MEMORY_KV i) d))))"

definition sync_unit_links ::
    "('d, 'b) redb \<Rightarrow> 'b bincode \<Rightarrow> u128 \<Rightarrow> association_link list \<Rightarrow> ('d, unit) eng" where
  "sync_unit_links r bc j remaining =
     eng_bind (eng_read engine_error_of (kv_get r j)) (\<lambda>raw.
       case raw of
         None \<Rightarrow> eng_return ()
       | Some raw \<Rightarrow>
           (case dec (c_unit bc) raw of
              Inl _ \<Rightarrow> eng_return ()
            | Inr u \<Rightarrow>
                eng_bind (eng_pure EE_Internal (enc (c_unit bc) (u\<lparr>links := remaining\<rparr>))) (\<lambda>enc_u.
                  eng_write engine_error_of (kv_put r j enc_u))))"

definition cascade_unit ::
    "('d, 'b) redb \<Rightarrow> 'b bincode \<Rightarrow> u128 \<Rightarrow> memory_unit \<Rightarrow> u64 \<Rightarrow> ('d, u64) eng" where
  "cascade_unit r bc i u edges =
     (if as_u128 (mem_id u) = i then eng_return edges
      else let remaining = filter (\<lambda>l. as_u128 (target_id l) \<noteq> i) (links u) in
           if length remaining \<noteq> length (links u)
           then eng_bind (eng_write EE_Store (put_outgoing r bc (mem_id u) remaining)) (\<lambda>_.
                eng_bind (sync_unit_links r bc (as_u128 (mem_id u)) remaining) (\<lambda>_.
                  eng_return (edges + of_nat (length (links u) - length remaining))))
           else eng_return edges)"

definition delete_one ::
    "('d, 'b) redb \<Rightarrow> 'b bincode \<Rightarrow> memory_unit list \<Rightarrow> memory_id \<Rightarrow> delete_output
      \<Rightarrow> ('d, delete_output) eng" where
  "delete_one r bc units mid out =
     eng_bind (eng_read engine_error_of (kv_get r (as_u128 mid))) (\<lambda>raw.
       if raw = None then eng_return out
       else
         eng_bind (eng_write EE_Store (delete_state r (as_u128 mid))) (\<lambda>_.
         eng_bind (eng_loop (cascade_unit r bc (as_u128 mid)) units (edges_removed out)) (\<lambda>edges.
         eng_bind (eng_write engine_error_of (remove_memory_from_indexes r bc (as_u128 mid))) (\<lambda>_.
         eng_bind (eng_write EE_Store (remove_memory_links r bc (as_u128 mid))) (\<lambda>_.
           eng_return \<lparr>deleted = deleted out + 1, edges_removed = edges\<rparr>)))))"

definition delete ::
    "('d, 'b) redb \<Rightarrow> 'b bincode \<Rightarrow> memory_id list \<Rightarrow> ('d, delete_output) eng" where
  "delete r bc memory_ids =
     eng_bind (eng_read (\<lambda>e. e) (load_all_units r bc)) (\<lambda>units.
       eng_loop (delete_one r bc units) memory_ids \<lparr>deleted = 0, edges_removed = 0\<rparr>)"

section \<open>Feedback (feedback_api.rs)\<close>

text \<open>The clock is read once for the record and again for every strengthened edge: \<open>edge_now\<close> gives
  the reading at a path.\<close>

record feedback_input =
  fb_retrieval_id :: u64
  fb_used_memory_ids :: "memory_id list"
  fb_signal :: usage_signal

definition CONTEXT_LINK_DELTA :: f32 where
  "CONTEXT_LINK_DELTA = f32_of_rat (25/100)"

definition apply_usage :: "f32 \<Rightarrow> memory_unit \<Rightarrow> memory_unit" where
  "apply_usage amount u =
     u\<lparr>activation := (activation u)\<lparr>usage_score :=
        unit_score_new (clamp01 (score_value (usage_score (activation u)) + amount))\<rparr>\<rparr>"

definition apply_delta_one ::
    "('d, 'b) redb \<Rightarrow> 'b bincode \<Rightarrow> f32 \<Rightarrow> u128 \<Rightarrow> ('d, unit) eng" where
  "apply_delta_one r bc amount i =
     eng_bind (eng_read engine_error_of (kv_get r i)) (\<lambda>raw.
       case raw of
         None \<Rightarrow> eng_return ()
       | Some raw \<Rightarrow>
           eng_bind (eng_pure EE_Internal (dec (c_unit bc) raw)) (\<lambda>u.
           eng_bind (eng_pure EE_Internal (enc (c_unit bc) (apply_usage amount u))) (\<lambda>encoded.
             eng_write engine_error_of (kv_put r i encoded))))"

definition review_edge :: "timestamp \<Rightarrow> f32 \<Rightarrow> association_link \<Rightarrow> association_link" where
  "review_edge now delta l =
     l\<lparr>strength := unit_score_new (f32_min (link_strength l + delta) (F32 1)),
       last_activated_at := Some now,
       activation_count := u32_saturating_add (activation_count l) 1\<rparr>"

definition review_edges ::
    "timestamp \<Rightarrow> f32 \<Rightarrow> u128 \<Rightarrow> association_link list \<Rightarrow> association_link list" where
  "review_edges now delta to ls =
     map (\<lambda>l. if as_u128 (target_id l) = to then review_edge now delta l else l) ls"

definition has_target :: "u128 \<Rightarrow> association_link list \<Rightarrow> bool" where
  "has_target to ls \<longleftrightarrow> list_ex (\<lambda>l. as_u128 (target_id l) = to) ls"

definition strengthen_edge ::
    "('d, 'b) redb \<Rightarrow> 'b bincode \<Rightarrow> timestamp \<Rightarrow> u128 \<Rightarrow> u128 \<Rightarrow> f32 \<Rightarrow> ('d, unit) eng" where
  "strengthen_edge r bc now from_id to_id delta =
     eng_bind (eng_read engine_error_of (kv_get r from_id)) (\<lambda>raw.
     eng_bind (case raw of
         None \<Rightarrow> eng_return ()
       | Some raw \<Rightarrow>
           eng_bind (eng_pure EE_Internal (dec (c_unit bc) raw)) (\<lambda>u.
             if has_target to_id (links u)
             then eng_bind (eng_pure EE_Internal
                    (enc (c_unit bc) (u\<lparr>links := review_edges now delta to_id (links u)\<rparr>))) (\<lambda>encoded.
                    eng_write engine_error_of (kv_put r from_id encoded))
             else eng_return ())) (\<lambda>_.
     eng_bind (eng_read EE_Store (get_outgoing r bc (MemoryId from_id))) (\<lambda>ls.
       if has_target to_id ls
       then eng_write EE_Store (put_outgoing r bc (MemoryId from_id) (review_edges now delta to_id ls))
       else eng_return ())))"

definition feedback_record :: "feedback_input \<Rightarrow> timestamp \<Rightarrow> activation_record" where
  "feedback_record input now =
     \<lparr>retrieval_id = fb_retrieval_id input,
      used_memory_ids = map as_u128 (fb_used_memory_ids input),
      signal = signal_to_string (fb_signal input), recorded_at_ms = as_i64 now\<rparr>"

definition strengthen_context ::
    "('d, 'b) redb \<Rightarrow> 'b bincode \<Rightarrow> feedback_input \<Rightarrow> timestamp \<Rightarrow> ('d, unit) eng" where
  "strengthen_context r bc input now d =
     (case read_query_context r bc (fb_retrieval_id input) d of
        None \<Rightarrow> (d, Inr ())
      | Some ctx \<Rightarrow>
          eng_loop (\<lambda>i _. eng_ignore (eng_write EE_Store
              (strengthen_links r bc ctx (as_u128 i) CONTEXT_LINK_DELTA (as_i64 now))))
            (fb_used_memory_ids input) () d)"

definition strengthen_paths ::
    "('d, 'b) redb \<Rightarrow> 'b bincode \<Rightarrow> feedback_input \<Rightarrow> (retrieval_path \<Rightarrow> timestamp)
      \<Rightarrow> ('d, unit) eng" where
  "strengthen_paths r bc input edge_now d =
     eng_loop (\<lambda>p _.
         if list_ex (\<lambda>i. as_u128 i = path_to p) (fb_used_memory_ids input)
         then eng_ignore (strengthen_edge r bc (edge_now p) (path_from p) (path_to p) CONTEXT_LINK_DELTA)
         else eng_return ())
       (read_retrieval_paths r bc (fb_retrieval_id input) d) () d"

definition feedback ::
    "('d, 'b) redb \<Rightarrow> 'b bincode \<Rightarrow> timestamp \<Rightarrow> (retrieval_path \<Rightarrow> timestamp) \<Rightarrow> feedback_input
      \<Rightarrow> ('d, unit) eng" where
  "feedback r bc now edge_now input =
     eng_bind (eng_write (\<lambda>e. EE_Internal (''activation_log: '' @ e))
         (record_activation r bc (feedback_record input now))) (\<lambda>_.
     let sig = signal_to_string (fb_signal input); delta = usage_delta sig in
     eng_bind (if delta \<noteq> F32 0 \<and> fb_used_memory_ids input \<noteq> []
               then eng_loop (\<lambda>i _. apply_delta_one r bc delta i)
                 (map as_u128 (fb_used_memory_ids input)) ()
               else eng_return ()) (\<lambda>_.
     if is_positive_signal sig \<and> fb_used_memory_ids input \<noteq> []
     then eng_bind (strengthen_context r bc input now) (\<lambda>_. strengthen_paths r bc input edge_now)
     else eng_return ()))"

section \<open>Units and their edge lists\<close>

definition unit_at :: "('d, 'b) redb \<Rightarrow> 'b bincode \<Rightarrow> 'd \<Rightarrow> u128 \<Rightarrow> memory_unit option" where
  "unit_at r bc d j =
     (case db_get r d (C128 MEMORY_KV j) of
        Some v \<Rightarrow> result_ok (dec (c_unit bc) v)
      | None \<Rightarrow> None)"

definition links_at :: "('d, 'b) redb \<Rightarrow> 'b bincode \<Rightarrow> 'd \<Rightarrow> u128 \<Rightarrow> association_link list" where
  "links_at r bc d j = postings r (c_links bc) d (C128 LINK_OVERLAY j)"

text \<open>Every stored unit is decodable, carries its key as identifier, and its edges are those of the
  graph overlay.\<close>

definition store_sync :: "('d, 'b) redb \<Rightarrow> 'b bincode \<Rightarrow> 'd \<Rightarrow> bool" where
  "store_sync r bc d \<longleftrightarrow>
     (\<forall>j v. db_get r d (C128 MEMORY_KV j) = Some v \<longrightarrow>
        (\<exists>u. dec (c_unit bc) v = Inr u \<and> mem_id u = MemoryId j \<and> links_at r bc d j = links u))"

definition graph_cell :: "cell \<Rightarrow> bool" where
  "graph_cell c \<longleftrightarrow> (\<exists>j. c = C128 MEMORY_KV j \<or> c = C128 LINK_OVERLAY j)"

lemma store_syncD:
  assumes "store_sync r bc d" "db_get r d (C128 MEMORY_KV j) = Some v"
  obtains u where "dec (c_unit bc) v = Inr u" "mem_id u = MemoryId j" "links_at r bc d j = links u"
    "unit_at r bc d j = Some u"
  using assms unfolding store_sync_def unit_at_def by fastforce

lemma views_cong:
  assumes "db_get r d' (C128 MEMORY_KV j) = db_get r d (C128 MEMORY_KV j)"
    "db_get r d' (C128 LINK_OVERLAY j) = db_get r d (C128 LINK_OVERLAY j)"
  shows "unit_at r bc d' j = unit_at r bc d j" "links_at r bc d' j = links_at r bc d j"
  using assms by (simp_all add: unit_at_def links_at_def postings_def)

lemma store_sync_frame:
  assumes "store_sync r bc d" "\<And>c. graph_cell c \<Longrightarrow> db_get r d' c = db_get r d c"
  shows "store_sync r bc d'"
proof -
  have "db_get r d' (C128 MEMORY_KV j) = db_get r d (C128 MEMORY_KV j)"
    "db_get r d' (C128 LINK_OVERLAY j) = db_get r d (C128 LINK_OVERLAY j)" for j
    by (simp_all add: assms(2) graph_cell_def)
  then show ?thesis using assms(1) views_cong(2)[of r d' _ d bc] by (simp add: store_sync_def)
qed

text \<open>An operation that changes the cells of one unit keeps the invariant if it keeps it there.\<close>

lemma store_sync_update:
  assumes sync: "store_sync r bc d"
    and frame: "\<And>c. graph_cell c \<Longrightarrow> c \<noteq> C128 MEMORY_KV j \<Longrightarrow> c \<noteq> C128 LINK_OVERLAY j \<Longrightarrow>
      db_get r d' c = db_get r d c"
    and new: "\<And>v. db_get r d' (C128 MEMORY_KV j) = Some v \<Longrightarrow>
      \<exists>u. dec (c_unit bc) v = Inr u \<and> mem_id u = MemoryId j \<and> links_at r bc d' j = links u"
  shows "store_sync r bc d'"
  unfolding store_sync_def
proof (intro allI impI)
  fix k v
  assume v: "db_get r d' (C128 MEMORY_KV k) = Some v"
  show "\<exists>u. dec (c_unit bc) v = Inr u \<and> mem_id u = MemoryId k \<and> links_at r bc d' k = links u"
  proof (cases "k = j")
    case True
    with new v show ?thesis by simp
  next
    case False
    then have "db_get r d' (C128 MEMORY_KV k) = db_get r d (C128 MEMORY_KV k)"
      "db_get r d' (C128 LINK_OVERLAY k) = db_get r d (C128 LINK_OVERLAY k)"
      by (simp_all add: frame graph_cell_def)
    with v sync views_cong(2)[of r d' k d bc] show ?thesis by (simp add: store_sync_def)
  qed
qed

lemma links_at_insert:
  assumes "redb_ok r" "dec (c_links bc) b = Inr ls"
  shows "links_at r bc (db_insert r (C128 LINK_OVERLAY j) b d) k = (if k = j then ls else links_at r bc d k)"
    and "links_at r bc (db_insert r (C128 MEMORY_KV j) b' d) k = links_at r bc d k"
  using assms by (simp_all add: links_at_def postings_def)

text \<open>Writing the edges of a unit to both tables.\<close>

lemma put_outgoing_ok:
  assumes "bincode_ok bc" "fault_free r"
  obtains b where "put_outgoing r bc (MemoryId j) ls d = Inr (db_insert r (C128 LINK_OVERLAY j) b d)"
    "dec (c_links bc) b = Inr ls"
proof -
  obtain b where "enc (c_links bc) ls = Inr b" "dec (c_links bc) b = Inr ls"
    using bincode_okD(2)[OF assms(1)] by (rule codec_okE)
  then show thesis using that[of b] assms(2) by (simp add: put_outgoing_def)
qed

lemma sync_unit_links_ok:
  assumes "redb_ok r" "bincode_ok bc" "fault_free r"
    and kv: "\<forall>v. db_get r d (C128 MEMORY_KV j) = Some v \<longrightarrow> (\<exists>u. dec (c_unit bc) v = Inr u)"
  obtains d' where "sync_unit_links r bc j ls d = (d', Inr ())"
    and "unit_at r bc d' j = map_option (\<lambda>u. u\<lparr>links := ls\<rparr>) (unit_at r bc d j)"
    and "db_get r d' (C128 MEMORY_KV j) = None \<longleftrightarrow> db_get r d (C128 MEMORY_KV j) = None"
    and "\<And>c. c \<noteq> C128 MEMORY_KV j \<Longrightarrow> db_get r d' c = db_get r d c"
proof (cases "db_get r d (C128 MEMORY_KV j)")
  case None
  then have "sync_unit_links r bc j ls d = (d, Inr ())"
    using assms(3) by (simp add: sync_unit_links_def kv_get_def)
  then show thesis using that[of d] None by (simp add: unit_at_def)
next
  case (Some v)
  with kv obtain u where u: "dec (c_unit bc) v = Inr u" by blast
  obtain b where b: "enc (c_unit bc) (u\<lparr>links := ls\<rparr>) = Inr b" "dec (c_unit bc) b = Inr (u\<lparr>links := ls\<rparr>)"
    using bincode_okD(1)[OF assms(2)] by (rule codec_okE)
  have "sync_unit_links r bc j ls d = (db_insert r (C128 MEMORY_KV j) b d, Inr ())"
    using assms(3) Some u b by (simp add: sync_unit_links_def kv_get_def kv_put_def)
  then show thesis
    using that[of "db_insert r (C128 MEMORY_KV j) b d"] assms(1) Some u b by (simp add: unit_at_def)
qed

section \<open>Loading under the invariant\<close>

lemma load_all_units_sync:
  assumes db: "redb_ok r" and ff: "fault_free r" and sync: "store_sync r bc d"
  obtains us where "load_all_units r bc d = Inr us" "distinct (map mem_id us)"
    "\<And>u. u \<in> set us \<longleftrightarrow> unit_at r bc d (as_u128 (mem_id u)) = Some u"
proof -
  let ?f = "\<lambda>(k :: u128, v). result_ok (dec (c_unit bc) v)"
  let ?it = "db_iter128 r MEMORY_KV d"
  have it: "\<exists>u. dec (c_unit bc) v = Inr u \<and> mem_id u = MemoryId k" if "(k, v) \<in> set ?it" for k v
    using that sync by (auto simp: redb_iter[OF db] elim: store_syncD)
  have "map mem_id (List.map_filter ?f xs) = map (MemoryId \<circ> fst) xs" if "set xs \<subseteq> set ?it" for xs
    using that it by (induction xs) (fastforce simp: List.map_filter_simps)+
  from this[of ?it] have ids: "map mem_id (List.map_filter ?f ?it) = map MemoryId (map fst ?it)"
    by simp
  have "distinct (map fst ?it)"
    using redb_iter_sorted(1)[OF db] strict_sorted_iff by blast
  then have dist: "distinct (map mem_id (List.map_filter ?f ?it))"
    unfolding ids by (simp add: distinct_map inj_on_def)
  have mem: "u \<in> set (List.map_filter ?f ?it) \<longleftrightarrow> unit_at r bc d (as_u128 (mem_id u)) = Some u" for u
  proof
    assume "u \<in> set (List.map_filter ?f ?it)"
    then obtain k v where kv: "(k, v) \<in> set ?it" "result_ok (dec (c_unit bc) v) = Some u"
      by (auto simp: set_map_filter_iter)
    with it[OF kv(1)] have "mem_id u = MemoryId k" by auto
    with kv show "unit_at r bc d (as_u128 (mem_id u)) = Some u"
      by (simp add: redb_iter[OF db] unit_at_def)
  next
    assume "unit_at r bc d (as_u128 (mem_id u)) = Some u"
    then show "u \<in> set (List.map_filter ?f ?it)"
      unfolding set_map_filter_iter mem_Collect_eq redb_iter[OF db]
      by (auto simp: unit_at_def split: option.splits)
  qed
  show thesis
    by (rule that[OF _ dist mem]) (use ff in \<open>simp add: load_all_units_def\<close>)
qed

lemma unit_at_mem_id:
  assumes "store_sync r bc d" "unit_at r bc d j = Some u"
  shows "mem_id u = MemoryId j"
proof -
  obtain v where "db_get r d (C128 MEMORY_KV j) = Some v" "dec (c_unit bc) v = Inr u"
    using assms(2) by (auto simp: unit_at_def result_ok_def split: option.splits sum.splits)
  with assms(1) show ?thesis by (auto elim!: store_syncD)
qed

section \<open>A concrete store\<close>

text \<open>A store whose units have the given edges.\<close>

fun demo_store :: "(nat \<times> association_link list) list \<Rightarrow> cells" where
  "demo_store [] = []"
| "demo_store ((i, ls) # xs) =
     (C128 MEMORY_KV (of_nat i), B_unit (demo_unit i ''m'' ls)) #
     (C128 LINK_OVERLAY (of_nat i), B_links ls) # demo_store xs"

lemma demo_store_kv:
  "map_of (demo_store xs) (C128 MEMORY_KV j) = Some v \<Longrightarrow>
    \<exists>i ls. (i, ls) \<in> set xs \<and> j = of_nat i \<and> v = B_unit (demo_unit i ''m'' ls) \<and>
      map_of (demo_store xs) (C128 LINK_OVERLAY j) = Some (B_links ls)"
  by (induction xs rule: demo_store.induct) (auto split: if_splits)

lemma demo_store_sync: "store_sync cells_redb cells_bincode (demo_store xs)"
  unfolding store_sync_def
proof (intro allI impI)
  fix j v
  assume "db_get cells_redb (demo_store xs) (C128 MEMORY_KV j) = Some v"
  then have "map_of (demo_store xs) (C128 MEMORY_KV j) = Some v" by (simp add: cells_redb_def)
  from demo_store_kv[OF this] show "\<exists>u. dec (c_unit cells_bincode) v = Inr u \<and> mem_id u = MemoryId j \<and>
      links_at cells_redb cells_bincode (demo_store xs) j = links u"
    by (auto simp: links_at_def postings_def cells_redb_def cells_bincode_def)
qed

definition demo_pair :: cells where
  "demo_pair = demo_store [(1, []), (2, [demo_link 1 LT_Causal (1/2)])]"

end
