(* ===== verification/Engine_Delete.thy ===== *)
theory Engine_Delete
  imports Engine_Core
begin

text \<open>
  Correctness of \<open>Engine::delete\<close>: one identifier is removed from every state table together with
  all edges that lead to it, audit tables stay; with two identifiers the edge lists loaded at the
  start are stale, and an edge to the first deleted memory comes back.
\<close>

section \<open>The in-edge cascade\<close>

definition drop_links :: "u128 \<Rightarrow> memory_unit \<Rightarrow> memory_unit" where
  "drop_links i u = u\<lparr>links := filter (\<lambda>l. as_u128 (target_id l) \<noteq> i) (links u)\<rparr>"

definition in_edges :: "u128 \<Rightarrow> memory_unit \<Rightarrow> nat" where
  "in_edges i u =
     (if as_u128 (mem_id u) = i then 0
      else length (filter (\<lambda>l. as_u128 (target_id l) = i) (links u)))"

lemma length_dropped:
  "length ls - length (filter (\<lambda>l. as_u128 (target_id l) \<noteq> i) ls) =
    length (filter (\<lambda>l. as_u128 (target_id l) = i) ls)"
  using sum_length_filter_compl[of "\<lambda>l. as_u128 (target_id l) = i" ls] by simp

lemma length_filter_same: "length (filter P xs) = length xs \<Longrightarrow> filter P xs = xs"
  by (metis length_filter_less filter_id_conv less_irrefl)

text \<open>The stored unit gets the loaded edge list without the edges to the deleted memory.\<close>

definition uid :: "memory_unit \<Rightarrow> u128" where
  "uid u = as_u128 (mem_id u)"

lemma uid_eq_iff: "uid u = uid u' \<longleftrightarrow> mem_id u = mem_id u'"
  by (auto simp: uid_def memory_id.expand)

definition rewritten :: "('d, 'b) redb \<Rightarrow> 'b bincode \<Rightarrow> u128 \<Rightarrow> memory_unit \<Rightarrow> 'd \<Rightarrow> 'd \<Rightarrow> bool" where
  "rewritten r bc i u d d' \<longleftrightarrow>
     unit_at r bc d' (uid u) =
       map_option (\<lambda>v. v\<lparr>links := links (drop_links i u)\<rparr>) (unit_at r bc d (uid u)) \<and>
     links_at r bc d' (uid u) = links (drop_links i u)"

text \<open>One step of the cascade touches only the two cells of its unit and keeps the invariant.\<close>

lemma cascade_unit_ok:
  fixes u :: memory_unit
  assumes db: "redb_ok r" and bc: "bincode_ok bc" and ff: "fault_free r" and sync: "store_sync r bc d"
  defines "j \<equiv> as_u128 (mem_id u)"
  obtains d' where "cascade_unit r bc i u n d = (d', Inr (n + of_nat (in_edges i u)))"
    "store_sync r bc d'"
    "\<And>c. j = i \<or> c \<noteq> C128 MEMORY_KV j \<and> c \<noteq> C128 LINK_OVERLAY j \<Longrightarrow> db_get r d' c = db_get r d c"
    "j \<noteq> i \<Longrightarrow> unit_at r bc d j = Some u \<Longrightarrow> unit_at r bc d' j = Some (drop_links i u)"
    "j \<noteq> i \<Longrightarrow> links_at r bc d j = links u \<Longrightarrow> links_at r bc d' j = links (drop_links i u)"
    "db_get r d (C128 MEMORY_KV j) = None \<Longrightarrow> db_get r d' (C128 MEMORY_KV j) = None"
    "in_edges i u \<noteq> 0 \<Longrightarrow> rewritten r bc i u d d'"
proof -
  let ?rem = "filter (\<lambda>l. as_u128 (target_id l) \<noteq> i) (links u)"
  show thesis
  proof (cases "j = i \<or> length ?rem = length (links u)")
    case True
    then have d: "cascade_unit r bc i u n d = (d, Inr (n + of_nat (in_edges i u)))"
      using length_dropped[of "links u" i] by (auto simp: cascade_unit_def in_edges_def j_def Let_def)
    have "j \<noteq> i \<Longrightarrow> ?rem = links u" using True length_filter_same by blast
    then have "j \<noteq> i \<Longrightarrow> drop_links i u = u" by (simp add: drop_links_def)
    moreover have "in_edges i u = 0"
      using True length_dropped[of "links u" i] by (auto simp: in_edges_def j_def)
    ultimately show ?thesis by (intro that[OF d sync]) simp_all
  next
    case False
    have id: "mem_id u = MemoryId j" by (simp add: j_def)
    obtain b where b: "put_outgoing r bc (MemoryId j) ?rem d = Inr (db_insert r (C128 LINK_OVERLAY j) b d)"
        "dec (c_links bc) b = Inr ?rem"
      using put_outgoing_ok[OF bc ff] by blast
    let ?d1 = "db_insert r (C128 LINK_OVERLAY j) b d"
    have kv1: "db_get r ?d1 (C128 MEMORY_KV j) = db_get r d (C128 MEMORY_KV j)" using db by simp
    then have u1: "unit_at r bc ?d1 j = unit_at r bc d j" by (simp add: unit_at_def)
    have dk: "\<forall>v. db_get r ?d1 (C128 MEMORY_KV j) = Some v \<longrightarrow> (\<exists>u. dec (c_unit bc) v = Inr u)"
      using sync unfolding kv1 by (auto elim: store_syncD)
    obtain d' where d': "sync_unit_links r bc j ?rem ?d1 = (d', Inr ())"
      "unit_at r bc d' j = map_option (\<lambda>u. u\<lparr>links := ?rem\<rparr>) (unit_at r bc ?d1 j)"
      "db_get r d' (C128 MEMORY_KV j) = None \<longleftrightarrow> db_get r ?d1 (C128 MEMORY_KV j) = None"
      "\<And>c. c \<noteq> C128 MEMORY_KV j \<Longrightarrow> db_get r d' c = db_get r ?d1 c"
      by (rule sync_unit_links_ok[OF db bc ff dk, where ls = ?rem]) (rule that)
    have run: "cascade_unit r bc i u n d = (d', Inr (n + of_nat (in_edges i u)))"
      using False b(1) d'(1) length_dropped[of "links u" i]
      by (simp add: cascade_unit_def Let_def id in_edges_def)
    have frame: "db_get r d' c = db_get r d c" if "c \<noteq> C128 MEMORY_KV j" "c \<noteq> C128 LINK_OVERLAY j" for c
      using d'(4)[OF that(1)] that(2) db by simp
    have la: "links_at r bc d' j = ?rem"
      using d'(4)[of "C128 LINK_OVERLAY j"] db b(2) by (simp add: links_at_def postings_def)
    have "store_sync r bc d'"
    proof (rule store_sync_update[OF sync])
      fix v
      assume v: "db_get r d' (C128 MEMORY_KV j) = Some v"
      with d'(3) kv1 obtain v0 where "db_get r d (C128 MEMORY_KV j) = Some v0" by auto
      from store_syncD[OF sync this] obtain u0 where "unit_at r bc d j = Some u0" "mem_id u0 = MemoryId j"
        by metis
      with d'(2) u1 v have "result_ok (dec (c_unit bc) v) = Some (u0\<lparr>links := ?rem\<rparr>)"
        by (simp add: unit_at_def)
      then have "dec (c_unit bc) v = Inr (u0\<lparr>links := ?rem\<rparr>)"
        by (cases "dec (c_unit bc) v") simp_all
      then show "\<exists>u. dec (c_unit bc) v = Inr u \<and> mem_id u = MemoryId j \<and> links_at r bc d' j = links u"
        using la \<open>mem_id u0 = MemoryId j\<close> by simp
    qed (rule frame)
    moreover have "rewritten r bc i u d d'"
      using d'(2) u1 la by (simp add: rewritten_def uid_def j_def drop_links_def)
    ultimately show ?thesis
      using False frame la d'(2,3) u1 kv1 by (intro that[OF run]) (auto simp: drop_links_def)
  qed
qed

text \<open>What the whole cascade leaves: cells of other units stay, and a unit whose stored form is the
  loaded one loses exactly its edges to the deleted memory.\<close>

definition cascaded ::
    "('d, 'b) redb \<Rightarrow> 'b bincode \<Rightarrow> u128 \<Rightarrow> memory_unit list \<Rightarrow> 'd \<Rightarrow> 'd \<Rightarrow> bool" where
  "cascaded r bc i us d d' \<longleftrightarrow> store_sync r bc d' \<and>
     (\<forall>c. list_all (\<lambda>u. uid u = i \<or> c \<noteq> C128 MEMORY_KV (uid u) \<and> c \<noteq> C128 LINK_OVERLAY (uid u)) us \<longrightarrow>
       db_get r d' c = db_get r d c) \<and>
     (\<forall>j. db_get r d (C128 MEMORY_KV j) = None \<longrightarrow> db_get r d' (C128 MEMORY_KV j) = None) \<and>
     (distinct (map mem_id us) \<longrightarrow> list_all (\<lambda>u. uid u \<noteq> i \<longrightarrow> unit_at r bc d (uid u) = Some u \<longrightarrow>
       links_at r bc d (uid u) = links u \<longrightarrow>
       unit_at r bc d' (uid u) = Some (drop_links i u) \<and>
       links_at r bc d' (uid u) = links (drop_links i u)) us) \<and>
     (distinct (map mem_id us) \<longrightarrow> list_all (\<lambda>u. in_edges i u \<noteq> 0 \<longrightarrow> rewritten r bc i u d d') us)"

lemma cascadedD:
  assumes "cascaded r bc i us d d'"
  shows "store_sync r bc d'"
    and "\<And>c. list_all (\<lambda>u. uid u = i \<or> c \<noteq> C128 MEMORY_KV (uid u) \<and> c \<noteq> C128 LINK_OVERLAY (uid u)) us
      \<Longrightarrow> db_get r d' c = db_get r d c"
    and "\<And>j. db_get r d (C128 MEMORY_KV j) = None \<Longrightarrow> db_get r d' (C128 MEMORY_KV j) = None"
    and "\<And>u. \<lbrakk>distinct (map mem_id us); u \<in> set us; uid u \<noteq> i; unit_at r bc d (uid u) = Some u;
      links_at r bc d (uid u) = links u\<rbrakk> \<Longrightarrow> unit_at r bc d' (uid u) = Some (drop_links i u) \<and>
      links_at r bc d' (uid u) = links (drop_links i u)"
    and "\<And>u. \<lbrakk>distinct (map mem_id us); u \<in> set us; in_edges i u \<noteq> 0\<rbrakk> \<Longrightarrow> rewritten r bc i u d d'"
  using assms unfolding cascaded_def list_all_iff by blast+

lemma cascaded_Cons:
  assumes u: "store_sync r bc d1"
      "\<And>c. uid u = i \<or> c \<noteq> C128 MEMORY_KV (uid u) \<and> c \<noteq> C128 LINK_OVERLAY (uid u) \<Longrightarrow>
        db_get r d1 c = db_get r d c"
      "uid u \<noteq> i \<Longrightarrow> unit_at r bc d (uid u) = Some u \<Longrightarrow> unit_at r bc d1 (uid u) = Some (drop_links i u)"
      "uid u \<noteq> i \<Longrightarrow> links_at r bc d (uid u) = links u \<Longrightarrow>
        links_at r bc d1 (uid u) = links (drop_links i u)"
      "db_get r d (C128 MEMORY_KV (uid u)) = None \<Longrightarrow> db_get r d1 (C128 MEMORY_KV (uid u)) = None"
      "in_edges i u \<noteq> 0 \<Longrightarrow> rewritten r bc i u d d1"
    and us: "cascaded r bc i us d1 d'"
  shows "cascaded r bc i (u # us) d d'"
  unfolding cascaded_def
proof (intro conjI allI impI)
  show "store_sync r bc d'" using cascadedD(1)[OF us] .
  show "db_get r d' c = db_get r d c"
    if "list_all (\<lambda>u. uid u = i \<or> c \<noteq> C128 MEMORY_KV (uid u) \<and> c \<noteq> C128 LINK_OVERLAY (uid u)) (u # us)" for c
    using that cascadedD(2)[OF us, of c] u(2)[of c] by simp
  show "db_get r d' (C128 MEMORY_KV j) = None" if "db_get r d (C128 MEMORY_KV j) = None" for j
    using that cascadedD(3)[OF us, of j] u(2)[of "C128 MEMORY_KV j"] u(5) by (cases "j = uid u") auto
next
  assume dist: "distinct (map mem_id (u # us))"
  have head: "db_get r d' (C128 MEMORY_KV (uid u)) = db_get r d1 (C128 MEMORY_KV (uid u))"
    "db_get r d' (C128 LINK_OVERLAY (uid u)) = db_get r d1 (C128 LINK_OVERLAY (uid u))"
    by (rule cascadedD(2)[OF us]; use dist in \<open>auto simp: list_all_iff uid_eq_iff image_iff\<close>)+
  have tail: "db_get r d1 (C128 MEMORY_KV (uid v)) = db_get r d (C128 MEMORY_KV (uid v))"
    "db_get r d1 (C128 LINK_OVERLAY (uid v)) = db_get r d (C128 LINK_OVERLAY (uid v))"
    if "v \<in> set us" for v
    by (rule u(2); use dist that in \<open>auto simp: uid_eq_iff image_iff\<close>)+
  show "list_all (\<lambda>u. uid u \<noteq> i \<longrightarrow> unit_at r bc d (uid u) = Some u \<longrightarrow>
       links_at r bc d (uid u) = links u \<longrightarrow>
       unit_at r bc d' (uid u) = Some (drop_links i u) \<and>
       links_at r bc d' (uid u) = links (drop_links i u)) (u # us)"
    unfolding list_all_iff
  proof (intro ballI impI)
    fix v
    assume v: "v \<in> set (u # us)" "uid v \<noteq> i" "unit_at r bc d (uid v) = Some v"
      "links_at r bc d (uid v) = links v"
    show "unit_at r bc d' (uid v) = Some (drop_links i v) \<and>
        links_at r bc d' (uid v) = links (drop_links i v)"
    proof (cases "v = u")
      case True
      with v u(3,4) views_cong[OF head, of bc] show ?thesis by simp
    next
      case False
      with v have vs: "v \<in> set us" by simp
      with v views_cong[OF tail[OF vs], of bc] dist show ?thesis
        by (intro cascadedD(4)[OF us]) simp_all
    qed
  qed
  have "rewritten r bc i u d d'" if "in_edges i u \<noteq> 0"
    using u(6)[OF that] views_cong[OF head, of bc] by (simp add: rewritten_def)
  moreover have "rewritten r bc i v d d'" if "v \<in> set us" "in_edges i v \<noteq> 0" for v
    using cascadedD(5)[OF us _ that] dist views_cong[OF tail[OF that(1)], of bc]
    by (simp add: rewritten_def)
  ultimately show "list_all (\<lambda>u. in_edges i u \<noteq> 0 \<longrightarrow> rewritten r bc i u d d') (u # us)"
    by (simp add: list_all_iff)
qed

lemma cascade_ok:
  assumes "redb_ok r" "bincode_ok bc" "fault_free r" "store_sync r bc d"
  shows "\<exists>d'. eng_loop (cascade_unit r bc i) us n d =
      (d', Inr (n + of_nat (sum_list (map (in_edges i) us)))) \<and> cascaded r bc i us d d'"
  using assms(4)
proof (induction us arbitrary: n d)
  case (Cons u us)
  obtain d1 where d1: "cascade_unit r bc i u n d = (d1, Inr (n + of_nat (in_edges i u)))"
    "store_sync r bc d1"
    "\<And>c. uid u = i \<or> c \<noteq> C128 MEMORY_KV (uid u) \<and> c \<noteq> C128 LINK_OVERLAY (uid u) \<Longrightarrow>
      db_get r d1 c = db_get r d c"
    "uid u \<noteq> i \<Longrightarrow> unit_at r bc d (uid u) = Some u \<Longrightarrow> unit_at r bc d1 (uid u) = Some (drop_links i u)"
    "uid u \<noteq> i \<Longrightarrow> links_at r bc d (uid u) = links u \<Longrightarrow>
      links_at r bc d1 (uid u) = links (drop_links i u)"
    "db_get r d (C128 MEMORY_KV (uid u)) = None \<Longrightarrow> db_get r d1 (C128 MEMORY_KV (uid u)) = None"
    "in_edges i u \<noteq> 0 \<Longrightarrow> rewritten r bc i u d d1"
    using cascade_unit_ok[OF assms(1-3) Cons.prems, where u = u and i = i and n = n]
    unfolding uid_def by blast
  from Cons.IH[OF d1(2), of "n + of_nat (in_edges i u)"] obtain d' where
    d': "eng_loop (cascade_unit r bc i) us (n + of_nat (in_edges i u)) d1 =
        (d', Inr (n + of_nat (in_edges i u) + of_nat (sum_list (map (in_edges i) us))))"
      "cascaded r bc i us d1 d'" by blast
  have "cascaded r bc i (u # us) d d'" by (rule cascaded_Cons[OF d1(2-7) d'(2)])
  then show ?case using d1(1) d'(1) by (simp add: add.assoc)
qed (simp add: cascaded_def)

section \<open>Deleting one memory\<close>

lemma remove_indexes_ok:
  assumes "redb_ok r" "bincode_ok bc" "fault_free r"
  obtains d' where "remove_memory_from_indexes r bc i d = Inr d'"
    "index_rel r bc d' = {(c, k). (c, k) \<in> index_rel r bc d \<and> k \<noteq> i}"
    "\<And>c. \<not> index_cell c \<Longrightarrow> db_get r d' c = db_get r d c"
proof -
  let ?d' = "fold (strip_cell r (c_ids bc) (\<lambda>x. x) i) (removal_cells r bc i d) d"
  have ok: "remove_memory_from_indexes r bc i d = Inr ?d'"
    using assms(3) by (simp add: remove_memory_from_indexes_def)
  then show thesis
    using run_index_op_refines[OF assms, of "RemoveId i" d] remove_body_postings(2)[OF assms(1,2)]
    by (intro that[of ?d']) auto
qed

lemma delete_state_get:
  assumes "redb_ok r" "fault_free r"
  obtains d' where "delete_state r i d = Inr d'"
    "\<And>c. db_get r d' c = (if c = C128 MEMORY_KV i \<or> c = C128 LINK_OVERLAY i \<or> c = C128 DENSE_VECTORS i
      then None else db_get r d c)"
  using assms by (intro that) (auto simp: delete_state_def)

definition audit_cell :: "cell \<Rightarrow> bool" where
  "audit_cell c \<longleftrightarrow> (case c of
     C128 t _ \<Rightarrow> t \<in> {MEMORY_LOG, ACTIVATION_LOG, SUMMARY_OVERLAY, CORRECTION_OVERLAY, CONSOLIDATION_QUEUE}
   | C64 t _ \<Rightarrow> t \<in> {QUERY_CONTEXT, RETRIEVAL_PATHS}
   | C32 _ _ \<Rightarrow> False)"

lemma audit_cell_other:
  assumes "audit_cell c"
  shows "\<not> index_cell c" "\<not> graph_cell c" "c \<notin> range (C64 CONTEXT_LINKS)" "c \<noteq> C128 DENSE_VECTORS i"
  using assms by (cases c; auto simp: audit_cell_def graph_cell_def)+

text \<open>The states between the transactions of one deletion.\<close>

definition deletion ::
    "('d, 'b) redb \<Rightarrow> 'b bincode \<Rightarrow> u128 \<Rightarrow> memory_unit list \<Rightarrow> 'd \<Rightarrow> 'd \<Rightarrow> 'd \<Rightarrow> 'd \<Rightarrow> 'd \<Rightarrow> bool" where
  "deletion r bc i us d d0 d1 d2 d' \<longleftrightarrow>
     (\<forall>c. db_get r d0 c = (if c = C128 MEMORY_KV i \<or> c = C128 LINK_OVERLAY i \<or> c = C128 DENSE_VECTORS i
       then None else db_get r d c)) \<and>
     cascaded r bc i us d0 d1 \<and>
     index_rel r bc d2 = {(c, k). (c, k) \<in> index_rel r bc d1 \<and> k \<noteq> i} \<and>
     (\<forall>c. \<not> index_cell c \<longrightarrow> db_get r d2 c = db_get r d1 c) \<and>
     ctx_rel r bc d' = {(f, k). (f, k) \<in> ctx_rel r bc d2 \<and> k \<noteq> i} \<and>
     (\<forall>c. c \<notin> range (C64 CONTEXT_LINKS) \<longrightarrow> db_get r d' c = db_get r d2 c)"

lemma delete_one_run:
  assumes db: "redb_ok r" and bc: "bincode_ok bc" and ff: "fault_free r" and sync: "store_sync r bc d"
    and present: "db_get r d (C128 MEMORY_KV i) \<noteq> None"
  obtains d0 d1 d2 d' where
    "delete_one r bc us (MemoryId i) out d = (d', Inr \<lparr>deleted = deleted out + 1,
       edges_removed = edges_removed out + of_nat (sum_list (map (in_edges i) us))\<rparr>)"
    "deletion r bc i us d d0 d1 d2 d'"
proof -
  obtain d0 where d0: "delete_state r i d = Inr d0"
    "\<And>c. db_get r d0 c = (if c = C128 MEMORY_KV i \<or> c = C128 LINK_OVERLAY i \<or> c = C128 DENSE_VECTORS i
      then None else db_get r d c)"
    using delete_state_get[OF db ff] by blast
  have "store_sync r bc d0"
    by (rule store_sync_update[OF sync, where j = i])
      (auto simp: d0(2) graph_cell_def)
  then obtain d1 where d1: "eng_loop (cascade_unit r bc i) us (edges_removed out) d0 =
      (d1, Inr (edges_removed out + of_nat (sum_list (map (in_edges i) us))))" "cascaded r bc i us d0 d1"
    using cascade_ok[OF db bc ff] by blast
  obtain d2 where d2: "remove_memory_from_indexes r bc i d1 = Inr d2"
    "index_rel r bc d2 = {(c, k). (c, k) \<in> index_rel r bc d1 \<and> k \<noteq> i}"
    "\<And>c. \<not> index_cell c \<Longrightarrow> db_get r d2 c = db_get r d1 c"
    using remove_indexes_ok[OF db bc ff, of i d1] by blast
  obtain d' where d': "remove_memory_links r bc i d2 = Inr d'"
    "\<And>f. postings r (c_context_links bc) d' (C64 CONTEXT_LINKS f) =
      strip_entries cl_memory_id i (postings r (c_context_links bc) d2 (C64 CONTEXT_LINKS f))"
    "\<And>c. c \<notin> range (C64 CONTEXT_LINKS) \<Longrightarrow> db_get r d' c = db_get r d2 c"
    using remove_links_ok[OF db bc ff] by blast
  have "ctx_rel r bc d' = {(f, k). (f, k) \<in> ctx_rel r bc d2 \<and> k \<noteq> i}"
    by (auto simp: ctx_rel_def d'(2))
  moreover have "delete_one r bc us (MemoryId i) out d = (d', Inr \<lparr>deleted = deleted out + 1,
       edges_removed = edges_removed out + of_nat (sum_list (map (in_edges i) us))\<rparr>)"
    using present d0(1) d1(1) d2(1) d'(1) ff by (auto simp: delete_one_def kv_get_def)
  ultimately show thesis
    using d0(2) d1(2) d2(2,3) d'(3) by (intro that[of d' d0 d1 d2]) (auto simp: deletion_def)
qed

lemma ctx_rel_frame:
  "(\<And>f. db_get r d' (C64 CONTEXT_LINKS f) = db_get r d (C64 CONTEXT_LINKS f)) \<Longrightarrow>
    ctx_rel r bc d' = ctx_rel r bc d"
  by (simp add: ctx_rel_def postings_def)

lemma deletionD:
  assumes "deletion r bc i us d d0 d1 d2 d'"
  shows "\<And>c. db_get r d0 c = (if c = C128 MEMORY_KV i \<or> c = C128 LINK_OVERLAY i \<or>
      c = C128 DENSE_VECTORS i then None else db_get r d c)"
    and "cascaded r bc i us d0 d1"
    and "index_rel r bc d2 = {(c, k). (c, k) \<in> index_rel r bc d1 \<and> k \<noteq> i}"
    and "\<And>c. \<not> index_cell c \<Longrightarrow> db_get r d2 c = db_get r d1 c"
    and "ctx_rel r bc d' = {(f, k). (f, k) \<in> ctx_rel r bc d2 \<and> k \<noteq> i}"
    and "\<And>c. c \<notin> range (C64 CONTEXT_LINKS) \<Longrightarrow> db_get r d' c = db_get r d2 c"
  using assms unfolding deletion_def by blast+

lemma deletion_frame:
  assumes del: "deletion r bc i us d d0 d1 d2 d'"
  shows "\<not> index_cell c \<Longrightarrow> c \<notin> range (C64 CONTEXT_LINKS) \<Longrightarrow> db_get r d' c = db_get r d1 c"
    and "graph_cell c \<Longrightarrow> db_get r d' c = db_get r d1 c"
    and "\<not> graph_cell c \<Longrightarrow> db_get r d1 c = db_get r d0 c"
    and "t = MEMORY_KV \<or> t = LINK_OVERLAY \<Longrightarrow> db_get r d1 (C128 t i) = None"
proof -
  note D = deletionD[OF del]
  show last: "db_get r d' c = db_get r d1 c" if "\<not> index_cell c" "c \<notin> range (C64 CONTEXT_LINKS)" for c
    using D(6)[OF that(2)] D(4)[OF that(1)] by simp
  show "graph_cell c \<Longrightarrow> db_get r d' c = db_get r d1 c"
    by (rule last) (auto simp: graph_cell_def)
  show "\<not> graph_cell c \<Longrightarrow> db_get r d1 c = db_get r d0 c"
    by (rule cascadedD(2)[OF D(2)]) (auto simp: graph_cell_def list_all_iff)
  have "db_get r d1 (C128 t i) = db_get r d0 (C128 t i)"
    by (rule cascadedD(2)[OF D(2)]) (auto simp: list_all_iff)
  then show "t = MEMORY_KV \<or> t = LINK_OVERLAY \<Longrightarrow> db_get r d1 (C128 t i) = None"
    by (auto simp: D(1))
qed

lemma deletion_units:
  assumes del: "deletion r bc i us d d0 d1 d2 d'" and sync: "store_sync r bc d"
    and us: "distinct (map mem_id us)" "\<And>u. u \<in> set us \<longleftrightarrow> unit_at r bc d (uid u) = Some u"
    and ji: "j \<noteq> i"
  shows "unit_at r bc d' j = map_option (drop_links i) (unit_at r bc d j)"
proof -
  note D = deletionD[OF del]
  have g: "unit_at r bc d' j = unit_at r bc d1 j"
    using deletion_frame(2)[OF del, of "C128 MEMORY_KV j"] by (simp add: unit_at_def graph_cell_def)
  show ?thesis
  proof (cases "db_get r d (C128 MEMORY_KV j)")
    case None
    then have "db_get r d1 (C128 MEMORY_KV j) = None"
      by (intro cascadedD(3)[OF D(2)]) (simp add: D(1))
    then show ?thesis using None g by (simp add: unit_at_def)
  next
    case (Some v)
    obtain u where u: "mem_id u = MemoryId j" "links_at r bc d j = links u" "unit_at r bc d j = Some u"
      using store_syncD[OF sync Some] by metis
    then have j: "uid u = j" by (simp add: uid_def)
    have same: "unit_at r bc d0 j = unit_at r bc d j" "links_at r bc d0 j = links_at r bc d j"
      by (rule views_cong; use ji in \<open>simp add: D(1)\<close>)+
    have "unit_at r bc d1 (uid u) = Some (drop_links i u)"
      using cascadedD(4)[OF D(2) us(1), of u] us(2)[of u] u ji same by (simp add: j)
    then show ?thesis using u(3) g by (simp add: j)
  qed
qed

lemma deletion_relations:
  assumes del: "deletion r bc i us d d0 d1 d2 d'"
  shows "index_rel r bc d' = {(c, k). (c, k) \<in> index_rel r bc d \<and> k \<noteq> i}"
    and "ctx_rel r bc d' = {(f, k). (f, k) \<in> ctx_rel r bc d \<and> k \<noteq> i}"
proof -
  note D = deletionD[OF del]
  have "index_rel r bc d1 = index_rel r bc d"
  proof (rule index_rel_frame)
    fix c
    assume c: "index_cell c"
    then have "\<not> graph_cell c" by (cases c) (auto simp: graph_cell_def)
    from deletion_frame(3)[OF del this] c show "db_get r d1 c = db_get r d c" by (auto simp: D(1))
  qed
  moreover have "index_rel r bc d' = index_rel r bc d2"
    by (rule index_rel_frame, rule D(6)) auto
  ultimately show "index_rel r bc d' = {(c, k). (c, k) \<in> index_rel r bc d \<and> k \<noteq> i}"
    using D(3) by simp
  have "ctx_rel r bc d2 = ctx_rel r bc d"
    by (rule ctx_rel_frame) (simp add: D(4) deletion_frame(3)[OF del] D(1) graph_cell_def)
  then show "ctx_rel r bc d' = {(f, k). (f, k) \<in> ctx_rel r bc d \<and> k \<noteq> i}" using D(5) by simp
qed

text \<open>C17: deleting a stored memory (the units and the graph overlay being in step before) succeeds and
  counts the edges of other units to it; afterwards the memory is in no state table, every other
  unit is as before without its edges to the memory, the graph overlay agrees, the inverted
  indexes and context links are those before without the memory, the logs and retrieval traces
  are untouched, and units and overlay are still in step.\<close>

theorem delete_one_memory_spec:
  assumes db: "redb_ok r" and bc: "bincode_ok bc" and ff: "fault_free r" and sync: "store_sync r bc d"
    and present: "db_get r d (C128 MEMORY_KV i) \<noteq> None" and load: "load_all_units r bc d = Inr us"
  shows "\<exists>d'. delete r bc [MemoryId i] d =
      (d', Inr \<lparr>deleted = 1, edges_removed = of_nat (sum_list (map (in_edges i) us))\<rparr>) \<and>
    db_get r d' (C128 MEMORY_KV i) = None \<and> db_get r d' (C128 LINK_OVERLAY i) = None \<and>
    db_get r d' (C128 DENSE_VECTORS i) = None \<and>
    (\<forall>j. j \<noteq> i \<longrightarrow> unit_at r bc d' j = map_option (drop_links i) (unit_at r bc d j)) \<and>
    index_rel r bc d' = {(c, k). (c, k) \<in> index_rel r bc d \<and> k \<noteq> i} \<and>
    ctx_rel r bc d' = {(f, k). (f, k) \<in> ctx_rel r bc d \<and> k \<noteq> i} \<and>
    (\<forall>c. audit_cell c \<longrightarrow> db_get r d' c = db_get r d c) \<and>
    store_sync r bc d'"
proof -
  obtain us' where us': "load_all_units r bc d = Inr us'" "distinct (map mem_id us')"
    "\<And>u. u \<in> set us' \<longleftrightarrow> unit_at r bc d (as_u128 (mem_id u)) = Some u"
    using load_all_units_sync[OF db ff sync] by blast
  with load have us: "distinct (map mem_id us)" "\<And>u. u \<in> set us \<longleftrightarrow> unit_at r bc d (uid u) = Some u"
    by (simp_all add: uid_def)
  let ?out = "\<lparr>deleted = 0, edges_removed = 0\<rparr>"
  obtain d0 d1 d2 d' where run: "delete_one r bc us (MemoryId i) ?out d = (d', Inr \<lparr>deleted = deleted ?out + 1,
       edges_removed = edges_removed ?out + of_nat (sum_list (map (in_edges i) us))\<rparr>)"
    and del: "deletion r bc i us d d0 d1 d2 d'"
    by (rule delete_one_run[OF db bc ff sync present, where us = us and out = ?out]) (rule that)
  note D = deletionD[OF del] and F = deletion_frame[OF del]
  have "delete r bc [MemoryId i] d =
      (d', Inr \<lparr>deleted = 1, edges_removed = of_nat (sum_list (map (in_edges i) us))\<rparr>)"
    using load run by (simp add: delete_def)
  moreover have "db_get r d' c = db_get r d c" if "audit_cell c" for c
    using F(1)[of c] F(3)[of c] audit_cell_other[OF that] that by (auto simp: D(1) audit_cell_def graph_cell_def)
  moreover have "store_sync r bc d'"
    using cascadedD(1)[OF D(2)] F(2) by (rule store_sync_frame)
  moreover have "db_get r d' (C128 DENSE_VECTORS i) = None"
    using F(1,3)[of "C128 DENSE_VECTORS i"] by (auto simp: D(1) graph_cell_def)
  moreover have "db_get r d' (C128 MEMORY_KV i) = None" "db_get r d' (C128 LINK_OVERLAY i) = None"
    using F(2,4) by (simp_all add: graph_cell_def)
  ultimately show ?thesis
    using deletion_units[OF del sync us] deletion_relations[OF del] by blast
qed

lemma demo_pair_load:
  "load_all_units cells_redb cells_bincode demo_pair =
     Inr [demo_unit 1 ''m'' [], demo_unit 2 ''m'' [demo_link 1 LT_Causal (1/2)]]"
  by (simp add: load_all_units_def cells_fault_free)
    (simp add: cells_redb_def cells_bincode_def demo_pair_def cells_iter_def List.map_filter_simps)

theorem delete_one_memory_spec_witness:
  "\<exists>d'. delete cells_redb cells_bincode [MemoryId 1] demo_pair =
      (d', Inr \<lparr>deleted = 1, edges_removed = 1\<rparr>) \<and>
    unit_at cells_redb cells_bincode d' 2 = Some (drop_links 1 (demo_unit 2 ''m'' [demo_link 1 LT_Causal (1/2)]))"
proof -
  have present: "db_get cells_redb demo_pair (C128 MEMORY_KV 1) \<noteq> None"
    by (simp add: demo_pair_def cells_redb_def)
  have sync: "store_sync cells_redb cells_bincode demo_pair"
    unfolding demo_pair_def by (rule demo_store_sync)
  have u2: "unit_at cells_redb cells_bincode demo_pair 2 =
      Some (demo_unit 2 ''m'' [demo_link 1 LT_Causal (1/2)])"
    by (simp add: unit_at_def demo_pair_def cells_redb_def cells_bincode_def)
  have n: "sum_list (map (in_edges 1) [demo_unit 1 ''m'' [], demo_unit 2 ''m'' [demo_link 1 LT_Causal (1/2)]]) = 1"
    by (simp add: in_edges_def demo_link_def)
  obtain d' where "delete cells_redb cells_bincode [MemoryId 1] demo_pair =
      (d', Inr \<lparr>deleted = 1, edges_removed = of_nat 1\<rparr>)"
    "\<And>j. j \<noteq> 1 \<Longrightarrow> unit_at cells_redb cells_bincode d' j =
      map_option (drop_links 1) (unit_at cells_redb cells_bincode demo_pair j)"
    using delete_one_memory_spec[OF cells_redb_ok cells_bincode_ok cells_fault_free sync present demo_pair_load]
    unfolding n by blast
  then show ?thesis using u2 by simp
qed

section \<open>Deleting several memories\<close>

lemma drop_links_mem: "l \<in> set (links u) \<Longrightarrow> as_u128 (target_id l) \<noteq> j \<Longrightarrow> l \<in> set (links (drop_links j u))"
  by (simp add: drop_links_def)

lemma in_edges_pos:
  "l \<in> set (links u) \<Longrightarrow> as_u128 (target_id l) = j \<Longrightarrow> uid u \<noteq> j \<Longrightarrow> in_edges j u \<noteq> 0"
  by (auto simp: in_edges_def uid_def filter_empty_conv)

text \<open>C18: the edge lists are loaded once. If a memory has edges to both deleted memories, the second
  deletion writes the stale list back: the edge to the first deleted memory is in the stored unit
  and in the graph overlay again, while that memory is gone.\<close>

theorem delete_two_restores_edge:
  assumes db: "redb_ok r" and bc: "bincode_ok bc" and ff: "fault_free r" and sync: "store_sync r bc d"
    and present: "db_get r d (C128 MEMORY_KV i) \<noteq> None" "db_get r d (C128 MEMORY_KV j) \<noteq> None" "i \<noteq> j"
    and u: "unit_at r bc d (uid u) = Some u" "uid u \<noteq> i" "uid u \<noteq> j"
    and edges: "l \<in> set (links u)" "as_u128 (target_id l) = i" "l' \<in> set (links u)" "as_u128 (target_id l') = j"
  shows "\<exists>d' out u'. delete r bc [MemoryId i, MemoryId j] d = (d', Inr out) \<and> deleted out = 2 \<and>
    db_get r d' (C128 MEMORY_KV i) = None \<and>
    unit_at r bc d' (uid u) = Some u' \<and> l \<in> set (links u') \<and> l \<in> set (links_at r bc d' (uid u))"
proof -
  obtain us where load: "load_all_units r bc d = Inr us" and dist: "distinct (map mem_id us)"
    and us: "\<And>u. u \<in> set us \<longleftrightarrow> unit_at r bc d (uid u) = Some u"
    using load_all_units_sync[OF db ff sync] unfolding uid_def by blast
  let ?out0 = "\<lparr>deleted = 0, edges_removed = 0\<rparr>"
  obtain a0 a1 a2 da where runa: "delete_one r bc us (MemoryId i) ?out0 d = (da, Inr \<lparr>deleted = deleted ?out0 + 1,
       edges_removed = edges_removed ?out0 + of_nat (sum_list (map (in_edges i) us))\<rparr>)"
    and dela: "deletion r bc i us d a0 a1 a2 da"
    by (rule delete_one_run[OF db bc ff sync present(1), where us = us and out = ?out0]) (rule that)
  let ?out1 = "\<lparr>deleted = deleted ?out0 + 1,
       edges_removed = edges_removed ?out0 + of_nat (sum_list (map (in_edges i) us))\<rparr>"
  have synca: "store_sync r bc da"
    using cascadedD(1)[OF deletionD(2)[OF dela]] deletion_frame(2)[OF dela] by (rule store_sync_frame)
  have ua: "unit_at r bc da k = map_option (drop_links i) (unit_at r bc d k)" if "k \<noteq> i" for k
    using deletion_units[OF dela sync dist us that] .
  obtain vj where "unit_at r bc d j = Some vj" using present(2) sync by (metis not_None_eq store_syncD)
  with ua[of j] present(3) have "unit_at r bc da j \<noteq> None" by simp
  then have presentb: "db_get r da (C128 MEMORY_KV j) \<noteq> None" by (auto simp: unit_at_def split: option.splits)
  obtain b0 b1 b2 d' where runb: "delete_one r bc us (MemoryId j) ?out1 da = (d', Inr \<lparr>deleted = deleted ?out1 + 1,
       edges_removed = edges_removed ?out1 + of_nat (sum_list (map (in_edges j) us))\<rparr>)"
    and delb: "deletion r bc j us da b0 b1 b2 d'"
    by (rule delete_one_run[OF db bc ff synca presentb, where us = us and out = ?out1]) (rule that)
  have "rewritten r bc j u b0 b1"
    using cascadedD(5)[OF deletionD(2)[OF delb] dist] us[of u] u in_edges_pos[OF edges(3,4) u(3)] by blast
  moreover have "unit_at r bc b0 (uid u) = unit_at r bc da (uid u)"
    using u(3) by (simp add: unit_at_def deletionD(1)[OF delb])
  moreover have "unit_at r bc d' (uid u) = unit_at r bc b1 (uid u)"
    "links_at r bc d' (uid u) = links_at r bc b1 (uid u)"
    by (rule views_cong; rule deletion_frame(2)[OF delb]; simp add: graph_cell_def)+
  ultimately have "unit_at r bc d' (uid u) = Some ((drop_links i u)\<lparr>links := links (drop_links j u)\<rparr>)"
    "links_at r bc d' (uid u) = links (drop_links j u)"
    using ua[OF u(2)] u(1) by (simp_all add: rewritten_def)
  moreover have "l \<in> set (links (drop_links j u))"
    using drop_links_mem[OF edges(1)] edges(2) present(3) by blast
  moreover have "db_get r d' (C128 MEMORY_KV i) = None"
  proof -
    have "db_get r da (C128 MEMORY_KV i) = None"
      using deletion_frame(2,4)[OF dela] by (simp add: graph_cell_def)
    then have "db_get r b1 (C128 MEMORY_KV i) = None"
      by (intro cascadedD(3)[OF deletionD(2)[OF delb]]) (simp add: deletionD(1)[OF delb])
    then show ?thesis using deletion_frame(2)[OF delb] by (simp add: graph_cell_def)
  qed
  moreover have "delete r bc [MemoryId i, MemoryId j] d = (d', Inr \<lparr>deleted = deleted ?out1 + 1,
       edges_removed = edges_removed ?out1 + of_nat (sum_list (map (in_edges j) us))\<rparr>)"
    using load runa runb by (simp add: delete_def)
  ultimately show ?thesis by (intro exI conjI) (assumption | simp)+
qed

theorem delete_two_restores_edge_witness:
  "\<exists>d' out u'. delete cells_redb cells_bincode [MemoryId 1, MemoryId 2] (demo_store
       [(1, []), (2, []), (3, [demo_link 1 LT_Causal (1/2), demo_link 2 LT_Causal (1/2)])]) = (d', Inr out) \<and>
     deleted out = 2 \<and> db_get cells_redb d' (C128 MEMORY_KV 1) = None \<and>
     unit_at cells_redb cells_bincode d' 3 = Some u' \<and> demo_link 1 LT_Causal (1/2) \<in> set (links u')"
proof -
  let ?ls = "[demo_link 1 LT_Causal (1/2), demo_link 2 LT_Causal (1/2)]"
  let ?d = "demo_store [(1, []), (2, []), (3, ?ls)]"
  let ?u = "demo_unit 3 ''m'' ?ls"
  have uid: "uid ?u = 3" by (simp add: uid_def)
  have present: "db_get cells_redb ?d (C128 MEMORY_KV 1) \<noteq> None" "db_get cells_redb ?d (C128 MEMORY_KV 2) \<noteq> None"
    "(1 :: u128) \<noteq> 2"
    by (simp_all add: cells_redb_def)
  have u: "unit_at cells_redb cells_bincode ?d (uid ?u) = Some ?u" "uid ?u \<noteq> 1" "uid ?u \<noteq> 2"
    unfolding uid by (simp_all add: unit_at_def cells_redb_def cells_bincode_def)
  have e: "demo_link 1 LT_Causal (1/2) \<in> set (links ?u)" "as_u128 (target_id (demo_link 1 LT_Causal (1/2))) = 1"
    "demo_link 2 LT_Causal (1/2) \<in> set (links ?u)" "as_u128 (target_id (demo_link 2 LT_Causal (1/2))) = 2"
    by (simp_all add: demo_link_def)
  from delete_two_restores_edge[OF cells_redb_ok cells_bincode_ok cells_fault_free demo_store_sync present u e]
  show ?thesis unfolding uid by blast
qed

end
