(* ===== verification/Engine_Feedback.thy ===== *)
theory Engine_Feedback
  imports Engine_Delete
begin

text \<open>
  Correctness of \<open>Engine::feedback\<close>: a signal is logged, the usage scores of the named memories move
  in the direction of the signal, a positive signal strengthens context links and the edges that
  carried the answer in both places an edge is stored, and nothing else of a memory changes.
\<close>

section \<open>What feedback may do to a unit\<close>

text \<open>After a signal that named the memory \<open>n\<close> times: the usage score has been moved \<open>n\<close> times, the
  edges keep their targets and do not weaken, and stay as they are when the signal is not positive.\<close>

definition fed_back :: "string \<Rightarrow> nat \<Rightarrow> memory_unit \<Rightarrow> memory_unit \<Rightarrow> bool" where
  "fed_back sg n u u' \<longleftrightarrow>
     u' = ((apply_usage (usage_delta sg) ^^ n) u)\<lparr>links := links u'\<rparr> \<and>
     list_all2 (\<lambda>l l'. link_key l' = link_key l \<and>
       (link_wf l \<longrightarrow> link_wf l' \<and> link_strength l \<le> link_strength l')) (links u) (links u') \<and>
     (\<not> is_positive_signal sg \<longrightarrow> links u' = links u)"

lemma apply_usage_simps [simp]:
  "links (apply_usage x u) = links u" "mem_id (apply_usage x u) = mem_id u"
  "apply_usage x (u\<lparr>links := ls\<rparr>) = (apply_usage x u)\<lparr>links := ls\<rparr>"
  by (simp_all add: apply_usage_def)

lemma apply_usage_iterate [simp]:
  "links ((apply_usage x ^^ n) u) = links u" "mem_id ((apply_usage x ^^ n) u) = mem_id u"
  "(apply_usage x ^^ n) (u\<lparr>links := ls\<rparr>) = ((apply_usage x ^^ n) u)\<lparr>links := ls\<rparr>"
  by (induction n) simp_all

lemma fed_back_refl: "fed_back sg 0 u u"
  by (auto simp: fed_back_def list_all2_same link_wf_def score_wf_def elim!: unit_f32E)

lemma fed_back_trans:
  assumes 1: "fed_back sg m u v" and 2: "fed_back sg n v w"
  shows "fed_back sg (m + n) u w"
proof -
  let ?P = "\<lambda>l l'. link_key l' = link_key l \<and> (link_wf l \<longrightarrow> link_wf l' \<and> link_strength l \<le> link_strength l')"
  have P: "?P a c" if "?P a b" "?P b c" for a b c
    using that f32_le_trans by auto
  have "list_all2 ?P (links u) (links v)" "list_all2 ?P (links v) (links w)"
    using 1 2 by (simp_all add: fed_back_def)
  from list_all2_trans[OF P this] have links: "list_all2 ?P (links u) (links w)" .
  obtain lv where v: "v = ((apply_usage (usage_delta sg) ^^ m) u)\<lparr>links := lv\<rparr>"
    using 1 unfolding fed_back_def by blast
  obtain lw where w: "w = ((apply_usage (usage_delta sg) ^^ n) v)\<lparr>links := lw\<rparr>"
    using 2 unfolding fed_back_def by blast
  have "w = ((apply_usage (usage_delta sg) ^^ (m + n)) u)\<lparr>links := links w\<rparr>"
    unfolding w v by (simp add: add.commute[of m n] funpow_add)
  moreover have "\<not> is_positive_signal sg \<longrightarrow> links w = links u"
    using 1 2 by (simp add: fed_back_def)
  ultimately show ?thesis unfolding fed_back_def using links by blast
qed

section \<open>Steps of a feedback call\<close>

text \<open>A step keeps units and overlay in step, changes each unit as allowed, and touches neither the
  memory log nor the indexes.\<close>

definition feedback_step ::
    "('d, 'b) redb \<Rightarrow> 'b bincode \<Rightarrow> string \<Rightarrow> (u128 \<Rightarrow> nat) \<Rightarrow> 'd \<Rightarrow> 'd \<Rightarrow> bool" where
  "feedback_step r bc sg n d d' \<longleftrightarrow> store_sync r bc d' \<and>
     (\<forall>j. rel_option (fed_back sg (n j)) (unit_at r bc d j) (unit_at r bc d' j)) \<and>
     (\<forall>c. index_cell c \<longrightarrow> db_get r d' c = db_get r d c) \<and>
     (\<forall>i. db_get r d' (C128 MEMORY_LOG i) = db_get r d (C128 MEMORY_LOG i)) \<and>
     (\<forall>i. db_get r d' (C128 ACTIVATION_LOG i) = db_get r d (C128 ACTIVATION_LOG i))"

lemma feedback_step_trans:
  assumes "feedback_step r bc sg m d d1" "feedback_step r bc sg n d1 d2"
  shows "feedback_step r bc sg (\<lambda>j. m j + n j) d d2"
proof -
  have "rel_option (fed_back sg (m j + n j)) (unit_at r bc d j) (unit_at r bc d2 j)" for j
  proof -
    have "rel_option (fed_back sg (m j)) (unit_at r bc d j) (unit_at r bc d1 j)"
      "rel_option (fed_back sg (n j)) (unit_at r bc d1 j) (unit_at r bc d2 j)"
      using assms by (simp_all add: feedback_step_def)
    then show ?thesis
      by (cases "unit_at r bc d j"; cases "unit_at r bc d1 j"; cases "unit_at r bc d2 j")
        (auto intro: fed_back_trans)
  qed
  then show ?thesis using assms by (simp add: feedback_step_def)
qed

lemma feedback_step_frame:
  assumes "store_sync r bc d" "\<And>c. graph_cell c \<or> index_cell c \<or>
      (\<exists>i. c = C128 MEMORY_LOG i \<or> c = C128 ACTIVATION_LOG i) \<Longrightarrow> db_get r d' c = db_get r d c"
  shows "feedback_step r bc sg (\<lambda>_. 0) d d'"
proof -
  have "store_sync r bc d'" by (rule store_sync_frame[OF assms(1)]) (simp add: assms(2))
  moreover have "unit_at r bc d' j = unit_at r bc d j" for j
    using assms(2)[of "C128 MEMORY_KV j"] by (simp add: unit_at_def graph_cell_def)
  ultimately show ?thesis
    using assms(2) by (auto simp: feedback_step_def option.rel_refl fed_back_refl)
qed

lemma feedback_step_refl: "store_sync r bc d \<Longrightarrow> feedback_step r bc sg (\<lambda>_. 0) d d"
  by (rule feedback_step_frame) simp_all

text \<open>Replacing the stored form of one unit, and of its edges when they change.\<close>

lemma feedback_step_unit:
  assumes sync: "store_sync r bc d"
    and kv: "db_get r d (C128 MEMORY_KV j) = Some v" "dec (c_unit bc) v = Inr u"
    and fed: "fed_back sg n u u'" and b: "dec (c_unit bc) b = Inr u'"
    and frame: "\<And>c. c \<noteq> C128 MEMORY_KV j \<Longrightarrow> c \<noteq> C128 LINK_OVERLAY j \<Longrightarrow> db_get r d' c = db_get r d c"
    and new: "db_get r d' (C128 MEMORY_KV j) = Some b" "links_at r bc d' j = links u'"
  shows "feedback_step r bc sg (\<lambda>k. if k = j then n else 0) d d'"
proof -
  have "mem_id u = MemoryId j"
  proof (rule store_syncD[OF sync kv(1)])
    fix u0 assume "dec (c_unit bc) v = Inr u0" "mem_id u0 = MemoryId j"
    with kv(2) show ?thesis by simp
  qed
  moreover obtain ls where "u' = ((apply_usage (usage_delta sg) ^^ n) u)\<lparr>links := ls\<rparr>"
    using fed unfolding fed_back_def by blast
  ultimately have id: "mem_id u' = MemoryId j" by simp
  have "store_sync r bc d'"
    by (rule store_sync_update[OF sync, where j = j]) (use frame new b id in auto)
  moreover have "rel_option (fed_back sg (if k = j then n else 0)) (unit_at r bc d k) (unit_at r bc d' k)" for k
  proof (cases "k = j")
    case True
    then show ?thesis using kv new b fed by (simp add: unit_at_def)
  next
    case False
    then have "unit_at r bc d' k = unit_at r bc d k" by (simp add: unit_at_def frame)
    then show ?thesis using False by (simp add: option.rel_refl fed_back_refl)
  qed
  moreover have "db_get r d' c = db_get r d c" if "index_cell c" for c
    by (rule frame) (use that in auto)
  ultimately show ?thesis using frame by (simp add: feedback_step_def)
qed

section \<open>Usage scores\<close>

lemma clamp01_bounds:
  assumes "unit_f32 s" "x \<noteq> F32_NaN"
  shows "s \<le> x \<Longrightarrow> s \<le> clamp01 x" and "x \<le> s \<Longrightarrow> clamp01 x \<le> s"
  using assms by (cases x; auto simp: clamp01_def elim!: unit_f32E)+

lemma usage_delta_signs:
  "is_positive_signal sg \<Longrightarrow> F32 0 \<le> usage_delta sg"
  "\<not> is_positive_signal sg \<Longrightarrow> \<exists>q. 0 \<le> q \<and> usage_delta sg = - F32 q"
proof -
  have "unit_f32 (f32_of_rat (10/100))" by (rule unit_f32_of_rat) simp_all
  then obtain q where q: "f32_of_rat (10/100) = F32 q" "0 \<le> q" "f32_valid (F32 q)"
    by (metis unit_f32E unit_f32_valid)
  have pos: "F32 0 \<le> f32_of_rat (10/100)" "F32 0 \<le> f32_of_rat (8/100)" "F32 0 \<le> f32_of_rat (5/100)"
    by (rule f32_of_rat_nonneg, simp)+
  show "F32 0 \<le> usage_delta sg" if "is_positive_signal sg"
  proof -
    from that consider "sg = ''UserConfirmedCorrect''" | "sg = ''TaskSucceeded''" | "sg = ''Referenced''"
      unfolding is_positive_signal_def by fastforce
    then show ?thesis using pos unfolding usage_delta_def by cases simp_all
  qed
  have zero: "F32 0 = - F32 0" by (simp add: uminus_f32_def)
  show "\<exists>q. 0 \<le> q \<and> usage_delta sg = - F32 q" if "\<not> is_positive_signal sg"
  proof (cases "sg = ''UserRejected''")
    case True
    then show ?thesis using q unfolding usage_delta_def by (intro exI[of _ q]) simp
  next
    case False
    with that have "usage_delta sg = F32 0" unfolding usage_delta_def is_positive_signal_def by simp
    with zero show ?thesis by (metis order_refl)
  qed
qed

definition usage_moves :: "string \<Rightarrow> f32 \<Rightarrow> f32 \<Rightarrow> bool" where
  "usage_moves sg s s' \<longleftrightarrow> (if is_positive_signal sg then s \<le> s' else s' \<le> s)"

lemma apply_usage_moves:
  assumes wf: "score_wf (usage_score (activation u))"
  shows "score_wf (usage_score (activation (apply_usage (usage_delta sg) u))) \<and>
    usage_moves sg (score_value (usage_score (activation u)))
      (score_value (usage_score (activation (apply_usage (usage_delta sg) u))))"
proof -
  let ?s = "score_value (usage_score (activation u))"
  from wf have s: "unit_f32 ?s" by (simp add: score_wf_def)
  then obtain q where q: "?s = F32 q" "f32_valid (F32 q)" by (metis unit_f32E unit_f32_valid)
  have dir: "usage_moves sg ?s (?s + usage_delta sg)"
  proof (cases "is_positive_signal sg")
    case True
    then show ?thesis
      using usage_delta_signs(1)[OF True] f32_add_ge[OF q(2)] by (simp add: q(1) usage_moves_def)
  next
    case False
    then obtain x where x: "0 \<le> x" "usage_delta sg = - F32 x" using usage_delta_signs(2) by blast
    have "F32 q + - F32 x = F32 q - F32 x" by (simp add: minus_f32_def plus_f32_def uminus_f32_def)
    then show ?thesis using f32_sub_le[OF q(2) x(1)] x q(1) False by (simp add: usage_moves_def)
  qed
  then have nn: "?s + usage_delta sg \<noteq> F32_NaN"
    using f32_le_not_nan by (auto simp: usage_moves_def split: if_splits)
  have u: "unit_f32 (clamp01 (?s + usage_delta sg))"
    using nn f32_valid_ops(1) by (rule unit_f32_clamp01[rotated])
  then show ?thesis
    using clamp01_bounds[OF s nn] dir
    by (simp add: apply_usage_def score_value_new score_wf_def usage_moves_def split: if_splits)
qed

lemma iterate_usage_moves:
  assumes "score_wf (usage_score (activation u))"
  shows "score_wf (usage_score (activation ((apply_usage (usage_delta sg) ^^ n) u))) \<and>
    usage_moves sg (score_value (usage_score (activation u)))
      (score_value (usage_score (activation ((apply_usage (usage_delta sg) ^^ n) u))))"
proof (induction n)
  case 0
  with assms show ?case by (auto simp: usage_moves_def score_wf_def elim!: unit_f32E)
next
  case (Suc n)
  with apply_usage_moves[of "(apply_usage (usage_delta sg) ^^ n) u" sg] show ?case
    by (auto simp: usage_moves_def split: if_splits intro: f32_le_trans)
qed

lemma usage_delta_nonzero: "usage_delta (signal_to_string s) \<noteq> F32 0"
proof -
  have "usage_delta (signal_to_string Referenced) \<noteq> F32 0"
    "usage_delta (signal_to_string UserConfirmedCorrect) \<noteq> F32 0"
    "usage_delta (signal_to_string TaskSucceeded) \<noteq> F32 0"
    "usage_delta (signal_to_string UserRejected) \<noteq> F32 0"
    by code_simp+
  then show ?thesis by (cases s) (simp_all only: not_False_eq_True)
qed

section \<open>The operations\<close>

text \<open>A computation that succeeds and is a feedback step.\<close>

definition feeds_back ::
    "('d, 'b) redb \<Rightarrow> 'b bincode \<Rightarrow> string \<Rightarrow> (u128 \<Rightarrow> nat) \<Rightarrow> ('d, unit) eng \<Rightarrow> bool" where
  "feeds_back r bc sg n m \<longleftrightarrow>
     (\<forall>d. store_sync r bc d \<longrightarrow> (\<exists>d'. m d = (d', Inr ()) \<and> feedback_step r bc sg n d d'))"

lemma feeds_backD:
  assumes "feeds_back r bc sg n m" "store_sync r bc d"
  obtains d' where "m d = (d', Inr ())" "feedback_step r bc sg n d d'" "store_sync r bc d'"
  using assms unfolding feeds_back_def feedback_step_def by blast

lemma feeds_back_return: "feeds_back r bc sg (\<lambda>_. 0) (eng_return ())"
  by (simp add: feeds_back_def feedback_step_refl)

lemma feeds_back_ignore: "feeds_back r bc sg n m \<Longrightarrow> feeds_back r bc sg n (eng_ignore m)"
  unfolding feeds_back_def eng_ignore_def by fastforce

lemma feeds_back_bind:
  assumes "feeds_back r bc sg m p" "feeds_back r bc sg n q"
  shows "feeds_back r bc sg (\<lambda>j. m j + n j) (eng_bind p (\<lambda>_. q))"
  unfolding feeds_back_def
proof (intro allI impI)
  fix d assume "store_sync r bc d"
  then obtain d1 where d1: "p d = (d1, Inr ())" "feedback_step r bc sg m d d1" "store_sync r bc d1"
    by (rule feeds_backD[OF assms(1)])
  obtain d2 where "q d1 = (d2, Inr ())" "feedback_step r bc sg n d1 d2"
    by (rule feeds_backD[OF assms(2) d1(3)])
  with d1 show "\<exists>d'. eng_bind p (\<lambda>_. q) d = (d', Inr ()) \<and> feedback_step r bc sg (\<lambda>j. m j + n j) d d'"
    using feedback_step_trans by fastforce
qed

lemma feeds_back_loop:
  assumes "\<And>x. x \<in> set xs \<Longrightarrow> feeds_back r bc sg (n x) (f x ())"
  shows "feeds_back r bc sg (\<lambda>j. sum_list (map (\<lambda>x. n x j) xs)) (eng_loop f xs ())"
  using assms
proof (induction xs)
  case (Cons x xs)
  have "eng_loop f (x # xs) () = eng_bind (f x ()) (\<lambda>_. eng_loop f xs ())"
    by (simp add: eng_bind_def fun_eq_iff)
  then show ?case
    using feeds_back_bind[OF Cons.prems[of x] Cons.IH] Cons.prems by simp
qed (simp add: feeds_back_return)

lemma apply_delta_one_feeds_back:
  assumes db: "redb_ok r" and bc: "bincode_ok bc" and ff: "fault_free r"
    and sync: "store_sync r bc d"
  shows "\<exists>d'. apply_delta_one r bc (usage_delta sg) i d = (d', Inr ()) \<and>
    feedback_step r bc sg (\<lambda>j. if j = i then 1 else 0) d d'"
proof (cases "db_get r d (C128 MEMORY_KV i)")
  case None
  then have run: "apply_delta_one r bc (usage_delta sg) i d = (d, Inr ())"
    using ff by (simp add: apply_delta_one_def kv_get_def)
  have "unit_at r bc d i = None" using None by (simp add: unit_at_def)
  then have "rel_option (fed_back sg (if j = i then 1 else 0)) (unit_at r bc d j) (unit_at r bc d j)" for j
    by (simp add: option.rel_refl fed_back_refl)
  then show ?thesis using run sync by (auto simp: feedback_step_def)
next
  case (Some v)
  from store_syncD[OF sync Some] obtain u where u: "dec (c_unit bc) v = Inr u"
    "links_at r bc d i = links u" by metis
  obtain b where b: "enc (c_unit bc) (apply_usage (usage_delta sg) u) = Inr b"
      "dec (c_unit bc) b = Inr (apply_usage (usage_delta sg) u)"
    using bincode_okD(1)[OF bc] by (rule codec_okE)
  let ?d = "db_insert r (C128 MEMORY_KV i) b d"
  have run: "apply_delta_one r bc (usage_delta sg) i d = (?d, Inr ())"
    using ff Some u b by (simp add: apply_delta_one_def kv_get_def kv_put_def)
  have fed: "fed_back sg 1 u (apply_usage (usage_delta sg) u)"
    using fed_back_refl[of sg u] by (simp add: fed_back_def)
  have "links_at r bc ?d i = links (apply_usage (usage_delta sg) u)"
    using db u(2) by (simp add: links_at_def postings_def)
  then have "feedback_step r bc sg (\<lambda>j. if j = i then 1 else 0) d ?d"
    using feedback_step_unit[OF sync Some u(1) fed b(2), of ?d] db by simp
  with run show ?thesis by blast
qed

lemma review_edge_ok:
  assumes "unit_f32 delta" "link_wf l"
  shows "link_wf (review_edge now delta l) \<and> link_strength l \<le> link_strength (review_edge now delta l)"
proof -
  have "unit_f32 (link_strength l)" using assms(2) by (simp add: link_wf_def score_wf_def)
  from unit_review[OF this assms(1)] show ?thesis
    using assms(2) by (simp add: review_edge_def link_wf_def score_wf_def score_value_new LINK_STRENGTH_CAP_def)
qed

lemma review_edges_fed_back:
  assumes "is_positive_signal sg" "unit_f32 delta"
  shows "fed_back sg 0 u (u\<lparr>links := review_edges now delta to (links u)\<rparr>)"
proof -
  have "list_all2 (\<lambda>l l'. link_key l' = link_key l \<and>
      (link_wf l \<longrightarrow> link_wf l' \<and> link_strength l \<le> link_strength l')) ls (review_edges now delta to ls)" for ls
    unfolding review_edges_def list_all2_map2
    using review_edge_ok[OF assms(2)]
    by (intro list_all2_refl) (auto simp: link_key_def review_edge_def link_wf_def score_wf_def elim!: unit_f32E)
  with assms(1) show ?thesis by (simp add: fed_back_def)
qed

text \<open>Reading the overlay gives the stored edges; an undecodable entry is an error and counts as none.\<close>

lemma get_outgoing_cases:
  assumes "fault_free r"
  shows "get_outgoing r bc (MemoryId j) d = Inr (links_at r bc d j) \<or>
    links_at r bc d j = [] \<and> (\<exists>e. get_outgoing r bc (MemoryId j) d = Inl e)"
  using assms
  by (auto simp: get_outgoing_def links_at_def postings_def map_err_def split: option.split sum.split)

lemma strengthen_edge_feeds_back:
  assumes db: "redb_ok r" and bc: "bincode_ok bc" and ff: "fault_free r"
    and up: "is_positive_signal sg" and delta: "unit_f32 delta"
  shows "feeds_back r bc sg (\<lambda>_. 0) (eng_ignore (strengthen_edge r bc now from_id to_id delta))"
  unfolding feeds_back_def
proof (intro allI impI)
  fix d assume sync: "store_sync r bc d"
  let ?m = "eng_ignore (strengthen_edge r bc now from_id to_id delta)"
  let ?rev = "review_edges now delta to_id"
  note out = get_outgoing_cases[OF ff, where bc = bc]
  show "\<exists>d'. ?m d = (d', Inr ()) \<and> feedback_step r bc sg (\<lambda>_. 0) d d'"
  proof (cases "db_get r d (C128 MEMORY_KV from_id)")
    case None
    show ?thesis
    proof (cases "has_target to_id (links_at r bc d from_id)")
      case True
      obtain b where b: "put_outgoing r bc (MemoryId from_id) (?rev (links_at r bc d from_id)) d =
          Inr (db_insert r (C128 LINK_OVERLAY from_id) b d)"
        by (rule put_outgoing_ok[OF bc ff])
      let ?d = "db_insert r (C128 LINK_OVERLAY from_id) b d"
      have "?m d = (?d, Inr ())"
        using None True b ff out[of from_id d]
        by (auto simp: eng_ignore_def strengthen_edge_def kv_get_def has_target_def)
      moreover have "store_sync r bc ?d"
        by (rule store_sync_update[OF sync, where j = from_id]) (use None db in auto)
      moreover have "unit_at r bc ?d j = unit_at r bc d j" for j
        using db by (simp add: unit_at_def)
      moreover have "db_get r ?d c = db_get r d c" if "index_cell c" for c
        using db that by auto
      ultimately show ?thesis
        using db by (auto simp: feedback_step_def option.rel_refl fed_back_refl)
    next
      case False
      then have "?m d = (d, Inr ())" 
        using None ff out[of from_id d] by (auto simp: eng_ignore_def strengthen_edge_def kv_get_def)
      then show ?thesis using feedback_step_refl[OF sync] by blast
    qed
  next
    case (Some v)
    from store_syncD[OF sync Some] obtain u where u: "dec (c_unit bc) v = Inr u"
      "links_at r bc d from_id = links u" by metis
    show ?thesis
    proof (cases "has_target to_id (links u)")
      case True
      let ?u = "u\<lparr>links := ?rev (links u)\<rparr>"
      obtain b where b: "enc (c_unit bc) ?u = Inr b" "dec (c_unit bc) b = Inr ?u"
        using bincode_okD(1)[OF bc] by (rule codec_okE)
      let ?d1 = "db_insert r (C128 MEMORY_KV from_id) b d"
      have l1: "links_at r bc ?d1 from_id = links u"
        using db u(2) by (simp add: links_at_def postings_def)
      obtain b' where b': "put_outgoing r bc (MemoryId from_id) (?rev (links u)) ?d1 =
          Inr (db_insert r (C128 LINK_OVERLAY from_id) b' ?d1)" "dec (c_links bc) b' = Inr (?rev (links u))"
        by (rule put_outgoing_ok[OF bc ff])
      let ?d = "db_insert r (C128 LINK_OVERLAY from_id) b' ?d1"
      have run: "?m d = (?d, Inr ())"
        using Some True u b b' l1 ff out[of from_id ?d1]
        by (auto simp: eng_ignore_def strengthen_edge_def kv_get_def kv_put_def has_target_def)
      have "links_at r bc ?d from_id = links ?u" using links_at_insert(1)[OF db b'(2)] by simp
      then have "feedback_step r bc sg (\<lambda>k. if k = from_id then 0 else 0) d ?d"
        using feedback_step_unit[OF sync Some u(1) review_edges_fed_back[OF up delta] b(2), of ?d] db
        by simp
      with run show ?thesis by auto
    next
      case False
      then have "?m d = (d, Inr ())"
        using Some u ff out[of from_id d]
        by (auto simp: eng_ignore_def strengthen_edge_def kv_get_def)
      then show ?thesis using feedback_step_refl[OF sync] by blast
    qed
  qed
qed

lemma strengthen_links_feeds_back:
  assumes "redb_ok r" "bincode_ok bc" "fault_free r"
  shows "feeds_back r bc sg (\<lambda>_. 0)
    (eng_write EE_Store (strengthen_links r bc ctx i CONTEXT_LINK_DELTA now_ms))"
  unfolding feeds_back_def
proof (intro allI impI)
  fix d assume sync: "store_sync r bc d"
  obtain d' where d': "strengthen_links r bc ctx i CONTEXT_LINK_DELTA now_ms d = Inr d'"
    "\<And>c. c \<notin> range (C64 CONTEXT_LINKS) \<Longrightarrow> db_get r d' c = db_get r d c"
    by (rule strengthen_links_ok[OF assms, of ctx i CONTEXT_LINK_DELTA now_ms d]) (rule that)
  have "feedback_step r bc sg (\<lambda>_. 0) d d'"
    by (rule feedback_step_frame[OF sync], rule d'(2)) (auto simp: graph_cell_def)
  with d'(1) show "\<exists>d'. eng_write EE_Store (strengthen_links r bc ctx i CONTEXT_LINK_DELTA now_ms) d = (d', Inr ()) \<and>
      feedback_step r bc sg (\<lambda>_. 0) d d'" by auto
qed

lemma strengthen_context_feeds_back:
  assumes "redb_ok r" "bincode_ok bc" "fault_free r"
  shows "feeds_back r bc sg (\<lambda>_. 0) (strengthen_context r bc input now)"
proof -
  have loop: "feeds_back r bc sg (\<lambda>_. 0) (eng_loop (\<lambda>i _. eng_ignore (eng_write EE_Store
      (strengthen_links r bc ctx (as_u128 i) CONTEXT_LINK_DELTA (as_i64 now)))) xs ())" for ctx xs
    using feeds_back_loop[of xs r bc sg "\<lambda>_ _. 0"]
      feeds_back_ignore[OF strengthen_links_feeds_back[OF assms]] by simp
  show ?thesis
    using loop feeds_back_return[of r bc sg]
    by (auto simp: feeds_back_def strengthen_context_def split: option.split)
qed

lemma strengthen_paths_feeds_back:
  assumes "redb_ok r" "bincode_ok bc" "fault_free r" "is_positive_signal sg"
  shows "feeds_back r bc sg (\<lambda>_. 0) (strengthen_paths r bc input edge_now)"
proof -
  have "unit_f32 CONTEXT_LINK_DELTA"
    unfolding CONTEXT_LINK_DELTA_def by (rule unit_f32_of_rat) simp_all
  note edge = strengthen_edge_feeds_back[OF assms this]
  have "feeds_back r bc sg (\<lambda>_. 0) (eng_loop (\<lambda>p _.
       if list_ex (\<lambda>i. as_u128 i = path_to p) (fb_used_memory_ids input)
       then eng_ignore (strengthen_edge r bc (edge_now p) (path_from p) (path_to p) CONTEXT_LINK_DELTA)
       else eng_return ()) ps ())" for ps
    using feeds_back_loop[of ps r bc sg "\<lambda>_ _. 0"] edge feeds_back_return[of r bc sg] by simp
  then show ?thesis by (simp add: feeds_back_def strengthen_paths_def)
qed

lemma apply_deltas_feeds_back:
  assumes "redb_ok r" "bincode_ok bc" "fault_free r"
  shows "feeds_back r bc sg (\<lambda>j. count_list xs j)
    (eng_loop (\<lambda>i _. apply_delta_one r bc (usage_delta sg) i) xs ())"
proof -
  have "feeds_back r bc sg (\<lambda>j. if j = i then 1 else 0) (apply_delta_one r bc (usage_delta sg) i)" for i
    using apply_delta_one_feeds_back[OF assms] by (simp add: feeds_back_def)
  from feeds_back_loop[where n = "\<lambda>i j. if j = i then 1 else 0", OF this]
  have "feeds_back r bc sg (\<lambda>j. sum_list (map (\<lambda>i. if j = i then 1 else 0) xs))
    (eng_loop (\<lambda>i _. apply_delta_one r bc (usage_delta sg) i) xs ())" by blast
  moreover have "(\<lambda>j. sum_list (map (\<lambda>i. if j = i then 1 else 0) xs)) = count_list xs"
    by (rule ext, induction xs) auto
  ultimately show ?thesis by simp
qed

lemma record_activation_ok:
  assumes "redb_ok r" "bincode_ok bc" "fault_free r"
  obtains d' where "record_activation r bc rec d = Inr d'"
    and "\<And>v. db_get r d' (C128 ACTIVATION_LOG (activation_key rec)) = Some v \<Longrightarrow> decode_record bc v = Some rec"
    and "db_get r d' (C128 ACTIVATION_LOG (activation_key rec)) \<noteq> None"
    and "\<And>c. c \<noteq> C128 ACTIVATION_LOG (activation_key rec) \<Longrightarrow> db_get r d' c = db_get r d c"
proof -
  obtain b where b: "enc (c_activation bc) rec = Inr b" "dec (c_activation bc) b = Inr rec"
    using bincode_okD(4)[OF assms(2)] by (rule codec_okE)
  show thesis
    by (rule that[of "db_insert r (C128 ACTIVATION_LOG (activation_key rec)) b d"])
      (use assms b in \<open>auto simp: record_activation_def decode_record_def\<close>)
qed

lemma feedback_after_record:
  assumes r: "redb_ok r" "bincode_ok bc" "fault_free r" and sync: "store_sync r bc d1"
    and rec: "record_activation r bc (feedback_record input now) d = Inr d1"
  obtains d' where "feedback r bc now edge_now input d = (d', Inr ())"
    and "feedback_step r bc (signal_to_string (fb_signal input))
      (count_list (map as_u128 (fb_used_memory_ids input))) d1 d'"
proof -
  let ?sg = "signal_to_string (fb_signal input)"
  let ?ids = "map as_u128 (fb_used_memory_ids input)"
  let ?m1 = "if usage_delta ?sg \<noteq> F32 0 \<and> fb_used_memory_ids input \<noteq> []
    then eng_loop (\<lambda>i _. apply_delta_one r bc (usage_delta ?sg) i) ?ids () else eng_return ()"
  let ?m2 = "if is_positive_signal ?sg \<and> fb_used_memory_ids input \<noteq> []
    then eng_bind (strengthen_context r bc input now) (\<lambda>_. strengthen_paths r bc input edge_now)
    else eng_return ()"
  have zero: "count_list ?ids = (\<lambda>_. 0)" if "fb_used_memory_ids input = []" using that by auto
  have m1: "feeds_back r bc ?sg (count_list ?ids) ?m1"
    using apply_deltas_feeds_back[OF r, of ?sg ?ids] feeds_back_return[of r bc ?sg] zero
      usage_delta_nonzero by auto
  have m2: "feeds_back r bc ?sg (\<lambda>_. 0) ?m2"
    using feeds_back_bind[OF strengthen_context_feeds_back[OF r] strengthen_paths_feeds_back[OF r],
      of ?sg input now input edge_now] feeds_back_return[of r bc ?sg] by simp
  obtain d' where "eng_bind ?m1 (\<lambda>_. ?m2) d1 = (d', Inr ())"
    "feedback_step r bc ?sg (\<lambda>j. count_list ?ids j + 0) d1 d'"
    by (rule feeds_backD[OF feeds_back_bind[OF m1 m2] sync])
  then show thesis
    using that[of d'] rec by (simp add: feedback_def Let_def)
qed

text \<open>C25: on a store without faults, \<open>feedback\<close> succeeds and: the log holds the record of the call;
  memory log and inverted indexes are untouched; units and overlay stay in step; exactly the
  memories that were stored stay stored, and each keeps everything but its usage score, moved once
  per occurrence of the memory among the used ones and in the direction of the signal, and the
  strengths of its edges, which keep their targets and types and never weaken, and which only a
  positive signal touches.\<close>

theorem feedback_spec:
  assumes r: "redb_ok r" "bincode_ok bc" "fault_free r" and sync: "store_sync r bc d"
  shows "\<exists>d'. feedback r bc now edge_now input d = (d', Inr ()) \<and> store_sync r bc d' \<and>
    map_option (decode_record bc) (db_get r d' (C128 ACTIVATION_LOG (activation_key (feedback_record input now)))) =
      Some (Some (feedback_record input now)) \<and>
    (\<forall>i. db_get r d' (C128 MEMORY_LOG i) = db_get r d (C128 MEMORY_LOG i)) \<and>
    index_rel r bc d' = index_rel r bc d \<and>
    (\<forall>j. rel_option (fed_back (signal_to_string (fb_signal input))
        (count_list (map as_u128 (fb_used_memory_ids input)) j)) (unit_at r bc d j) (unit_at r bc d' j)) \<and>
    (\<forall>j u u'. unit_at r bc d j = Some u \<longrightarrow> unit_at r bc d' j = Some u' \<longrightarrow>
        score_wf (usage_score (activation u)) \<longrightarrow>
        usage_moves (signal_to_string (fb_signal input)) (score_value (usage_score (activation u)))
          (score_value (usage_score (activation u'))))"
proof -
  let ?sg = "signal_to_string (fb_signal input)" and ?rec = "feedback_record input now"
  let ?n = "count_list (map as_u128 (fb_used_memory_ids input))"
  obtain d1 where d1: "record_activation r bc ?rec d = Inr d1"
    and log: "\<And>v. db_get r d1 (C128 ACTIVATION_LOG (activation_key ?rec)) = Some v \<Longrightarrow>
      decode_record bc v = Some ?rec" "db_get r d1 (C128 ACTIVATION_LOG (activation_key ?rec)) \<noteq> None"
    and F: "\<And>c. c \<noteq> C128 ACTIVATION_LOG (activation_key ?rec) \<Longrightarrow> db_get r d1 c = db_get r d c"
    by (rule record_activation_ok[OF r, of ?rec d]) (rule that)
  have sync1: "store_sync r bc d1"
    by (rule store_sync_frame[OF sync], rule F) (auto simp: graph_cell_def)
  obtain d' where run: "feedback r bc now edge_now input d = (d', Inr ())"
    and step: "feedback_step r bc ?sg ?n d1 d'"
    by (rule feedback_after_record[OF r sync1 d1])
  have units1: "unit_at r bc d1 j = unit_at r bc d j" for j by (simp add: unit_at_def F)
  have "db_get r d' c = db_get r d c" if "index_cell c" for c
    using step that F[of c] by (cases c) (auto simp: feedback_step_def)
  then have idx: "index_rel r bc d' = index_rel r bc d" by (rule index_rel_frame)
  have units: "rel_option (fed_back ?sg (?n j)) (unit_at r bc d j) (unit_at r bc d' j)" for j
    using step by (simp add: feedback_step_def units1)
  have moves: "usage_moves ?sg (score_value (usage_score (activation u))) (score_value (usage_score (activation u')))"
    if u: "unit_at r bc d j = Some u" "unit_at r bc d' j = Some u'" and wf: "score_wf (usage_score (activation u))"
    for j u u'
  proof -
    obtain ls where "u' = ((apply_usage (usage_delta ?sg) ^^ ?n j) u)\<lparr>links := ls\<rparr>"
      using units[of j] unfolding u fed_back_def by auto
    with iterate_usage_moves[OF wf, where sg = ?sg and n = "?n j"] show ?thesis by simp
  qed
  have "map_option (decode_record bc) (db_get r d' (C128 ACTIVATION_LOG (activation_key ?rec))) = Some (Some ?rec)"
    using step log by (auto simp: feedback_step_def)
  moreover have "db_get r d' (C128 MEMORY_LOG i) = db_get r d (C128 MEMORY_LOG i)" for i
    using step by (simp add: feedback_step_def F)
  moreover have "store_sync r bc d'" using step by (simp add: feedback_step_def)
  ultimately show ?thesis using run idx units moves by blast
qed

theorem feedback_spec_witness:
  "\<exists>d' u'. feedback cells_redb cells_bincode (Timestamp 5) (\<lambda>_. Timestamp 5)
      \<lparr>fb_retrieval_id = 7, fb_used_memory_ids = [MemoryId 2], fb_signal = UserConfirmedCorrect\<rparr> demo_pair =
      (d', Inr ()) \<and>
    unit_at cells_redb cells_bincode d' 2 = Some u' \<and> map link_key (links u') = [(MemoryId 1, LT_Causal)]"
proof -
  have sync: "store_sync cells_redb cells_bincode demo_pair"
    unfolding demo_pair_def by (rule demo_store_sync)
  obtain u where u: "unit_at cells_redb cells_bincode demo_pair 2 = Some u"
      "links u = [demo_link 1 LT_Causal (1/2)]"
    by (simp add: unit_at_def demo_pair_def cells_redb_def cells_bincode_def demo_unit_simps)
  from feedback_spec[OF cells_redb_ok cells_bincode_ok cells_fault_free sync, of "Timestamp 5" "\<lambda>_. Timestamp 5"
      "\<lparr>fb_retrieval_id = 7, fb_used_memory_ids = [MemoryId 2], fb_signal = UserConfirmedCorrect\<rparr>"]
  obtain d' where d': "feedback cells_redb cells_bincode (Timestamp 5) (\<lambda>_. Timestamp 5)
      \<lparr>fb_retrieval_id = 7, fb_used_memory_ids = [MemoryId 2], fb_signal = UserConfirmedCorrect\<rparr> demo_pair =
      (d', Inr ())"
    and "\<forall>j. rel_option (fed_back (signal_to_string UserConfirmedCorrect) (count_list [2] j))
      (unit_at cells_redb cells_bincode demo_pair j) (unit_at cells_redb cells_bincode d' j)"
    unfolding feedback_input.simps list.map memory_id.sel by blast
  then have rel: "rel_option (fed_back ''UserConfirmedCorrect'' 1)
      (unit_at cells_redb cells_bincode demo_pair 2) (unit_at cells_redb cells_bincode d' 2)"
    by (metis signal_to_string.simps(2) count_list.simps One_nat_def add_0)
  from rel u obtain u' where u': "unit_at cells_redb cells_bincode d' 2 = Some u'"
      "fed_back ''UserConfirmedCorrect'' 1 u u'"
    by (auto simp: option_rel_Some1)
  then have "list_all2 (\<lambda>l l'. link_key l' = link_key l) (links u) (links u')"
    unfolding fed_back_def by (auto elim!: list_all2_mono)
  then have "map link_key (links u') = map link_key (links u)"
    by (induction rule: list_all2_induct) auto
  then have "map link_key (links u') = [(MemoryId 1, LT_Causal)]"
    by (simp add: u(2) demo_link_def link_key_def)
  with d' u'(1) show ?thesis by (intro exI conjI)
qed

end
