(* ===== verification/Engine_List.thy ===== *)
theory Engine_List
  imports Engine_Core Core_Text
begin

text \<open>
  The listing of \<open>hippmem-engine\<close> (\<open>list_api.rs\<close>): one page of the stored memories, newest first,
  after a cursor. A page is a function of the state, the engine holds nothing between calls; a
  client walks through the pages by passing on the returned cursor.
\<close>

section \<open>Slices\<close>

text \<open>\<open>Iterator::position\<close> and \<open>slice::binary_search_by\<close>: the search halves the window
  \<open>[base, base + width)\<close>; \<open>Inl\<close> is the insertion point.\<close>

fun first_index :: "('a \<Rightarrow> bool) \<Rightarrow> 'a list \<Rightarrow> nat option" where
  "first_index P [] = None"
| "first_index P (x # xs) = (if P x then Some 0 else map_option Suc (first_index P xs))"

function bisect :: "('a \<Rightarrow> ordering) \<Rightarrow> 'a list \<Rightarrow> nat \<Rightarrow> nat \<Rightarrow> nat" where
  "bisect f xs base width =
     (if width \<le> 1 then base
      else let half = width div 2; mid = base + half in
           bisect f xs (if f (xs ! mid) = OGreater then base else mid) (width - half))"
  by pat_completeness auto
termination by (relation "measure (\<lambda>(f, xs, base, width). width)") auto

declare bisect.simps [simp del]

definition binary_search_by :: "('a \<Rightarrow> ordering) \<Rightarrow> 'a list \<Rightarrow> nat + nat" where
  "binary_search_by f xs =
     (if xs = [] then Inl 0
      else let base = bisect f xs 0 (length xs); c = f (xs ! base) in
           if c = OEqual then Inr base else Inl (base + (if c = OLess then 1 else 0)))"

section \<open>Listing (list_api.rs)\<close>

record list_input =
  li_limit :: nat
  li_cursor :: "u128 option"
  li_content_type :: "content_type option"

record list_item =
  it_id :: memory_id
  it_content_preview :: string
  it_content_type :: content_type
  it_created_at :: timestamp
  it_importance :: f32
  it_stage :: memory_stage
  it_lifecycle :: memory_lifecycle
  it_edge_count :: nat

record list_output =
  lo_items :: "list_item list"
  lo_next_cursor :: "u128 option"
  lo_total :: u64

definition list_input_default :: list_input where
  "list_input_default = \<lparr>li_limit = 20, li_cursor = None, li_content_type = None\<rparr>"

definition preview :: "nat \<Rightarrow> string \<Rightarrow> string" where
  "preview n raw = of_chars (take n (chars raw))"

definition list_item_of :: "memory_unit \<Rightarrow> list_item" where
  "list_item_of u =
     \<lparr>it_id = mem_id u, it_content_preview = preview 100 (mc_raw (content u)),
      it_content_type = mc_content_type (content u), it_created_at = created_at u,
      it_importance = score_value (mu_importance (understanding u)), it_stage = stage u,
      it_lifecycle = lifecycle u, it_edge_count = length (links u)\<rparr>"

definition type_matches :: "content_type option \<Rightarrow> memory_unit \<Rightarrow> bool" where
  "type_matches ct u = (case ct of Some ct \<Rightarrow> mc_content_type (content u) = ct | None \<Rightarrow> True)"

definition list_items :: "content_type option \<Rightarrow> memory_unit list \<Rightarrow> list_item list" where
  "list_items ct us =
     sort_by (\<lambda>a b. cmp_lin (it_id b) (it_id a)) (map list_item_of (filter (type_matches ct) us))"

definition start_index :: "u128 option \<Rightarrow> list_item list \<Rightarrow> nat" where
  "start_index c items =
     (case c of
        None \<Rightarrow> 0
      | Some c \<Rightarrow>
          (case first_index (\<lambda>it. as_u128 (it_id it) = c) items of
             Some p \<Rightarrow> p + 1
           | None \<Rightarrow> case_sum (\<lambda>p. p) (\<lambda>p. p) (binary_search_by (\<lambda>it. cmp_lin c (as_u128 (it_id it))) items)))"

definition list_page :: "list_input \<Rightarrow> memory_unit list \<Rightarrow> list_output" where
  "list_page input us =
     (let limit = min 100 (max 1 (li_limit input));
          items = list_items (li_content_type input) us;
          start_idx = start_index (li_cursor input) items;
          end_idx = min (start_idx + limit) (length items);
          has_more = end_idx < length items;
          page = (if start_idx < length items then take (end_idx - start_idx) (drop start_idx items) else [])
      in \<lparr>lo_items = page,
          lo_next_cursor = (if has_more \<and> page \<noteq> [] then Some (as_u128 (it_id (last page))) else None),
          lo_total = of_nat (length items)\<rparr>)"

definition list_memories :: "('d, 'b) redb \<Rightarrow> 'b bincode \<Rightarrow> list_input \<Rightarrow> 'd \<Rightarrow> engine_error + list_output" where
  "list_memories r bc input d =
     (case load_all_units r bc d of Inl e \<Rightarrow> Inl e | Inr us \<Rightarrow> Inr (list_page input us))"

section \<open>The cursor\<close>

interpretation id_desc: cmp_preorder "\<lambda>a b. cmp_lin (it_id b) (it_id a)" "\<lambda>_. True"
  by unfold_locales auto

lemma first_index_Some:
  "first_index P xs = Some p \<Longrightarrow> p < length xs \<and> P (xs ! p) \<and> (\<forall>i < p. \<not> P (xs ! i))"
  by (induction xs arbitrary: p) (auto split: if_splits simp: nth_Cons split: nat.split)

lemma first_index_None: "first_index P xs = None \<longleftrightarrow> (\<forall>x \<in> set xs. \<not> P x)"
  by (induction xs) auto

text \<open>Bisection on a list whose first \<open>p\<close> elements are below the target and the others above.\<close>

lemma bisect_partition:
  assumes part: "\<And>i. i < length xs \<Longrightarrow> f (xs ! i) = (if i < p then OLess else OGreater)"
    and win: "base + width \<le> length xs" "0 < width" "base = 0 \<or> base < p" "p \<le> base + width"
  shows "bisect f xs base width < length xs \<and>
    p = bisect f xs base width + (if f (xs ! bisect f xs base width) = OLess then 1 else 0)"
  using win
proof (induction width arbitrary: base rule: less_induct)
  case (less width)
  show ?case
  proof (cases "width \<le> 1")
    case True
    with less.prems show ?thesis
      using part[of base] by (auto simp: bisect.simps[of f xs base width])
  next
    case False
    let ?half = "width div 2"
    let ?base = "if f (xs ! (base + ?half)) = OGreater then base else base + ?half"
    have step: "bisect f xs base width = bisect f xs ?base (width - ?half)"
      using False by (subst bisect.simps) (simp add: Let_def)
    have "f (xs ! (base + ?half)) = (if base + ?half < p then OLess else OGreater)"
      by (rule part) (use less.prems False in linarith)
    then show ?thesis
      unfolding step using less.prems False by (intro less.IH) (auto split: if_splits)
  qed
qed

lemma binary_search_partition:
  assumes "\<And>i. i < length xs \<Longrightarrow> f (xs ! i) = (if i < p then OLess else OGreater)" "p \<le> length xs"
  shows "binary_search_by f xs = Inl p"
proof (cases "xs = []")
  case False
  with assms bisect_partition[OF assms(1), of 0 "length xs"]
  have "bisect f xs 0 (length xs) < length xs"
    "p = bisect f xs 0 (length xs) + (if f (xs ! bisect f xs 0 (length xs)) = OLess then 1 else 0)" by auto
  moreover from this(1) have "f (xs ! bisect f xs 0 (length xs)) \<noteq> OEqual" using assms(1) by auto
  ultimately show ?thesis using False by (simp add: binary_search_by_def Let_def)
qed (use assms in \<open>simp add: binary_search_by_def\<close>)

text \<open>The items are in strictly descending order of their identifiers.\<close>

definition newest_first :: "list_item list \<Rightarrow> bool" where
  "newest_first items \<longleftrightarrow> sorted_wrt (\<lambda>a b. it_id b < it_id a) items"

lemma sorted_distinct_ids:
  assumes "sorted_wrt (\<lambda>a b. cmp_lin (it_id b) (it_id a) \<noteq> OGreater) items" "distinct (map it_id items)"
  shows "sorted_wrt (\<lambda>a b. it_id b < it_id a) items"
  using assms
proof (induction items)
  case (Cons x xs)
  have "it_id y < it_id x" if "y \<in> set xs" for y
  proof -
    have "it_id y \<le> it_id x" using Cons.prems(1) that by (auto simp: not_less)
    moreover have "it_id y \<noteq> it_id x" using Cons.prems(2) that by (auto simp: image_iff)
    ultimately show ?thesis by simp
  qed
  with Cons show ?case by simp
qed simp

lemma list_items_newest_first:
  assumes "distinct (map mem_id us)"
  shows "newest_first (list_items ct us)"
proof -
  let ?cmp = "\<lambda>a b. cmp_lin (it_id b) (it_id a)"
  have "sorted_wrt (\<lambda>a b. ?cmp a b \<noteq> OGreater) (list_items ct us)"
    unfolding list_items_def by (rule id_desc.sorted_sort_by) (simp add: list_all_iff)
  moreover have "distinct (map it_id (list_items ct us))"
    using assms by (simp add: list_items_def comp_def list_item_of_def distinct_map_filter)
  ultimately show ?thesis
    unfolding newest_first_def
    by (rule sorted_distinct_ids)
qed

text \<open>A property that only holds on a prefix of a sorted list.\<close>

lemma filter_prefix:
  assumes "sorted_wrt R xs" "\<And>a b. R a b \<Longrightarrow> P b \<Longrightarrow> P a"
  shows "i < length xs \<Longrightarrow> P (xs ! i) \<longleftrightarrow> i < length (filter P xs)"
    and "filter (\<lambda>x. \<not> P x) xs = drop (length (filter P xs)) xs"
proof -
  have "(i < length xs \<longrightarrow> (P (xs ! i) \<longleftrightarrow> i < length (filter P xs))) \<and>
      filter (\<lambda>x. \<not> P x) xs = drop (length (filter P xs)) xs"
    using assms(1)
  proof (induction xs arbitrary: i)
    case (Cons x xs)
    show ?case
    proof (cases "P x")
      case True
      with Cons show ?thesis by (cases i) auto
    next
      case False
      then have "\<forall>y \<in> set (x # xs). \<not> P y" using Cons.prems assms(2) by auto
      then have "filter P (x # xs) = []" "filter (\<lambda>y. \<not> P y) (x # xs) = x # xs"
        by (simp_all add: filter_empty_conv)
      then show ?thesis using \<open>\<forall>y \<in> set (x # xs). \<not> P y\<close> by (metis drop0 list.size(3) not_less_zero nth_mem)
    qed
  qed simp
  then show "i < length xs \<Longrightarrow> P (xs ! i) \<longleftrightarrow> i < length (filter P xs)"
    "filter (\<lambda>x. \<not> P x) xs = drop (length (filter P xs)) xs" by auto
qed

text \<open>The start index skips exactly the items that are not older than the cursor.\<close>

lemma start_index_newer:
  assumes "newest_first items"
  shows "start_index (Some c) items = length (filter (\<lambda>it. c \<le> as_u128 (it_id it)) items)" (is "_ = length (filter ?P items)")
proof -
  note prefix = filter_prefix(1)[where P = ?P, OF assms[unfolded newest_first_def]]
  have anti: "?P b \<Longrightarrow> it_id b < it_id a \<Longrightarrow> ?P a" for a b by (simp add: less_memory_id_def)
  show ?thesis
  proof (cases "first_index (\<lambda>it. as_u128 (it_id it) = c) items")
    case None
    then have ne: "as_u128 (it_id it) \<noteq> c" if "it \<in> set items" for it
      using that by (simp add: first_index_None)
    have "cmp_lin c (as_u128 (it_id (items ! i))) = (if i < length (filter ?P items) then OLess else OGreater)"
      if "i < length items" for i
      using prefix[OF _ that] anti ne[of "items ! i"] that by (auto simp: cmp_lin_def not_less)
    then have "binary_search_by (\<lambda>it. cmp_lin c (as_u128 (it_id it))) items = Inl (length (filter ?P items))"
      by (intro binary_search_partition) auto
    with None show ?thesis by (simp add: start_index_def)
  next
    case (Some p)
    then have p: "p < length items" "as_u128 (it_id (items ! p)) = c" by (auto dest: first_index_Some)
    then have lt: "p < length (filter ?P items)" using prefix[OF _ p(1)] anti by auto
    have "\<not> Suc p < length (filter ?P items)"
    proof
      assume *: "Suc p < length (filter ?P items)"
      then have l: "Suc p < length items" by (meson length_filter_le less_le_trans)
      then have "?P (items ! Suc p)" using prefix[OF _ l] anti * by auto
      moreover have "it_id (items ! Suc p) < it_id (items ! p)"
        using assms l by (simp add: newest_first_def sorted_wrt_iff_nth_less)
      ultimately show False using p(2) by (simp add: less_memory_id_def)
    qed
    with lt Some show ?thesis by (simp add: start_index_def)
  qed
qed

section \<open>Pages\<close>

text \<open>The items after the cursor, and the length of a page.\<close>

definition after_cursor :: "u128 option \<Rightarrow> list_item \<Rightarrow> bool" where
  "after_cursor c it = (case c of None \<Rightarrow> True | Some c \<Rightarrow> as_u128 (it_id it) < c)"

definition page_limit :: "list_input \<Rightarrow> nat" where
  "page_limit input = min 100 (max 1 (li_limit input))"

lemma drop_start_index:
  assumes "newest_first items"
  shows "drop (start_index c items) items = filter (after_cursor c) items"
    and "start_index c items \<le> length items"
proof -
  have "drop (start_index c items) items = filter (after_cursor c) items \<and> start_index c items \<le> length items"
  proof (cases c)
    case None
    have "after_cursor None = (\<lambda>_. True)" by (simp add: after_cursor_def fun_eq_iff)
    then show ?thesis using None by (simp add: start_index_def)
  next
    case (Some k)
    let ?P = "\<lambda>it. k \<le> as_u128 (it_id it)"
    have "filter (\<lambda>it. \<not> ?P it) items = drop (length (filter ?P items)) items"
      by (rule filter_prefix(2)[OF assms[unfolded newest_first_def]]) (simp add: less_memory_id_def)
    moreover have "after_cursor c = (\<lambda>it. \<not> ?P it)" by (simp add: Some after_cursor_def fun_eq_iff not_le)
    ultimately show ?thesis using Some start_index_newer[OF assms, of k] by simp
  qed
  then show "drop (start_index c items) items = filter (after_cursor c) items"
    "start_index c items \<le> length items" by auto
qed

lemma list_page_items:
  fixes input :: list_input
  assumes "distinct (map mem_id us)"
  defines "rest \<equiv> filter (after_cursor (li_cursor input)) (list_items (li_content_type input) us)"
  shows "list_page input us =
    \<lparr>lo_items = take (page_limit input) rest,
     lo_next_cursor = (if page_limit input < length rest
       then Some (as_u128 (it_id (rest ! (page_limit input - 1)))) else None),
     lo_total = of_nat (length (list_items (li_content_type input) us))\<rparr>"
proof -
  let ?items = "list_items (li_content_type input) us"
  let ?s = "start_index (li_cursor input) ?items" and ?l = "page_limit input"
  have nf: "newest_first ?items" by (rule list_items_newest_first[OF assms(1)])
  have rest: "rest = drop ?s ?items" "length rest = length ?items - ?s" "?s \<le> length ?items"
    using drop_start_index[OF nf, of "li_cursor input"] by (simp_all add: rest_def flip: drop_start_index(1)[OF nf])
  have l: "0 < ?l" by (simp add: page_limit_def)
  have page: "(if ?s < length ?items then take (min (?s + ?l) (length ?items) - ?s) (drop ?s ?items) else []) =
      take ?l rest"
    using rest by (auto simp: min_def)
  have more: "min (?s + ?l) (length ?items) < length ?items \<longleftrightarrow> ?l < length rest"
    using rest l by auto
  have "last (take ?l rest) = rest ! (?l - 1)" if "?l < length rest"
    using that l by (subst last_conv_nth) auto
  moreover have "take ?l rest \<noteq> []" if "?l < length rest" using that l by auto
  ultimately show ?thesis
    unfolding list_page_def Let_def page_limit_def[symmetric] page more by auto
qed

section \<open>Walking through the pages\<close>

text \<open>A client that asks for page after page until no cursor is returned; \<open>None\<close> when \<open>n\<close> calls were
  not enough or a call fails.\<close>

fun list_walk ::
    "('d, 'b) redb \<Rightarrow> 'b bincode \<Rightarrow> 'd \<Rightarrow> nat \<Rightarrow> list_input \<Rightarrow> list_item list option" where
  "list_walk r bc d 0 input = None"
| "list_walk r bc d (Suc n) input =
     (case list_memories r bc input d of
        Inl _ \<Rightarrow> None
      | Inr out \<Rightarrow>
          (case lo_next_cursor out of
             None \<Rightarrow> Some (lo_items out)
           | Some c \<Rightarrow> map_option (\<lambda>its. lo_items out @ its) (list_walk r bc d n (input\<lparr>li_cursor := Some c\<rparr>))))"

text \<open>The items after the last one of a page are the rest of the items.\<close>

lemma filter_after_nth:
  assumes "newest_first items" "k < length items"
  shows "filter (after_cursor (Some (as_u128 (it_id (items ! k))))) items = drop (Suc k) items"
  using assms
proof (induction items arbitrary: k)
  case (Cons x xs)
  have x: "\<forall>y \<in> set xs. it_id y < it_id x" "newest_first xs"
    using Cons.prems by (simp_all add: newest_first_def)
  show ?case
  proof (cases k)
    case 0
    have "filter (after_cursor (Some (as_u128 (it_id x)))) xs = xs"
      using x(1) by (intro filter_True) (simp add: after_cursor_def less_memory_id_def)
    moreover have "\<not> after_cursor (Some (as_u128 (it_id x))) x" by (simp add: after_cursor_def)
    ultimately show ?thesis using 0 by simp
  next
    case (Suc m)
    then have "it_id (xs ! m) < it_id x" using x(1) Cons.prems by simp
    then have "\<not> after_cursor (Some (as_u128 (it_id (xs ! m)))) x"
      by (simp add: after_cursor_def less_memory_id_def)
    then show ?thesis using Cons.IH[of m] x(2) Cons.prems Suc by simp
  qed
qed simp

lemma filter_after_rest:
  assumes "newest_first items" "k < length (filter (after_cursor c) items)"
  shows "filter (after_cursor (Some (as_u128 (it_id (filter (after_cursor c) items ! k))))) items =
    drop (Suc k) (filter (after_cursor c) items)"
proof -
  let ?rest = "filter (after_cursor c) items"
  have rest: "?rest = drop (start_index c items) items"
    using drop_start_index[OF assms(1)] by simp
  then have "?rest ! k = items ! (start_index c items + k)" "start_index c items + k < length items"
    using assms(2) by simp_all
  then show ?thesis using filter_after_nth[OF assms(1), of "start_index c items + k"] rest by (simp add: add.commute)
qed

lemma list_walk_rest:
  assumes load: "load_all_units r bc d = Inr us" and dist: "distinct (map mem_id us)"
  shows "length (filter (after_cursor (li_cursor input)) (list_items (li_content_type input) us)) < n \<Longrightarrow>
    list_walk r bc d n input =
      Some (filter (after_cursor (li_cursor input)) (list_items (li_content_type input) us))"
proof (induction n arbitrary: input)
  case (Suc n)
  let ?items = "list_items (li_content_type input) us"
  let ?rest = "filter (after_cursor (li_cursor input)) ?items" and ?l = "page_limit input"
  have page: "list_memories r bc input d = Inr (list_page input us)"
    by (simp add: list_memories_def load)
  have l: "0 < ?l" by (simp add: page_limit_def)
  show ?case
  proof (cases "?l < length ?rest")
    case False
    then show ?thesis using page list_page_items[OF dist, of input] by simp
  next
    case True
    let ?next = "input\<lparr>li_cursor := Some (as_u128 (it_id (?rest ! (?l - 1))))\<rparr>"
    have rest: "filter (after_cursor (li_cursor ?next)) ?items = drop ?l ?rest"
      using filter_after_rest[OF list_items_newest_first[OF dist], of "?l - 1" "li_cursor input" "li_content_type input"]
        True l by simp
    then have "list_walk r bc d n ?next = Some (drop ?l ?rest)"
      using Suc.IH[of ?next] Suc.prems True l by simp
    then show ?thesis using page list_page_items[OF dist, of input] True by simp
  qed
qed simp

section \<open>What a client sees\<close>

lemma list_items_set:
  "set (list_items ct us) = list_item_of ` {u \<in> set us. type_matches ct u}"
  by (simp add: list_items_def)

lemma list_store_items:
  assumes "redb_ok r" "fault_free r" "store_sync r bc d"
  obtains us where "load_all_units r bc d = Inr us" "distinct (map mem_id us)"
    and "set (list_items ct us) = list_item_of ` {u. (\<exists>j. unit_at r bc d j = Some u) \<and> type_matches ct u}"
proof (rule load_all_units_sync[OF assms])
  fix us
  assume us: "load_all_units r bc d = Inr us" "distinct (map mem_id us)"
    and mem: "\<And>u. u \<in> set us \<longleftrightarrow> unit_at r bc d (as_u128 (mem_id u)) = Some u"
  have "u \<in> set us \<longleftrightarrow> (\<exists>j. unit_at r bc d j = Some u)" for u
  proof
    assume "\<exists>j. unit_at r bc d j = Some u"
    then obtain j where j: "unit_at r bc d j = Some u" by blast
    with assms(3) have "mem_id u = MemoryId j" by (rule unit_at_mem_id)
    with j show "u \<in> set us" by (simp add: mem)
  qed (auto simp: mem)
  then show thesis using that[OF us] by (simp add: list_items_set)
qed

text \<open>On a store without faults, \<open>list\<close> returns the items of the requested type that come after the
  cursor, at most \<open>limit\<close> of them (clamped to 1..100), newest first; the cursor need not name a
  stored memory. A cursor is returned exactly when items are left, and it is the last identifier of
  the page; the total counts all items of the type.\<close>

theorem list_page_spec:
  assumes "redb_ok r" "fault_free r" "store_sync r bc d"
  shows "\<exists>items. newest_first items \<and>
    set items = list_item_of ` {u. (\<exists>j. unit_at r bc d j = Some u) \<and> type_matches (li_content_type input) u} \<and>
    (let rest = filter (after_cursor (li_cursor input)) items; n = min 100 (max 1 (li_limit input)) in
     list_memories r bc input d =
       Inr \<lparr>lo_items = take n rest,
            lo_next_cursor = (if n < length rest then Some (as_u128 (it_id (rest ! (n - 1)))) else None),
            lo_total = of_nat (length items)\<rparr>)"
proof (rule list_store_items[OF assms, where ct = "li_content_type input"])
  fix us
  assume us: "load_all_units r bc d = Inr us" "distinct (map mem_id us)"
    and set: "set (list_items (li_content_type input) us) =
      list_item_of ` {u. (\<exists>j. unit_at r bc d j = Some u) \<and> type_matches (li_content_type input) u}"
  show ?thesis
    using list_items_newest_first[OF us(2)] set us(1) list_page_items[OF us(2), of input]
    by (intro exI[of _ "list_items (li_content_type input) us"])
      (simp add: list_memories_def page_limit_def)
qed

theorem list_page_spec_witness:
  "\<exists>items. newest_first items \<and>
    set items = list_item_of ` {u. (\<exists>j. unit_at cells_redb cells_bincode demo_pair j = Some u) \<and> type_matches None u}"
proof -
  have "store_sync cells_redb cells_bincode demo_pair"
    unfolding demo_pair_def by (rule demo_store_sync)
  from list_page_spec[OF cells_redb_ok cells_fault_free this, of list_input_default]
  show ?thesis by (auto simp: list_input_default_def)
qed

text \<open>C27: a client that starts without a cursor and passes on the returned cursors until there is none
  gets every stored memory of the requested type exactly once, newest first, and needs no more calls
  than there are such memories, plus one.\<close>

theorem list_walk_complete:
  assumes "redb_ok r" "fault_free r" "store_sync r bc d" "li_cursor input = None"
  shows "\<exists>items. newest_first items \<and>
    set items = list_item_of ` {u. (\<exists>j. unit_at r bc d j = Some u) \<and> type_matches (li_content_type input) u} \<and>
    list_walk r bc d (Suc (length items)) input = Some items"
proof (rule list_store_items[OF assms(1,2,3), where ct = "li_content_type input"])
  fix us
  assume us: "load_all_units r bc d = Inr us" "distinct (map mem_id us)"
    and set: "set (list_items (li_content_type input) us) =
      list_item_of ` {u. (\<exists>j. unit_at r bc d j = Some u) \<and> type_matches (li_content_type input) u}"
  have "filter (after_cursor (li_cursor input)) (list_items (li_content_type input) us) =
      list_items (li_content_type input) us"
    by (simp add: assms(4) after_cursor_def)
  then have "list_walk r bc d (Suc (length (list_items (li_content_type input) us))) input =
      Some (list_items (li_content_type input) us)"
    using list_walk_rest[OF us, of input] by (metis lessI)
  with list_items_newest_first[OF us(2)] set show ?thesis by blast
qed

theorem list_walk_complete_witness:
  "\<exists>items. newest_first items \<and>
    set items = list_item_of ` {u. (\<exists>j. unit_at cells_redb cells_bincode demo_pair j = Some u) \<and> type_matches None u} \<and>
    list_walk cells_redb cells_bincode demo_pair (Suc (length items)) list_input_default = Some items"
proof -
  have "store_sync cells_redb cells_bincode demo_pair"
    unfolding demo_pair_def by (rule demo_store_sync)
  from list_walk_complete[OF cells_redb_ok cells_fault_free this, of list_input_default]
  show ?thesis by (auto simp: list_input_default_def)
qed

end
