(* ===== verification/Engine_Traverse.thy ===== *)
theory Engine_Traverse
  imports Engine_Core Core_Text
begin

text \<open>
  The traversal of the association graph (\<open>traverse_api.rs\<close>): a breadth-first search from a stored
  memory along out-edges, in-edges or both, up to a depth, optionally restricted to some edge types.
  It is shown that the loop ends and that the reported nodes are exactly the stored memories within
  the depth, each once, with its distance, in the order of the distance.
\<close>

section \<open>Types (lib.rs)\<close>

datatype traverse_direction = TD_Outgoing | TD_Incoming | TD_Both

record traverse_input =
  ti_start_id :: memory_id
  ti_max_depth :: u8
  ti_direction :: traverse_direction
  ti_link_types :: "link_type list option"

definition traverse_input_new :: "memory_id \<Rightarrow> traverse_input" where
  "traverse_input_new i =
     \<lparr>ti_start_id = i, ti_max_depth = 2, ti_direction = TD_Outgoing, ti_link_types = None\<rparr>"

record edge_view =
  vw_from :: memory_id
  vw_to :: memory_id
  vw_link_type :: link_type
  vw_strength :: f32
  vw_confidence :: f32
  vw_activation_count :: u32
  vw_evidence :: string

record traverse_node =
  tn_id :: memory_id
  tn_depth :: u8
  tn_content_preview :: string
  tn_content_type :: content_type
  tn_importance :: f32

record traverse_output =
  to_nodes :: "traverse_node list"
  to_edges :: "edge_view list"

definition edge_view_of :: "memory_id \<Rightarrow> memory_id \<Rightarrow> association_link \<Rightarrow> edge_view" where
  "edge_view_of a b l =
     \<lparr>vw_from = a, vw_to = b, vw_link_type = link_type l, vw_strength = link_strength l,
      vw_confidence = score_value (confidence l), vw_activation_count = activation_count l,
      vw_evidence = (case le_note (evidence l) of None \<Rightarrow> '''' | Some note \<Rightarrow> note)\<rparr>"

section \<open>The search (traverse_api.rs)\<close>

record traversal =
  visited :: "memory_id set"
  nodes :: "traverse_node list"
  edges :: "edge_view list"
  queue :: "(memory_id \<times> u8) list"

definition unit_map :: "memory_unit list \<Rightarrow> memory_id \<Rightarrow> memory_unit option" where
  "unit_map us = map_of (rev (map (\<lambda>u. (mem_id u, u)) us))"

definition in_links :: "memory_unit list \<Rightarrow> memory_id \<Rightarrow> (memory_id \<times> association_link) list" where
  "in_links us i =
     concat (map (\<lambda>u. map (\<lambda>l. (mem_id u, l)) (filter (\<lambda>l. target_id l = i) (links u))) us)"

definition out_links :: "memory_unit \<Rightarrow> (memory_id \<times> association_link) list" where
  "out_links u = map (\<lambda>l. (target_id l, l)) (links u)"

fun candidate_edges ::
    "traverse_direction \<Rightarrow> memory_unit list \<Rightarrow> memory_unit \<Rightarrow> memory_id \<Rightarrow> (memory_id \<times> association_link) list" where
  "candidate_edges TD_Outgoing us u i = out_links u"
| "candidate_edges TD_Incoming us u i = in_links us i"
| "candidate_edges TD_Both us u i = out_links u @ in_links us i"

definition type_allowed :: "link_type list option \<Rightarrow> link_type \<Rightarrow> bool" where
  "type_allowed types t = (case types of Some ts \<Rightarrow> t \<in> set ts | None \<Rightarrow> True)"

definition traverse_node_of :: "memory_id \<Rightarrow> u8 \<Rightarrow> memory_unit \<Rightarrow> traverse_node" where
  "traverse_node_of i depth u =
     \<lparr>tn_id = i, tn_depth = depth, tn_content_preview = of_chars (take 100 (chars (mc_raw (content u)))),
      tn_content_type = mc_content_type (content u),
      tn_importance = score_value (mu_importance (understanding u))\<rparr>"

definition visit_edge ::
    "memory_unit list \<Rightarrow> link_type list option \<Rightarrow> memory_id \<Rightarrow> u8 \<Rightarrow> memory_id \<times> association_link
      \<Rightarrow> traversal \<Rightarrow> traversal" where
  "visit_edge us types cur depth e st =
     (let neighbor = fst e; l = snd e in
      if \<not> type_allowed types (link_type l) then st
      else let st = st\<lparr>edges := edges st @ [edge_view_of cur neighbor l]\<rparr> in
           if neighbor \<in> visited st then st
           else st\<lparr>visited := insert neighbor (visited st),
                   nodes := (case unit_map us neighbor of
                       Some u \<Rightarrow> nodes st @ [traverse_node_of neighbor (depth + 1) u]
                     | None \<Rightarrow> nodes st),
                   queue := queue st @ [(neighbor, depth + 1)]\<rparr>)"

definition expand ::
    "traverse_direction \<Rightarrow> link_type list option \<Rightarrow> memory_unit list \<Rightarrow> u8 \<Rightarrow> memory_id \<Rightarrow> u8
      \<Rightarrow> traversal \<Rightarrow> traversal" where
  "expand dir types us max_depth cur depth st =
     (if max_depth \<le> depth then st
      else case unit_map us cur of
        None \<Rightarrow> st
      | Some u \<Rightarrow> fold (visit_edge us types cur depth) (candidate_edges dir us u cur) st)"

text \<open>Every identifier the search can meet.\<close>

definition universe :: "memory_unit list \<Rightarrow> memory_id set" where
  "universe us = mem_id ` set us \<union> target_id ` (\<Union>u \<in> set us. set (links u))"

lemma finite_universe: "finite (universe us)"
  by (simp add: universe_def)

lemma unit_map_in: "unit_map us i = Some u \<Longrightarrow> u \<in> set us \<and> mem_id u = i"
  by (auto simp: unit_map_def dest!: map_of_SomeD)

lemma candidate_edges_universe:
  assumes "unit_map us i = Some u" "e \<in> set (candidate_edges dir us u i)"
  shows "fst e \<in> universe us"
  using assms unit_map_in[OF assms(1)]
  by (cases dir) (auto simp: universe_def out_links_def in_links_def)

definition pending :: "memory_unit list \<Rightarrow> traversal \<Rightarrow> nat" where
  "pending us st = card (universe us - visited st) + length (queue st)"

lemma visit_edge_pending:
  assumes "fst e \<in> universe us"
  shows "pending us (visit_edge us' types cur depth e st) \<le> pending us st"
proof (cases "fst e \<in> visited st")
  case False
  with assms have "universe us - visited st = insert (fst e) (universe us - insert (fst e) (visited st))" by auto
  then have "card (universe us - visited st) = Suc (card (universe us - insert (fst e) (visited st)))"
    using finite_universe by (metis card_insert_disjoint Diff_iff finite_Diff insertI1)
  with False show ?thesis by (simp add: pending_def visit_edge_def Let_def)
qed (simp add: pending_def visit_edge_def Let_def)

lemma expand_pending: "pending us (expand dir types us max_depth cur depth st) \<le> pending us st"
proof -
  have "pending us (fold (visit_edge us types cur depth) es st) \<le> pending us st"
    if "\<forall>e \<in> set es. fst e \<in> universe us" for es
    using that
  proof (induction es arbitrary: st)
    case (Cons e es)
    then show ?case using visit_edge_pending[of e us us types cur depth st] by (force intro: order_trans)
  qed simp
  then show ?thesis
    using candidate_edges_universe[of us cur] by (auto simp: expand_def split: option.split)
qed

function traverse_loop ::
    "traverse_direction \<Rightarrow> link_type list option \<Rightarrow> memory_unit list \<Rightarrow> u8 \<Rightarrow> traversal \<Rightarrow> traversal" where
  "traverse_loop dir types us max_depth st =
     (case queue st of
        [] \<Rightarrow> st
      | (cur, depth) # rest \<Rightarrow>
          traverse_loop dir types us max_depth (expand dir types us max_depth cur depth (st\<lparr>queue := rest\<rparr>)))"
  by pat_completeness auto
termination
proof (relation "measure (\<lambda>(dir, types, us, max_depth, st). pending us st)")
  fix dir types us max_depth and st :: traversal and p rest cur and depth :: u8
  assume "queue st = p # rest" "(cur, depth) = p"
  then have "pending us (st\<lparr>queue := rest\<rparr>) < pending us st" by (simp add: pending_def)
  with expand_pending[of us dir types max_depth cur depth "st\<lparr>queue := rest\<rparr>"]
  show "((dir, types, us, max_depth, expand dir types us max_depth cur depth (st\<lparr>queue := rest\<rparr>)),
      dir, types, us, max_depth, st) \<in> measure (\<lambda>(dir, types, us, max_depth, st). pending us st)" by simp
qed simp

declare traverse_loop.simps [simp del]

definition traverse_units :: "traverse_input \<Rightarrow> memory_unit list \<Rightarrow> engine_error + traverse_output" where
  "traverse_units input us =
     (let max_depth = min 5 (max 1 (ti_max_depth input)); s = ti_start_id input in
      if unit_map us s = None then Inl (EE_NotFound s)
      else let st = traverse_loop (ti_direction input) (ti_link_types input) us max_depth
             \<lparr>visited = {s}, nodes = [], edges = [], queue = [(s, 0)]\<rparr>
           in Inr \<lparr>to_nodes = nodes st, to_edges = edges st\<rparr>)"

definition traverse :: "('d, 'b) redb \<Rightarrow> 'b bincode \<Rightarrow> traverse_input \<Rightarrow> 'd \<Rightarrow> engine_error + traverse_output" where
  "traverse r bc input d =
     (case load_all_units r bc d of Inl e \<Rightarrow> Inl e | Inr us \<Rightarrow> traverse_units input us)"

section \<open>Breadth-first search\<close>

text \<open>The invariant of a breadth-first search for the vertices within \<open>m\<close> steps of \<open>s\<close>: \<open>V\<close> are the vertices
  seen, \<open>q\<close> is the queue with the distances, \<open>E\<close> the vertex being expanded.\<close>

locale breadth_first =
  fixes R :: "('a \<times> 'a) set" and s :: 'a and m :: nat
begin

definition at_distance :: "'a \<Rightarrow> nat \<Rightarrow> bool" where
  "at_distance x n \<longleftrightarrow> (s, x) \<in> R ^^ n \<and> (\<forall>k < n. (s, x) \<notin> R ^^ k)"

definition bfs_inv :: "'a set \<Rightarrow> nat \<Rightarrow> 'a set \<Rightarrow> ('a \<times> nat) list \<Rightarrow> bool" where
  "bfs_inv E k V q \<longleftrightarrow> s \<in> V \<and> (\<forall>x \<in> V. \<exists>n \<le> m. at_distance x n) \<and>
     (\<forall>(x, j) \<in> set q. x \<in> V \<and> at_distance x j \<and> k \<le> j \<and> j \<le> Suc k) \<and>
     sorted (map snd q) \<and> distinct (map fst q) \<and>
     (\<forall>x y n. x \<in> V \<longrightarrow> x \<notin> E \<longrightarrow> x \<notin> fst ` set q \<longrightarrow> at_distance x n \<longrightarrow> n < m \<longrightarrow> (x, y) \<in> R \<longrightarrow> y \<in> V)"

lemma at_distance_unique: "at_distance x n \<Longrightarrow> at_distance x k \<Longrightarrow> n = k"
  unfolding at_distance_def by (metis nat_neq_iff)

lemma at_distance_exists: "(s, x) \<in> R ^^ n \<Longrightarrow> \<exists>k \<le> n. at_distance x k"
proof -
  assume n: "(s, x) \<in> R ^^ n"
  let ?k = "LEAST k. (s, x) \<in> R ^^ k"
  have "(s, x) \<in> R ^^ ?k" using n by (rule LeastI)
  moreover have "?k \<le> n" using n by (rule Least_le)
  ultimately show ?thesis unfolding at_distance_def using not_less_Least by blast
qed

text \<open>Everything nearer than the vertices of the queue has been seen.\<close>

lemma near_seen:
  assumes inv: "bfs_inv E k V q" and E: "\<forall>x \<in> E. \<forall>n. at_distance x n \<longrightarrow> b \<le> n"
    and q: "\<forall>(x, j) \<in> set q. b \<le> j" and b: "b \<le> m"
  shows "(s, y) \<in> R ^^ j \<Longrightarrow> j \<le> b \<Longrightarrow> y \<in> V"
proof (induction j arbitrary: y)
  case 0
  moreover have "s \<in> V" using inv unfolding bfs_inv_def by blast
  ultimately show ?case by simp
next
  case (Suc j)
  then obtain p where p: "(s, p) \<in> R ^^ j" "(p, y) \<in> R" by auto
  then have "p \<in> V" using Suc by simp
  obtain n where n: "n \<le> j" "at_distance p n" using at_distance_exists[OF p(1)] by blast
  have "p \<notin> E"
  proof
    assume "p \<in> E"
    with E n(2) have "b \<le> n" by blast
    with n(1) Suc.prems(2) show False by simp
  qed
  moreover have "p \<notin> fst ` set q"
  proof
    assume "p \<in> fst ` set q"
    then obtain i where i: "(p, i) \<in> set q" by auto
    then have "at_distance p i" using inv unfolding bfs_inv_def by blast
    then have "i = n" using n(2) by (rule at_distance_unique)
    with i q n(1) Suc.prems(2) show False by auto
  qed
  moreover have "n < m" using n Suc.prems(2) b by simp
  ultimately show ?case using inv n \<open>p \<in> V\<close> p(2) unfolding bfs_inv_def by blast
qed

lemma bfs_start: "bfs_inv {} 0 {s} [(s, 0)]"
  by (auto simp: bfs_inv_def at_distance_def)

lemma bfs_pop:
  assumes "bfs_inv {} k V ((cur, j) # q)"
  shows "bfs_inv {cur} j V q" and "at_distance cur j" and "cur \<in> V" and "cur \<notin> fst ` set q" and "k \<le> j"
  using assms by (auto simp: bfs_inv_def)

lemma bfs_push:
  assumes inv: "bfs_inv {cur} k V q" and cur: "at_distance cur k" and k: "k < m"
    and y: "(cur, y) \<in> R" "y \<notin> V"
  shows "bfs_inv {cur} k (insert y V) (q @ [(y, Suc k)])" and "at_distance y (Suc k)"
proof -
  have reach: "(s, y) \<in> R ^^ Suc k" using cur y(1) by (auto simp: at_distance_def)
  have "(s, y) \<notin> R ^^ j" if "j \<le> k" for j
  proof
    assume "(s, y) \<in> R ^^ j"
    moreover have "\<forall>(x, j) \<in> set q. k \<le> j" using inv by (auto simp: bfs_inv_def)
    ultimately have "y \<in> V"
      using near_seen[OF inv, of k y j] at_distance_unique[OF cur] k that by force
    with y(2) show False by simp
  qed
  with reach show dist: "at_distance y (Suc k)" by (simp add: at_distance_def less_Suc_eq_le)
  have "sorted (map snd (q @ [(y, Suc k)]))"
    using inv by (force simp: bfs_inv_def sorted_append)
  moreover have "distinct (map fst (q @ [(y, Suc k)]))"
    using inv y(2) by (force simp: bfs_inv_def)
  ultimately show "bfs_inv {cur} k (insert y V) (q @ [(y, Suc k)])"
    using inv dist k unfolding bfs_inv_def by (auto 0 3)
qed

lemma bfs_done:
  assumes "bfs_inv {cur} k V q" "at_distance cur k" "k < m \<Longrightarrow> (\<And>y. (cur, y) \<in> R \<Longrightarrow> y \<in> V)"
  shows "bfs_inv {} k V q"
proof -
  have "y \<in> V" if "x \<in> V" "x \<notin> fst ` set q" "at_distance x n" "n < m" "(x, y) \<in> R" for x y n
  proof (cases "x = cur")
    case True
    then have "n = k" using at_distance_unique[OF assms(2)] that(3) by simp
    then show ?thesis using assms(3) that True by simp
  next
    case False
    then show ?thesis using assms(1) that unfolding bfs_inv_def by blast
  qed
  then show ?thesis using assms(1) unfolding bfs_inv_def by blast
qed

lemma bfs_final:
  assumes "bfs_inv {} k V []"
  shows "V = {x. \<exists>n \<le> m. at_distance x n}"
proof
  show "V \<subseteq> {x. \<exists>n \<le> m. at_distance x n}" using assms by (auto simp: bfs_inv_def)
  show "{x. \<exists>n \<le> m. at_distance x n} \<subseteq> V"
    using near_seen[OF assms, of m] by (auto simp: at_distance_def)
qed

end

section \<open>The loop is a breadth-first search\<close>

definition adjacency ::
    "traverse_direction \<Rightarrow> link_type list option \<Rightarrow> memory_unit list \<Rightarrow> (memory_id \<times> memory_id) set" where
  "adjacency dir types us =
     {(a, b). \<exists>u l. unit_map us a = Some u \<and> (b, l) \<in> set (candidate_edges dir us u a) \<and> type_allowed types (link_type l)}"

interpretation tr: breadth_first "adjacency dir types us" s m for dir types us s m .

definition nat_queue :: "traversal \<Rightarrow> (memory_id \<times> nat) list" where
  "nat_queue st = map (\<lambda>(x, k). (x, unat k)) (queue st)"

definition nodes_inv ::
    "traverse_direction \<Rightarrow> link_type list option \<Rightarrow> memory_unit list \<Rightarrow> memory_id \<Rightarrow> nat \<Rightarrow> traversal \<Rightarrow> bool" where
  "nodes_inv dir types us s k st \<longleftrightarrow>
     set (nodes st) = {traverse_node_of x d u | x d u. x \<in> visited st - {s} \<and> unit_map us x = Some u \<and>
       tr.at_distance dir types us s x (unat d)} \<and>
     distinct (map tn_id (nodes st)) \<and> sorted (map (\<lambda>nd. unat (tn_depth nd)) (nodes st)) \<and>
     (\<forall>nd \<in> set (nodes st). unat (tn_depth nd) \<le> Suc k)"

definition expanded_nodes :: "traversal \<Rightarrow> memory_id set" where
  "expanded_nodes st = visited st - fst ` set (queue st)"

lemma traverse_node_of_simps [simp]: "tn_id (traverse_node_of x k u) = x" "tn_depth (traverse_node_of x k u) = k"
  by (simp_all add: traverse_node_of_def)

lemma fst_nat_queue [simp]: "fst ` set (nat_queue st) = fst ` set (queue st)"
  by (force simp: nat_queue_def)

lemma unat_plus_one: "(k :: u8) < m \<Longrightarrow> unat (k + 1) = Suc (unat k)"
  using unsigned_less[of m, where 'a = nat] by (simp add: word_less_nat_alt unat_word_ariths)

lemma nodes_inv_push:
  assumes inv: "nodes_inv dir types us s k st" and y: "y \<notin> visited st" "s \<in> visited st"
    and dist: "tr.at_distance dir types us s y (Suc k)" and k: "unat (depth + 1) = Suc k"
    and st': "visited st' = insert y (visited st)"
      "nodes st' = (case unit_map us y of Some u \<Rightarrow> nodes st @ [traverse_node_of y (depth + 1) u] | None \<Rightarrow> nodes st)"
  shows "nodes_inv dir types us s k st'"
proof -
  have only: "tr.at_distance dir types us s y (unat d') \<longleftrightarrow> d' = depth + 1" for d'
    using tr.at_distance_unique[OF dist] dist k by (metis word_unat_eq_iff)
  have "y \<noteq> s" using y by blast
  then have nodes: "{traverse_node_of x d u | x d u. x \<in> insert y (visited st) - {s} \<and> unit_map us x = Some u \<and>
       tr.at_distance dir types us s x (unat d)} =
     {traverse_node_of x d u | x d u. x \<in> visited st - {s} \<and> unit_map us x = Some u \<and>
       tr.at_distance dir types us s x (unat d)} \<union>
     (case unit_map us y of Some u \<Rightarrow> {traverse_node_of y (depth + 1) u} | None \<Rightarrow> {})"
    using only y(1) by (auto split: option.split)
  have new: "y \<notin> tn_id ` set (nodes st)" using inv y(1) unfolding nodes_inv_def by auto
  show ?thesis
    unfolding nodes_inv_def st'(1) nodes st'(2) using inv new k
    by (auto simp: nodes_inv_def sorted_append split: option.split)
qed

text \<open>One edge, the edges of a vertex, one round.\<close>

definition loop_inv ::
    "traverse_direction \<Rightarrow> link_type list option \<Rightarrow> memory_unit list \<Rightarrow> memory_id \<Rightarrow> u8 \<Rightarrow> memory_id set \<Rightarrow> nat
      \<Rightarrow> traversal \<Rightarrow> bool" where
  "loop_inv dir types us s max_depth E k st \<longleftrightarrow>
     tr.bfs_inv dir types us s (unat max_depth) E k (visited st) (nat_queue st) \<and> nodes_inv dir types us s k st"

lemma visit_edge_inv:
  assumes inv: "loop_inv dir types us s max_depth {cur} (unat depth) st"
    and cur: "tr.at_distance dir types us s cur (unat depth)" "unit_map us cur = Some u"
    and depth: "depth < max_depth" and e: "e \<in> set (candidate_edges dir us u cur)"
  defines "st' \<equiv> visit_edge us types cur depth e st"
  shows "loop_inv dir types us s max_depth {cur} (unat depth) st'"
    and "type_allowed types (link_type (snd e)) \<longrightarrow> fst e \<in> visited st'"
    and "visited st \<subseteq> visited st'" and "expanded_nodes st' = expanded_nodes st"
    and "edges st' = edges st @
      (if type_allowed types (link_type (snd e)) then [edge_view_of cur (fst e) (snd e)] else [])"
proof -
  have k: "unat depth < unat max_depth" "unat (depth + 1) = Suc (unat depth)"
    using depth unat_plus_one[OF depth] by (simp_all add: word_less_nat_alt)
  have "loop_inv dir types us s max_depth {cur} (unat depth) st' \<and>
    (type_allowed types (link_type (snd e)) \<longrightarrow> fst e \<in> visited st') \<and>
    visited st \<subseteq> visited st' \<and> expanded_nodes st' = expanded_nodes st \<and>
    edges st' = edges st @
      (if type_allowed types (link_type (snd e)) then [edge_view_of cur (fst e) (snd e)] else [])"
  proof (cases "type_allowed types (link_type (snd e)) \<and> fst e \<notin> visited st")
    case False
    then have "st' = st \<or> type_allowed types (link_type (snd e)) \<and> fst e \<in> visited st \<and>
        st' = st\<lparr>edges := edges st @ [edge_view_of cur (fst e) (snd e)]\<rparr>"
      "\<not> type_allowed types (link_type (snd e)) \<longrightarrow> st' = st"
      by (auto simp: st'_def visit_edge_def Let_def)
    with inv False show ?thesis
      by (auto simp: loop_inv_def nodes_inv_def expanded_nodes_def nat_queue_def st'_def visit_edge_def Let_def)
  next
    case True
    let ?y = "fst e"
    have adj: "(cur, ?y) \<in> adjacency dir types us"
      using cur(2) e True by (cases e) (auto simp: adjacency_def)
    have bfs: "tr.bfs_inv dir types us s (unat max_depth) {cur} (unat depth) (visited st) (nat_queue st)"
      and ni: "nodes_inv dir types us s (unat depth) st"
      using inv by (simp_all add: loop_inv_def)
    note push = tr.bfs_push[OF bfs cur(1) k(1) adj] 
    have st': "visited st' = insert ?y (visited st)" "nat_queue st' = nat_queue st @ [(?y, Suc (unat depth))]"
      "nodes st' = (case unit_map us ?y of Some u \<Rightarrow> nodes st @ [traverse_node_of ?y (depth + 1) u] | None \<Rightarrow> nodes st)"
      "queue st' = queue st @ [(?y, depth + 1)]" "edges st' = edges st @ [edge_view_of cur ?y (snd e)]"
      using True k(2) by (auto simp: st'_def visit_edge_def Let_def nat_queue_def split: option.split)
    have "s \<in> visited st" using bfs unfolding tr.bfs_inv_def by blast
    with ni True have "nodes_inv dir types us s (unat depth) st'"
      using push(2) k(2) st'(1,3) by (intro nodes_inv_push[OF ni]) auto
    then show ?thesis
      using push(1) True st' by (auto simp: loop_inv_def expanded_nodes_def)
  qed
  then show "loop_inv dir types us s max_depth {cur} (unat depth) st'"
    "type_allowed types (link_type (snd e)) \<longrightarrow> fst e \<in> visited st'"
    "visited st \<subseteq> visited st'" "expanded_nodes st' = expanded_nodes st"
    "edges st' = edges st @
      (if type_allowed types (link_type (snd e)) then [edge_view_of cur (fst e) (snd e)] else [])" by simp_all
qed

definition edge_views ::
    "link_type list option \<Rightarrow> memory_id \<Rightarrow> (memory_id \<times> association_link) list \<Rightarrow> edge_view list" where
  "edge_views types cur es =
     map (\<lambda>e. edge_view_of cur (fst e) (snd e)) (filter (\<lambda>e. type_allowed types (link_type (snd e))) es)"

lemma visit_edges_inv:
  assumes "tr.at_distance dir types us s cur (unat depth)" "unit_map us cur = Some u" "depth < max_depth"
  shows "loop_inv dir types us s max_depth {cur} (unat depth) st \<Longrightarrow>
    set es \<subseteq> set (candidate_edges dir us u cur) \<Longrightarrow>
    (let st' = fold (visit_edge us types cur depth) es st in
     loop_inv dir types us s max_depth {cur} (unat depth) st' \<and>
     (\<forall>e \<in> set es. type_allowed types (link_type (snd e)) \<longrightarrow> fst e \<in> visited st') \<and>
     visited st \<subseteq> visited st' \<and> expanded_nodes st' = expanded_nodes st \<and>
     edges st' = edges st @ edge_views types cur es)"
proof (induction es arbitrary: st)
  case Nil
  then show ?case by (simp add: edge_views_def)
next
  case (Cons e es)
  note v = visit_edge_inv[OF Cons.prems(1) assms, of e]
  have e: "e \<in> set (candidate_edges dir us u cur)" "set es \<subseteq> set (candidate_edges dir us u cur)"
    using Cons.prems(2) by auto
  show ?case
    using Cons.IH[OF v(1)[OF e(1)] e(2)] v(2-5)[OF e(1)]
    by (auto simp: Let_def edge_views_def)
qed

definition node_views ::
    "traverse_direction \<Rightarrow> link_type list option \<Rightarrow> memory_unit list \<Rightarrow> memory_id \<Rightarrow> edge_view list" where
  "node_views dir types us x =
     (case unit_map us x of None \<Rightarrow> [] | Some u \<Rightarrow> edge_views types x (candidate_edges dir us u x))"

definition edges_inv ::
    "traverse_direction \<Rightarrow> link_type list option \<Rightarrow> memory_unit list \<Rightarrow> memory_id \<Rightarrow> u8 \<Rightarrow> traversal \<Rightarrow> bool" where
  "edges_inv dir types us s max_depth st \<longleftrightarrow>
     set (edges st) = (\<Union>x \<in> {x \<in> expanded_nodes st. \<exists>n < unat max_depth. tr.at_distance dir types us s x n}.
       set (node_views dir types us x))"

lemma expand_inv:
  assumes inv: "loop_inv dir types us s max_depth {cur} (unat depth) st"
    and cur: "tr.at_distance dir types us s cur (unat depth)"
  defines "st' \<equiv> expand dir types us max_depth cur depth st"
  shows "loop_inv dir types us s max_depth {} (unat depth) st' \<and> expanded_nodes st' = expanded_nodes st \<and>
    set (edges st') = set (edges st) \<union> (if depth < max_depth then set (node_views dir types us cur) else {})"
proof -
  have finish: "loop_inv dir types us s max_depth {} (unat depth) st1"
    if "loop_inv dir types us s max_depth {cur} (unat depth) st1"
      "depth < max_depth \<Longrightarrow> (\<And>y. (cur, y) \<in> adjacency dir types us \<Longrightarrow> y \<in> visited st1)" for st1
    using that tr.bfs_done[OF _ cur] by (auto simp: loop_inv_def word_less_nat_alt)
  consider "max_depth \<le> depth" | "depth < max_depth" "unit_map us cur = None"
    | u where "depth < max_depth" "unit_map us cur = Some u" by force
  then show ?thesis
  proof cases
    case 1
    then have "st' = st" "\<not> depth < max_depth" by (simp_all add: st'_def expand_def)
    with finish[OF inv] show ?thesis by simp
  next
    case 2
    then have "st' = st" by (simp add: st'_def expand_def)
    with finish[OF inv] 2 show ?thesis by (simp add: adjacency_def node_views_def)
  next
    case 3
    then have st': "st' = fold (visit_edge us types cur depth) (candidate_edges dir us u cur) st"
      by (simp add: st'_def expand_def)
    note v = visit_edges_inv[OF cur 3(2) 3(1) inv order_refl, folded st', unfolded Let_def]
    then have "y \<in> visited st'" if "(cur, y) \<in> adjacency dir types us" for y
      using that 3(2) by (fastforce simp: adjacency_def)
    with v finish[of st'] show ?thesis by (auto simp: node_views_def 3)
  qed
qed

lemma nodes_inv_mono:
  assumes "nodes_inv dir types us s k st" "k \<le> j"
  shows "nodes_inv dir types us s j (st\<lparr>queue := q\<rparr>)"
proof -
  have "unat (tn_depth nd) \<le> Suc j" if "nd \<in> set (nodes st)" for nd
    using assms that unfolding nodes_inv_def by (meson Suc_le_mono le_trans)
  then show ?thesis using assms(1) by (simp add: nodes_inv_def)
qed

lemma traverse_round:
  assumes inv: "loop_inv dir types us s max_depth {} k st" "edges_inv dir types us s max_depth st"
    and q: "queue st = (cur, depth) # rest"
  defines "st' \<equiv> expand dir types us max_depth cur depth (st\<lparr>queue := rest\<rparr>)"
  shows "loop_inv dir types us s max_depth {} (unat depth) st'" and "edges_inv dir types us s max_depth st'"
proof -
  let ?st = "st\<lparr>queue := rest\<rparr>" and ?d = "tr.at_distance dir types us s"
  have nq: "nat_queue st = (cur, unat depth) # nat_queue ?st" by (simp add: nat_queue_def q)
  have "tr.bfs_inv dir types us s (unat max_depth) {} k (visited st) ((cur, unat depth) # nat_queue ?st)"
    using inv(1) nq by (simp add: loop_inv_def)
  note pop = tr.bfs_pop[OF this]
  have "nodes_inv dir types us s (unat depth) ?st"
    using nodes_inv_mono[OF _ pop(5)] inv(1) by (simp add: loop_inv_def)
  with pop(1) have "loop_inv dir types us s max_depth {cur} (unat depth) ?st" by (simp add: loop_inv_def)
  note ex = expand_inv[OF this pop(2), folded st'_def]
  then show "loop_inv dir types us s max_depth {} (unat depth) st'" by simp
  have "expanded_nodes ?st = insert cur (expanded_nodes st)"
    using pop(3,4) by (auto simp: expanded_nodes_def q)
  moreover have "(\<exists>n < unat max_depth. ?d cur n) \<longleftrightarrow> depth < max_depth"
    unfolding word_less_nat_alt using pop(2) tr.at_distance_unique[OF pop(2)] by blast
  ultimately have "{x \<in> expanded_nodes st'. \<exists>n < unat max_depth. ?d x n} =
      {x \<in> expanded_nodes st. \<exists>n < unat max_depth. ?d x n} \<union> (if depth < max_depth then {cur} else {})"
    using ex by auto
  then show "edges_inv dir types us s max_depth st'"
    using ex inv(2) unfolding edges_inv_def by (simp add: Un_commute)
qed

lemma traverse_loop_inv:
  "loop_inv dir types us s max_depth {} k st \<Longrightarrow> edges_inv dir types us s max_depth st \<Longrightarrow>
    \<exists>k. loop_inv dir types us s max_depth {} k (traverse_loop dir types us max_depth st) \<and>
      edges_inv dir types us s max_depth (traverse_loop dir types us max_depth st) \<and>
      queue (traverse_loop dir types us max_depth st) = []"
proof (induction dir types us max_depth st arbitrary: k rule: traverse_loop.induct)
  case (1 dir types us max_depth st)
  show ?case
  proof (cases "queue st")
    case Nil
    with 1 show ?thesis by (subst (1 2 3) traverse_loop.simps) auto
  next
    case (Cons p rest)
    obtain cur depth where p: "p = (cur, depth)" by (cases p)
    with Cons have q: "queue st = (cur, depth) # rest" by simp
    show ?thesis
      unfolding traverse_loop.simps[of dir types us max_depth st] q
      using 1(1)[OF q refl traverse_round[OF 1(2,3) q]] by simp
  qed
qed

text \<open>The result of the search.\<close>

lemma traverse_units_result:
  assumes "unit_map us (ti_start_id input) = Some u0"
  defines "m \<equiv> min 5 (max 1 (ti_max_depth input))" and "s \<equiv> ti_start_id input"
  obtains out where "traverse_units input us = Inr out"
    and "set (to_nodes out) = {traverse_node_of x (of_nat n) u | x n u. x \<noteq> s \<and> unit_map us x = Some u \<and> n \<le> unat m \<and>
      tr.at_distance (ti_direction input) (ti_link_types input) us s x n}"
    and "distinct (map tn_id (to_nodes out))" "sorted (map tn_depth (to_nodes out))"
    and "set (to_edges out) = (\<Union>x \<in> {x. \<exists>n < unat m.
      tr.at_distance (ti_direction input) (ti_link_types input) us s x n}.
        set (node_views (ti_direction input) (ti_link_types input) us x))"
proof -
  let ?dir = "ti_direction input" and ?types = "ti_link_types input"
  let ?st = "\<lparr>visited = {s}, nodes = [], edges = [], queue = [(s, 0)]\<rparr>"
  let ?d = "tr.at_distance ?dir ?types us s"
  have "loop_inv ?dir ?types us s m {} 0 ?st"
    using tr.bfs_start[of ?dir ?types us s "unat m"] by (simp add: loop_inv_def nodes_inv_def nat_queue_def)
  moreover have "edges_inv ?dir ?types us s m ?st" by (simp add: edges_inv_def expanded_nodes_def)
  ultimately obtain k where fin: "loop_inv ?dir ?types us s m {} k (traverse_loop ?dir ?types us m ?st)"
      "edges_inv ?dir ?types us s m (traverse_loop ?dir ?types us m ?st)"
      "queue (traverse_loop ?dir ?types us m ?st) = []"
    using traverse_loop_inv by blast
  define st where "st = traverse_loop ?dir ?types us m ?st"
  have run: "traverse_units input us = Inr \<lparr>to_nodes = nodes st, to_edges = edges st\<rparr>"
    using assms(1) by (simp add: traverse_units_def Let_def st_def m_def s_def)
  have V: "visited st = {x. \<exists>n \<le> unat m. ?d x n}"
    using fin tr.bfs_final[of ?dir ?types us s "unat m" k "visited st"]
    by (simp add: loop_inv_def st_def nat_queue_def)
  have m: "n \<le> unat m \<Longrightarrow> unat (of_nat n :: u8) = n" for n
    using unsigned_less[of m, where 'a = nat] by (simp add: unat_of_nat)
  have "{traverse_node_of x d u | x d u. x \<in> visited st - {s} \<and> unit_map us x = Some u \<and> ?d x (unat d)} =
      {traverse_node_of x (of_nat n) u | x n u. x \<noteq> s \<and> unit_map us x = Some u \<and> n \<le> unat m \<and> ?d x n}"
    (is "?A = ?B")
  proof (rule subset_antisym)
    show "?A \<subseteq> ?B"
    proof
      fix nd assume "nd \<in> ?A"
      then obtain x d u where *: "nd = traverse_node_of x d u" "x \<in> visited st - {s}" "unit_map us x = Some u" "?d x (unat d)"
        by blast
      from *(2) V obtain n where "n \<le> unat m" "?d x n" by blast
      with tr.at_distance_unique[OF *(4)] have "unat d \<le> unat m" by simp
      moreover have "nd = traverse_node_of x (of_nat (unat d)) u" using *(1) by simp
      ultimately show "nd \<in> ?B" using *(2,3,4) by (intro CollectI exI conjI) simp_all
    qed
    show "?B \<subseteq> ?A"
    proof
      fix nd assume "nd \<in> ?B"
      then obtain x n u where *: "nd = traverse_node_of x (of_nat n) u" "x \<noteq> s" "unit_map us x = Some u"
        "n \<le> unat m" "?d x n" by blast
      have "?d x (unat (of_nat n :: u8))" using m[OF *(4)] *(5) by simp
      moreover have "x \<in> visited st - {s}" using V *(2,4,5) by blast
      ultimately show "nd \<in> ?A" using *(1,3) by (intro CollectI exI conjI)
    qed
  qed
  moreover have N: "nodes_inv ?dir ?types us s k st" using fin(1) by (simp add: loop_inv_def st_def)
  then have "set (nodes st) = ?A" unfolding nodes_inv_def by (rule conjunct1)
  ultimately have nodes: "set (nodes st) = ?B" by (rule trans[rotated])
  have sorted: "sorted (map tn_depth (nodes st))"
    using N by (simp add: nodes_inv_def sorted_map word_le_nat_alt)
  have dist: "distinct (map tn_id (nodes st))" using N unfolding nodes_inv_def by (elim conjE)
  have "expanded_nodes st = visited st" using fin(3) by (simp add: expanded_nodes_def st_def)
  then have "{x \<in> expanded_nodes st. \<exists>n < unat m. ?d x n} = {x. \<exists>n < unat m. ?d x n}"
    unfolding V using less_imp_le_nat by blast
  with fin(2) have edges: "set (edges st) = (\<Union>x \<in> {x. \<exists>n < unat m. ?d x n}. set (node_views ?dir ?types us x))"
    unfolding edges_inv_def st_def by simp
  show thesis
    by (rule that[OF run]) (simp_all only: traverse_output.simps nodes sorted dist edges)
qed

section \<open>Traversal of the stored graph\<close>

text \<open>An edge of the store from \<open>a\<close> to \<open>b\<close>; the edges a traversal may take from \<open>a\<close>; the length of a
  shortest path.\<close>

definition stored_edge :: "('d, 'b) redb \<Rightarrow> 'b bincode \<Rightarrow> 'd \<Rightarrow> memory_id \<Rightarrow> memory_id \<Rightarrow> association_link \<Rightarrow> bool" where
  "stored_edge r bc d a b l \<longleftrightarrow>
     (\<exists>u. unit_at r bc d (as_u128 a) = Some u \<and> l \<in> set (links u) \<and> target_id l = b)"

definition takes_edge ::
    "('d, 'b) redb \<Rightarrow> 'b bincode \<Rightarrow> 'd \<Rightarrow> traverse_direction \<Rightarrow> link_type list option
      \<Rightarrow> memory_id \<Rightarrow> memory_id \<Rightarrow> association_link \<Rightarrow> bool" where
  "takes_edge r bc d dir types a b l \<longleftrightarrow>
     unit_at r bc d (as_u128 a) \<noteq> None \<and> type_allowed types (link_type l) \<and>
     (dir \<noteq> TD_Incoming \<and> stored_edge r bc d a b l \<or> dir \<noteq> TD_Outgoing \<and> stored_edge r bc d b a l)"

definition hop_distance :: "('a \<times> 'a) set \<Rightarrow> 'a \<Rightarrow> 'a \<Rightarrow> nat \<Rightarrow> bool" where
  "hop_distance R s x n \<longleftrightarrow> (s, x) \<in> R ^^ n \<and> (\<forall>k < n. (s, x) \<notin> R ^^ k)"

lemma unit_map_load:
  assumes "distinct (map mem_id us)" "\<And>u. u \<in> set us \<longleftrightarrow> unit_at r bc d (as_u128 (mem_id u)) = Some u"
    "store_sync r bc d"
  shows "unit_map us x = unit_at r bc d (as_u128 x)"
proof -
  have "distinct (map fst (rev (map (\<lambda>u. (mem_id u, u)) us)))"
    using assms(1) by (simp add: rev_map[symmetric] comp_def)
  then have iff: "unit_map us x = Some u \<longleftrightarrow> u \<in> set us \<and> mem_id u = x" for u
    unfolding unit_map_def by (auto simp: map_of_eq_Some_iff)
  have "unit_at r bc d (as_u128 x) = Some u \<longleftrightarrow> u \<in> set us \<and> mem_id u = x" for u
  proof
    assume u: "unit_at r bc d (as_u128 x) = Some u"
    with assms(3) have "mem_id u = MemoryId (as_u128 x)" by (rule unit_at_mem_id)
    then have "mem_id u = x" by simp
    with u show "u \<in> set us \<and> mem_id u = x" by (simp add: assms(2))
  qed (use assms(2) in auto)
  with iff show ?thesis by (metis option.exhaust)
qed

lemma candidate_edges_iff:
  assumes um: "\<And>x. unit_map us x = unit_at r bc d (as_u128 x)"
    and mem: "\<And>u. u \<in> set us \<longleftrightarrow> unit_at r bc d (as_u128 (mem_id u)) = Some u"
    and u: "unit_at r bc d (as_u128 a) = Some u"
  shows "(b, l) \<in> set (candidate_edges dir us u a) \<and> type_allowed types (link_type l) \<longleftrightarrow>
    takes_edge r bc d dir types a b l"
proof -
  have "(b, l) \<in> set (out_links u) \<longleftrightarrow> stored_edge r bc d a b l"
    using u by (auto simp: out_links_def stored_edge_def)
  moreover have "(b, l) \<in> set (in_links us a) \<longleftrightarrow> stored_edge r bc d b a l"
  proof -
    have "unit_at r bc d (as_u128 b) = Some v \<longleftrightarrow> v \<in> set us \<and> mem_id v = b" for v
      using mem unit_map_in[of us b v] by (auto simp: um)
    then show ?thesis by (auto simp: in_links_def stored_edge_def)
  qed
  ultimately show ?thesis using u by (cases dir) (auto simp: takes_edge_def)
qed

text \<open>C26: the search of \<open>traverse\<close> ends for every store, and on a store without faults it reports an
  unknown start as not found; otherwise its nodes are the stored memories other than the start that
  lie within the depth (clamped to 1..5), each once, with the length of a shortest path over the
  edges of the requested direction and types, in the order of this length; its edges are those taken
  from the memories nearer than the depth.\<close>

theorem traverse_spec:
  assumes "redb_ok r" "fault_free r" "store_sync r bc d"
  shows "let s = ti_start_id input; m = unat (min 5 (max 1 (ti_max_depth input)));
      takes = takes_edge r bc d (ti_direction input) (ti_link_types input);
      dist = hop_distance {(a, b). \<exists>l. takes a b l} s
    in (unit_at r bc d (as_u128 s) = None \<longrightarrow> traverse r bc input d = Inl (EE_NotFound s)) \<and>
       (unit_at r bc d (as_u128 s) \<noteq> None \<longrightarrow>
         (\<exists>out. traverse r bc input d = Inr out \<and>
           set (to_nodes out) = {traverse_node_of x (of_nat n) u | x n u.
             x \<noteq> s \<and> unit_at r bc d (as_u128 x) = Some u \<and> n \<le> m \<and> dist x n} \<and>
           distinct (map tn_id (to_nodes out)) \<and> sorted (map tn_depth (to_nodes out)) \<and>
           set (to_edges out) = {edge_view_of x b l | x b l. takes x b l \<and> (\<exists>n < m. dist x n)}))"
proof (rule load_all_units_sync[OF assms])
  fix us
  let ?dir = "ti_direction input" and ?types = "ti_link_types input" and ?s = "ti_start_id input"
  let ?m = "min 5 (max 1 (ti_max_depth input))" and ?takes = "takes_edge r bc d (ti_direction input) (ti_link_types input)"
  assume us: "load_all_units r bc d = Inr us" "distinct (map mem_id us)"
    and mem: "\<And>u. u \<in> set us \<longleftrightarrow> unit_at r bc d (as_u128 (mem_id u)) = Some u"
  have um: "unit_map us x = unit_at r bc d (as_u128 x)" for x
    by (rule unit_map_load[OF us(2) mem assms(3)])
  note cand = candidate_edges_iff[OF um mem]
  have "adjacency ?dir ?types us = {(a, b). \<exists>l. ?takes a b l}"
    using cand[of _ _ _ _ ?dir ?types] by (fastforce simp: adjacency_def um takes_edge_def)
  then have dist: "tr.at_distance ?dir ?types us ?s = hop_distance {(a, b). \<exists>l. ?takes a b l} ?s"
    by (simp add: breadth_first.at_distance_def hop_distance_def fun_eq_iff)
  have views: "set (node_views ?dir ?types us x) = {edge_view_of x b l | b l. ?takes x b l}" for x
  proof (cases "unit_at r bc d (as_u128 x)")
    case None
    then show ?thesis by (simp add: node_views_def um takes_edge_def)
  next
    case (Some u)
    then have "set (node_views ?dir ?types us x) = {edge_view_of x b l | b l.
        (b, l) \<in> set (candidate_edges ?dir us u x) \<and> type_allowed ?types (link_type l)}"
      by (force simp: node_views_def um edge_views_def)
    then show ?thesis by (simp add: cand[OF Some])
  qed
  show ?thesis
  proof (cases "unit_at r bc d (as_u128 ?s)")
    case None
    then show ?thesis by (simp add: traverse_def us traverse_units_def um Let_def)
  next
    case (Some u0)
    then obtain out where out: "traverse_units input us = Inr out"
      "set (to_nodes out) = {traverse_node_of x (of_nat n) u | x n u. x \<noteq> ?s \<and> unit_at r bc d (as_u128 x) = Some u \<and>
        n \<le> unat ?m \<and> hop_distance {(a, b). \<exists>l. ?takes a b l} ?s x n}"
      "distinct (map tn_id (to_nodes out))" "sorted (map tn_depth (to_nodes out))"
      "set (to_edges out) = (\<Union>x \<in> {x. \<exists>n < unat ?m. hop_distance {(a, b). \<exists>l. ?takes a b l} ?s x n}.
         {edge_view_of x b l | b l. ?takes x b l})"
      by (rule traverse_units_result[of us input u0, unfolded dist um views]) (rule that)
    have "traverse r bc input d = Inr out" by (simp add: traverse_def us out(1))
    moreover have "set (to_edges out) = {edge_view_of x b l | x b l. ?takes x b l \<and>
        (\<exists>n < unat ?m. hop_distance {(a, b). \<exists>l. ?takes a b l} ?s x n)}"
      unfolding out(5) by blast
    ultimately show ?thesis using Some out(2-4) by (auto simp only: Let_def)
  qed
qed

theorem traverse_spec_witness:
  "\<exists>out. traverse cells_redb cells_bincode (traverse_input_new (MemoryId 2)) demo_pair = Inr out \<and>
     MemoryId 1 \<in> tn_id ` set (to_nodes out)"
proof -
  let ?takes = "takes_edge cells_redb cells_bincode demo_pair TD_Outgoing None"
  let ?R = "{(a, b). \<exists>l. ?takes a b l}"
  have u2: "unit_at cells_redb cells_bincode demo_pair 2 = Some (demo_unit 2 ''m'' [demo_link 1 LT_Causal (1/2)])"
    and u1: "unit_at cells_redb cells_bincode demo_pair 1 = Some (demo_unit 1 ''m'' [])"
    by (simp_all add: unit_at_def demo_pair_def cells_redb_def cells_bincode_def)
  have "(MemoryId 2, MemoryId 1) \<in> ?R"
    by (auto simp: takes_edge_def stored_edge_def u2 type_allowed_def demo_unit_simps demo_link_def)
  then have "hop_distance ?R (MemoryId 2) (MemoryId 1) 1" by (simp add: hop_distance_def)
  moreover have "store_sync cells_redb cells_bincode demo_pair"
    unfolding demo_pair_def by (rule demo_store_sync)
  note traverse_spec[OF cells_redb_ok cells_fault_free this, of "traverse_input_new (MemoryId 2)"]
  ultimately obtain out where out: "traverse cells_redb cells_bincode (traverse_input_new (MemoryId 2)) demo_pair = Inr out"
    "set (to_nodes out) = {traverse_node_of x (of_nat n) u | x n u. x \<noteq> MemoryId 2 \<and>
       unit_at cells_redb cells_bincode demo_pair (as_u128 x) = Some u \<and> n \<le> 2 \<and> hop_distance ?R (MemoryId 2) x n}"
    by (auto simp: traverse_input_new_def Let_def u2)
  have "traverse_node_of (MemoryId 1) (of_nat 1) (demo_unit 1 ''m'' []) \<in> set (to_nodes out)"
    unfolding out(2) using u1 \<open>hop_distance ?R (MemoryId 2) (MemoryId 1) 1\<close>
    by (intro CollectI exI conjI) simp_all
  then have "MemoryId 1 \<in> tn_id ` set (to_nodes out)" by (force intro: image_eqI)
  with out(1) show ?thesis by blast
qed

end
