(* ===== verification/Engine_Views.thy ===== *)
theory Engine_Views
  imports Engine_Traverse
begin

text \<open>
  The remaining read operations of \<open>hippmem-engine\<close>: the explanation of a memory
  (\<open>explain_api.rs\<close>), diagnostics (\<open>inspect_api.rs\<close>) and the export (\<open>dump_api.rs\<close>).
\<close>

section \<open>Explanation (explain_api.rs)\<close>

record link_summary =
  lsm_target :: memory_id
  lsm_link_type :: link_type
  lsm_strength :: f32

record explanation =
  ex_memory_id :: memory_id
  ex_content_summary :: string
  ex_current_importance :: f32
  ex_linked :: "link_summary list"
  ex_corrections :: "memory_id list"
  ex_contradictions :: "memory_id list"
  ex_recent_activations :: u32

definition link_summary_of :: "association_link \<Rightarrow> link_summary" where
  "link_summary_of l =
     \<lparr>lsm_target = target_id l, lsm_link_type = link_type l, lsm_strength = link_strength l\<rparr>"

definition explain_unit :: "memory_unit \<Rightarrow> explanation" where
  "explain_unit u =
     \<lparr>ex_memory_id = mem_id u,
      ex_content_summary = of_chars (take 120 (chars (mc_raw (content u)))),
      ex_current_importance = score_value (mu_importance (understanding u)),
      ex_linked = map link_summary_of (links u),
      ex_corrections = map target_id (filter (\<lambda>l. link_type l = LT_Correction) (links u)),
      ex_contradictions = map target_id (filter (\<lambda>l. link_type l = LT_Contradiction) (links u)),
      ex_recent_activations = retrieval_count (activation u)\<rparr>"

definition find_unit :: "memory_id \<Rightarrow> memory_unit list \<Rightarrow> engine_error + memory_unit" where
  "find_unit i us =
     (case find_first (\<lambda>u. mem_id u = i) us of Some u \<Rightarrow> Inr u | None \<Rightarrow> Inl (EE_NotFound i))"

definition explain :: "('d, 'b) redb \<Rightarrow> 'b bincode \<Rightarrow> memory_id \<Rightarrow> 'd \<Rightarrow> engine_error + explanation" where
  "explain r bc i d =
     (case load_all_units r bc d of
        Inl e \<Rightarrow> Inl e
      | Inr us \<Rightarrow> (case find_unit i us of Inl e \<Rightarrow> Inl e | Inr u \<Rightarrow> Inr (explain_unit u)))"

section \<open>Diagnostics (inspect_api.rs)\<close>

datatype inspect_query =
    IQ_Memory memory_id | IQ_Edges memory_id | IQ_Channel recall_channel | IQ_StoreStats
  | IQ_QueueStatus | IQ_StrongestEdges nat | IQ_Contradictions nat

record memory_inspect =
  mi_unit :: memory_unit
  mi_out_edges :: "edge_view list"
  mi_in_edges :: "edge_view list"
  mi_stage :: memory_stage
  mi_lifecycle :: memory_lifecycle

record engine_stats =
  es_memory_count :: u64
  es_edge_count :: u64
  es_observing_edge_count :: u64
  es_per_index_size :: "(recall_channel \<times> u64) list"
  es_queue_backlog :: u64
  es_store_bytes :: u64

record queue_status =
  qs_pending_enrich :: u64
  qs_pending_consolidate :: u64
  qs_in_flight :: u64
  qs_oldest_pending_age_ms :: u64

datatype inspect_report =
  IR_Memory memory_inspect | IR_StoreStats engine_stats | IR_QueueStatus queue_status

definition inspect_stats :: "memory_unit list \<Rightarrow> engine_stats" where
  "inspect_stats us =
     \<lparr>es_memory_count = of_nat (length us),
      es_edge_count = fold (\<lambda>u n. n + of_nat (length (links u))) us 0,
      es_observing_edge_count = 0,
      es_per_index_size = [(RC_Bm25, 0), (RC_EntityInverted, 0)],
      es_queue_backlog = 0, es_store_bytes = 0\<rparr>"

definition inspect_memory :: "memory_unit list \<Rightarrow> memory_unit \<Rightarrow> memory_inspect" where
  "inspect_memory us u =
     \<lparr>mi_unit = u,
      mi_out_edges = map (\<lambda>l. edge_view_of (mem_id u) (target_id l) l) (links u),
      mi_in_edges = concat (map (\<lambda>v. map (\<lambda>l. edge_view_of (mem_id v) (target_id l) l)
          (filter (\<lambda>l. target_id l = mem_id u) (links v))) us),
      mi_stage = stage u, mi_lifecycle = lifecycle u\<rparr>"

fun inspect :: "('d, 'b) redb \<Rightarrow> 'b bincode \<Rightarrow> inspect_query \<Rightarrow> 'd \<Rightarrow> engine_error + inspect_report" where
  "inspect r bc IQ_StoreStats d =
     (case load_all_units r bc d of Inl e \<Rightarrow> Inl e | Inr us \<Rightarrow> Inr (IR_StoreStats (inspect_stats us)))"
| "inspect r bc IQ_QueueStatus d =
     Inr (IR_QueueStatus \<lparr>qs_pending_enrich = 0, qs_pending_consolidate = 0, qs_in_flight = 0,
       qs_oldest_pending_age_ms = 0\<rparr>)"
| "inspect r bc (IQ_Memory i) d =
     (case load_all_units r bc d of
        Inl e \<Rightarrow> Inl e
      | Inr us \<Rightarrow>
          (case find_unit i us of Inl e \<Rightarrow> Inl e | Inr u \<Rightarrow> Inr (IR_Memory (inspect_memory us u))))"
| "inspect r bc _ d =
     Inr (IR_StoreStats \<lparr>es_memory_count = 0, es_edge_count = 0, es_observing_edge_count = 0,
       es_per_index_size = [], es_queue_backlog = 0, es_store_bytes = 0\<rparr>)"

section \<open>Export (dump_api.rs)\<close>

text \<open>\<open>serde_json::to_string\<close> and the file system are parameters.\<close>

record 'f file_system =
  fs_create :: "string \<Rightarrow> 'f \<Rightarrow> string + 'f"
  fs_write_all :: "string \<Rightarrow> string \<Rightarrow> 'f \<Rightarrow> string + 'f"

record dump_output =
  do_count :: u64
  do_written_to :: "string option"
  do_json :: "string option"

fun json_lines :: "(memory_unit \<Rightarrow> string + string) \<Rightarrow> memory_unit list \<Rightarrow> engine_error + string" where
  "json_lines to_json [] = Inr ''''"
| "json_lines to_json (u # us) =
     (case to_json u of
        Inl e \<Rightarrow> Inl (EE_Internal (''failed to serialize MemoryUnit: '' @ e))
      | Inr line \<Rightarrow>
          (case json_lines to_json us of Inl e \<Rightarrow> Inl e | Inr rest \<Rightarrow> Inr (line @ [CHR 0x0A] @ rest)))"

definition dump ::
    "('d, 'b) redb \<Rightarrow> 'b bincode \<Rightarrow> (memory_unit \<Rightarrow> string + string) \<Rightarrow> 'f file_system \<Rightarrow> string option
      \<Rightarrow> 'd \<Rightarrow> 'f \<Rightarrow> 'f \<times> (engine_error + dump_output)" where
  "dump r bc to_json fs output_path d files =
     (case load_all_units r bc d of
        Inl e \<Rightarrow> (files, Inl e)
      | Inr us \<Rightarrow>
          (case json_lines to_json us of
             Inl e \<Rightarrow> (files, Inl e)
           | Inr buf \<Rightarrow>
               (case output_path of
                  None \<Rightarrow> (files, Inr \<lparr>do_count = of_nat (length us), do_written_to = None, do_json = Some buf\<rparr>)
                | Some path \<Rightarrow>
                    (case fs_create fs path files of
                       Inl e \<Rightarrow> (files, Inl (EE_Store (''cannot create export file '' @ path @ '': '' @ e)))
                     | Inr files \<Rightarrow>
                         (case fs_write_all fs path buf files of
                            Inl e \<Rightarrow> (files, Inl (EE_Store (''failed to write export file: '' @ e)))
                          | Inr files \<Rightarrow>
                              (files, Inr \<lparr>do_count = of_nat (length us), do_written_to = Some path,
                                do_json = None\<rparr>))))))"

section \<open>Reading the export back\<close>

text \<open>\<open>str::lines\<close> on a text whose lines all end with a newline.\<close>

fun text_lines :: "string \<Rightarrow> string \<Rightarrow> string list" where
  "text_lines acc [] = (if acc = [] then [] else [acc])"
| "text_lines acc (c # cs) = (if c = CHR 0x0A then acc # text_lines [] cs else text_lines (acc @ [c]) cs)"

lemma text_lines_line: "CHR 0x0A \<notin> set xs \<Longrightarrow> text_lines acc (xs @ [CHR 0x0A] @ rest) = (acc @ xs) # text_lines [] rest"
  by (induction xs arbitrary: acc) auto

lemma json_lines_lines:
  assumes "\<forall>u \<in> set us. \<exists>line. to_json u = Inr line \<and> CHR 0x0A \<notin> set line \<and> from_json line = Some u"
  shows "\<exists>buf. json_lines to_json us = Inr buf \<and> map from_json (text_lines [] buf) = map Some us"
  using assms
proof (induction us)
  case (Cons u us)
  from Cons.prems obtain line where l: "to_json u = Inr line" "CHR 0x0A \<notin> set line" "from_json line = Some u"
    by auto
  from Cons obtain rest where r: "json_lines to_json us = Inr rest" "map from_json (text_lines [] rest) = map Some us"
    by auto
  show ?case
    using l r text_lines_line[OF l(2), of "[]" rest] by (intro exI[of _ "line @ [CHR 0x0A] @ rest"]) simp
qed simp

section \<open>Correctness\<close>

lemma find_unit_load:
  assumes "store_sync r bc d" "\<And>u. u \<in> set us \<longleftrightarrow> unit_at r bc d (as_u128 (mem_id u)) = Some u"
  shows "find_unit i us = (case unit_at r bc d (as_u128 i) of Some u \<Rightarrow> Inr u | None \<Rightarrow> Inl (EE_NotFound i))"
proof (cases "unit_at r bc d (as_u128 i)")
  case None
  then have "find_first (\<lambda>u. mem_id u = i) us = None" using assms(2) by auto
  with None show ?thesis by (simp only: find_unit_def option.case)
next
  case (Some u)
  from unit_at_mem_id[OF assms(1) Some] have id: "mem_id u = i" by simp
  with Some have "u \<in> set us" by (simp add: assms(2))
  with id obtain v where v: "find_first (\<lambda>u. mem_id u = i) us = Some v"
    by (cases "find_first (\<lambda>u. mem_id u = i) us") auto
  from find_first_Some[OF v] have "unit_at r bc d (as_u128 i) = Some v" by (auto simp: assms(2))
  with v show ?thesis by (simp add: find_unit_def)
qed

text \<open>C29: on a store without faults, \<open>inspect\<close> of a memory reports an unknown memory as not found and
  otherwise the stored unit with its own edges, in order, and with exactly the stored edges of all
  memories that point to it; \<open>explain\<close> reports the same unit, its edges, and the targets of its
  correction and contradiction edges.\<close>

theorem inspect_explain_spec:
  assumes "redb_ok r" "fault_free r" "store_sync r bc d"
  shows "case unit_at r bc d (as_u128 i) of
      None \<Rightarrow> inspect r bc (IQ_Memory i) d = Inl (EE_NotFound i) \<and> explain r bc i d = Inl (EE_NotFound i)
    | Some u \<Rightarrow>
        (\<exists>m. inspect r bc (IQ_Memory i) d = Inr (IR_Memory m) \<and> mi_unit m = u \<and>
          mi_out_edges m = map (\<lambda>l. edge_view_of i (target_id l) l) (links u) \<and>
          set (mi_in_edges m) = {edge_view_of a i l | a l. stored_edge r bc d a i l} \<and>
          mi_stage m = stage u \<and> mi_lifecycle m = lifecycle u) \<and>
        (\<exists>x. explain r bc i d = Inr x \<and> ex_memory_id x = i \<and>
          ex_linked x = map link_summary_of (links u) \<and>
          set (ex_corrections x) = {b. \<exists>l. stored_edge r bc d i b l \<and> link_type l = LT_Correction} \<and>
          set (ex_contradictions x) = {b. \<exists>l. stored_edge r bc d i b l \<and> link_type l = LT_Contradiction})"
proof (rule load_all_units_sync[OF assms])
  fix us
  assume us: "load_all_units r bc d = Inr us"
    and mem: "\<And>u. u \<in> set us \<longleftrightarrow> unit_at r bc d (as_u128 (mem_id u)) = Some u"
  note find = find_unit_load[OF assms(3) mem, of i]
  show ?thesis
  proof (cases "unit_at r bc d (as_u128 i)")
    case None
    then show ?thesis using us find by (simp add: explain_def)
  next
    case (Some u)
    from unit_at_mem_id[OF assms(3) Some] have id: "mem_id u = i" by simp
    have stored: "unit_at r bc d (as_u128 a) = Some v \<longleftrightarrow> v \<in> set us \<and> mem_id v = a" for a v
      using mem unit_at_mem_id[OF assms(3), of "as_u128 a" v] by auto
    have "set (mi_in_edges (inspect_memory us u)) = {edge_view_of a i l | a l. stored_edge r bc d a i l}"
      unfolding stored_edge_def stored by (force simp: inspect_memory_def id)
    then show ?thesis
      using us find Some id
      by (auto simp: explain_def inspect_memory_def explain_unit_def stored_edge_def)
  qed
qed

theorem inspect_explain_spec_witness:
  "\<exists>m. inspect cells_redb cells_bincode (IQ_Memory (MemoryId 2)) demo_pair = Inr (IR_Memory m) \<and>
     map vw_to (mi_out_edges m) = [MemoryId 1]"
proof -
  have u2: "unit_at cells_redb cells_bincode demo_pair 2 = Some (demo_unit 2 ''m'' [demo_link 1 LT_Causal (1/2)])"
    by (simp add: unit_at_def demo_pair_def cells_redb_def cells_bincode_def)
  have "store_sync cells_redb cells_bincode demo_pair"
    unfolding demo_pair_def by (rule demo_store_sync)
  from inspect_explain_spec[OF cells_redb_ok cells_fault_free this, of "MemoryId 2"] u2
  show ?thesis by (auto simp: demo_unit_simps demo_link_def edge_view_of_def)
qed

text \<open>C28: an export without an output file returns one line per stored memory: when the JSON encoder
  is total, puts no raw newline into a document and is inverted by the decoder, reading the lines
  back gives exactly the stored units, each once; the file system is not touched.\<close>

theorem dump_roundtrip:
  assumes "redb_ok r" "fault_free r" "store_sync r bc d"
    and json: "\<forall>u \<in> {u. \<exists>j. unit_at r bc d j = Some u}.
      \<exists>line. to_json u = Inr line \<and> CHR 0x0A \<notin> set line \<and> from_json line = Some u"
  shows "\<exists>us buf. dump r bc to_json fs None d files =
      (files, Inr \<lparr>do_count = of_nat (length us), do_written_to = None, do_json = Some buf\<rparr>) \<and>
    map from_json (text_lines [] buf) = map Some us \<and> distinct us \<and>
    set us = {u. \<exists>j. unit_at r bc d j = Some u}"
proof (rule load_all_units_sync[OF assms(1-3)])
  fix us
  assume us: "load_all_units r bc d = Inr us" "distinct (map mem_id us)"
    and mem: "\<And>u. u \<in> set us \<longleftrightarrow> unit_at r bc d (as_u128 (mem_id u)) = Some u"
  have set: "set us = {u. \<exists>j. unit_at r bc d j = Some u}"
    using mem unit_at_mem_id[OF assms(3)] by fastforce
  with json obtain buf where "json_lines to_json us = Inr buf" "map from_json (text_lines [] buf) = map Some us"
    using json_lines_lines by metis
  moreover have "distinct us" using us(2) by (simp add: distinct_map)
  ultimately show ?thesis using us(1) set by (auto simp: dump_def)
qed

text \<open>An encoder for the two units of the concrete store.\<close>

definition demo_json :: "memory_unit \<Rightarrow> string + string" where
  "demo_json u = Inr (if links u = [] then ''a'' else ''b'')"

definition demo_unjson :: "string \<Rightarrow> memory_unit option" where
  "demo_unjson s =
     (if s = ''a'' then Some (demo_unit 1 ''m'' []) else Some (demo_unit 2 ''m'' [demo_link 1 LT_Causal (1/2)]))"

definition null_files :: "unit file_system" where
  "null_files = \<lparr>fs_create = (\<lambda>_ _. Inr ()), fs_write_all = (\<lambda>_ _ _. Inr ())\<rparr>"

lemma demo_pair_units:
  "{u. \<exists>j. unit_at cells_redb cells_bincode demo_pair j = Some u} =
     {demo_unit 1 ''m'' [], demo_unit 2 ''m'' [demo_link 1 LT_Causal (1/2)]}"
proof -
  have "unit_at cells_redb cells_bincode demo_pair j =
      (if j = 1 then Some (demo_unit 1 ''m'' [])
       else if j = 2 then Some (demo_unit 2 ''m'' [demo_link 1 LT_Causal (1/2)]) else None)" for j
    by (simp add: unit_at_def demo_pair_def cells_redb_def cells_bincode_def)
  note u = this
  from u[of 1] u[of 2] have "unit_at cells_redb cells_bincode demo_pair 1 = Some (demo_unit 1 ''m'' [])"
    "unit_at cells_redb cells_bincode demo_pair 2 = Some (demo_unit 2 ''m'' [demo_link 1 LT_Causal (1/2)])"
    by simp_all
  then have "{demo_unit 1 ''m'' [], demo_unit 2 ''m'' [demo_link 1 LT_Causal (1/2)]} \<subseteq>
      {u. \<exists>j. unit_at cells_redb cells_bincode demo_pair j = Some u}" by blast
  moreover have "{u. \<exists>j. unit_at cells_redb cells_bincode demo_pair j = Some u} \<subseteq>
      {demo_unit 1 ''m'' [], demo_unit 2 ''m'' [demo_link 1 LT_Causal (1/2)]}"
    using u by (auto split: if_splits)
  ultimately show ?thesis by (rule subset_antisym[rotated])
qed

theorem dump_roundtrip_witness:
  "\<exists>us buf. dump cells_redb cells_bincode demo_json null_files None demo_pair () =
      ((), Inr \<lparr>do_count = of_nat (length us), do_written_to = None, do_json = Some buf\<rparr>) \<and>
    map demo_unjson (text_lines [] buf) = map Some us \<and> distinct us"
proof -
  have sync: "store_sync cells_redb cells_bincode demo_pair"
    unfolding demo_pair_def by (rule demo_store_sync)
  have "\<forall>u \<in> {u. \<exists>j. unit_at cells_redb cells_bincode demo_pair j = Some u}.
      \<exists>line. demo_json u = Inr line \<and> CHR 0x0A \<notin> set line \<and> demo_unjson line = Some u"
    unfolding demo_pair_units by (simp add: demo_json_def demo_unjson_def demo_unit_simps)
  from dump_roundtrip[OF cells_redb_ok cells_fault_free sync this, of null_files "()"]
  show ?thesis by blast
qed

end
