(* ===== verification/Model_Lang.thy ===== *)
theory Model_Lang
  imports Core_Text
begin

text \<open>
  The language rules of \<open>hippmem-model\<close> (\<open>lang/mod.rs\<close>, \<open>lang/zh.rs\<close>, \<open>lang/en.rs\<close>) and searching in
  strings. Chinese words are written as the code points of their characters.
\<close>

section \<open>Searching in strings\<close>

text \<open>\<open>str::find\<close> gives the byte position of the first occurrence, \<open>str::contains\<close> whether there is one.\<close>

fun starts_with :: "string \<Rightarrow> string \<Rightarrow> bool" where
  "starts_with text [] = True"
| "starts_with [] (p # ps) = False"
| "starts_with (c # cs) (p # ps) \<longleftrightarrow> c = p \<and> starts_with cs ps"

fun str_find :: "string \<Rightarrow> string \<Rightarrow> nat option" where
  "str_find [] pat = (if pat = [] then Some 0 else None)"
| "str_find (c # cs) pat =
     (if starts_with (c # cs) pat then Some 0 else map_option Suc (str_find cs pat))"

definition str_contains :: "string \<Rightarrow> string \<Rightarrow> bool" where
  "str_contains text pat \<longleftrightarrow> str_find text pat \<noteq> None"

lemma starts_with_iff: "starts_with text pat \<longleftrightarrow> (\<exists>rest. text = pat @ rest)"
  by (induction "text" pat rule: starts_with.induct) auto

lemma str_find_Some:
  "str_find text pat = Some i \<Longrightarrow>
    i + length pat \<le> length text \<and> take (length pat) (drop i text) = pat \<and>
    (\<forall>j < i. take (length pat) (drop j text) \<noteq> pat)"
proof (induction "text" arbitrary: i)
  case (Cons c cs)
  show ?case
  proof (cases "starts_with (c # cs) pat")
    case True
    then have "i = 0" using Cons.prems by simp
    moreover obtain rest where r: "c # cs = pat @ rest" using True starts_with_iff by blast
    have "length pat \<le> length (c # cs)" "take (length pat) (c # cs) = pat" unfolding r by simp_all
    ultimately show ?thesis by simp
  next
    case False
    then obtain k where k: "i = Suc k" "str_find cs pat = Some k" using Cons.prems by auto
    have "take (length pat) (c # cs) \<noteq> pat"
    proof
      assume "take (length pat) (c # cs) = pat"
      then have "c # cs = pat @ drop (length pat) (c # cs)" by (metis append_take_drop_id)
      with False show False using starts_with_iff by blast
    qed
    then have "take (length pat) (drop j (c # cs)) \<noteq> pat" if "j < i" for j
      using Cons.IH[OF k(2)] that k(1) by (cases j) simp_all
    with Cons.IH[OF k(2)] k(1) show ?thesis by simp
  qed
qed (auto split: if_splits)

lemma str_contains_iff: "str_contains text pat \<longleftrightarrow> (\<exists>a b. text = a @ pat @ b)"
proof
  assume "str_contains text pat"
  then obtain i where "str_find text pat = Some i" by (auto simp: str_contains_def)
  from str_find_Some[OF this] have "text = take i text @ pat @ drop (length pat) (drop i text)"
    by (metis append_take_drop_id)
  then show "\<exists>a b. text = a @ pat @ b" by blast
next
  assume "\<exists>a b. text = a @ pat @ b"
  then obtain a b where "text = a @ pat @ b" by blast
  then show "str_contains text pat"
  proof (induction a arbitrary: "text")
    case Nil
    then have "starts_with text pat" using starts_with_iff by auto
    then show ?case by (cases "text"; cases pat) (auto simp: str_contains_def)
  next
    case (Cons c a)
    then show ?case by (fastforce simp: str_contains_def)
  qed
qed

section \<open>Rules of a language (lang/mod.rs)\<close>

datatype time_term_kind =
    TT_Today | TT_Yesterday | TT_DayBeforeYesterday | TT_ThisWeek | TT_LastWeek | TT_ThisMonth
  | TT_LastMonth | TT_ThisYear

record lang_data =
  ld_locale :: string
  ld_q_correction :: "string list"
  ld_q_preference :: "string list"
  ld_q_why :: "string list"
  ld_q_how :: "string list"
  ld_q_what :: "string list"
  ld_explanatory :: "(string \<times> f32) list"
  ld_goal_markers :: "string list"
  ld_event_markers :: "string list"
  ld_decision_markers :: "string list"
  ld_preference_pos :: "string list"
  ld_preference_neg :: "string list"
  ld_causal_pairs :: "(string \<times> string) list"
  ld_emotion_keywords :: "(string \<times> emotion_kind) list"
  ld_stop_words :: "string list"
  ld_what_delimiters :: "string list"
  ld_definition_patterns :: "string list"
  ld_possessive_particle :: "nat option"
  ld_change_pair :: "(string \<times> string) option"
  ld_time_terms :: "(string \<times> time_term_kind) list"

section \<open>Chinese (lang/zh.rs)\<close>

definition lang_zh :: lang_data where
  "lang_zh =
     \<lparr>ld_locale = ''zh'',
      ld_q_correction = [of_chars [0x4FEE, 0x6B63], of_chars [0x7EA0, 0x6B63], of_chars [0x6539, 0x8FC7],
       of_chars [0x53CD, 0x6094], of_chars [0x53D8, 0x5316], of_chars [0x6539, 0x53D8],
       of_chars [0x8C03, 0x6574], of_chars [0x4E4B, 0x524D, 0x8BF4]],
      ld_q_preference = [of_chars [0x504F, 0x597D], of_chars [0x559C, 0x6B22], of_chars [0x4E60, 0x60EF],
       of_chars [0x503E, 0x5411], of_chars [0x770B, 0x91CD], of_chars [0x91CD, 0x89C6],
       of_chars [0x6700, 0x559C, 0x6B22]],
      ld_q_why = [of_chars [0x4E3A, 0x4EC0, 0x4E48], of_chars [0x4E3A, 0x4F55],
       of_chars [0x4E3A, 0x5565]],
      ld_q_how = [of_chars [0x600E, 0x4E48], of_chars [0x5982, 0x4F55], of_chars [0x600E, 0x6837]],
      ld_q_what = [of_chars [0x4EC0, 0x4E48], of_chars [0x54EA, 0x4E9B]],
      ld_explanatory = [(of_chars [0x56E0, 0x4E3A], f32_of_rat (12/100)),
       (of_chars [0x51B3, 0x5B9A], f32_of_rat (10/100)),
       (of_chars [0x539F, 0x56E0], f32_of_rat (15/100)),
       (of_chars [0x7531, 0x4E8E], f32_of_rat (15/100)),
       (of_chars [0x6240, 0x4EE5], f32_of_rat (10/100)),
       (of_chars [0x56E0, 0x6B64], f32_of_rat (10/100)),
       (of_chars [0x5BFC, 0x81F4], f32_of_rat (12/100))],
      ld_goal_markers = [of_chars [0x76EE, 0x6807], of_chars [0x6253, 0x7B97], of_chars [0x8BA1, 0x5212],
       of_chars [0x60F3, 0x8981]],
      ld_event_markers = [of_chars [0x5B8C, 0x6210], of_chars [0x90E8, 0x7F72], of_chars [0x4E0A, 0x7EBF],
       of_chars [0x53D1, 0x5E03], of_chars [0x5F00, 0x4F1A], of_chars [0x8BA8, 0x8BBA]],
      ld_decision_markers = [of_chars [0x51B3, 0x5B9A], of_chars [0x9009, 0x7528], of_chars [0x91C7, 0x7528],
       of_chars [0x5F03, 0x7528]],
      ld_preference_pos = [of_chars [0x559C, 0x6B22], of_chars [0x503E, 0x5411]],
      ld_preference_neg = [of_chars [0x8BA8, 0x538C], of_chars [0x907F, 0x514D]],
      ld_causal_pairs = [(of_chars [0x56E0, 0x4E3A], of_chars [0x6240, 0x4EE5]),
       (of_chars [0x7531, 0x4E8E], of_chars [0x5BFC, 0x81F4]),
       (of_chars [0x56E0, 0x4E3A], of_chars [0x56E0, 0x6B64])],
      ld_emotion_keywords = [(of_chars [0x5F00, 0x5FC3], EK_Joy),
       (of_chars [0x5174, 0x594B], EK_Joy),
       (of_chars [0x6EE1, 0x610F], EK_Joy),
       (of_chars [0x6CAE, 0x4E27], EK_Frustration),
       (of_chars [0x5931, 0x671B], EK_Frustration),
       (of_chars [0x7126, 0x8651], EK_Anxiety),
       (of_chars [0x751F, 0x6C14], EK_Anger),
       (of_chars [0x5BB3, 0x6015], EK_Fear)],
      ld_stop_words = [of_chars [0x4EC0, 0x4E48], of_chars [0x600E, 0x4E48], of_chars [0x5982, 0x4F55],
       of_chars [0x4E3A, 0x4EC0, 0x4E48], of_chars [0x54EA, 0x4E9B],
       of_chars [0x54EA, 0x4E2A], of_chars [0x7684], of_chars [0x4E86],
       of_chars [0x662F], of_chars [0x6709], of_chars [0x5728], of_chars [0x548C],
       of_chars [0x4E0E], of_chars [0x6216], of_chars [0x5BF9], of_chars [0x628A],
       of_chars [0x88AB], of_chars [0x8BA9], of_chars [0x4ECE], of_chars [0x5230],
       of_chars [0x4E2D], of_chars [0x4E0A], of_chars [0x4E0B], of_chars [0x8FD9],
       of_chars [0x90A3], of_chars [0x5417], of_chars [0x5462], of_chars [0x554A],
       of_chars [0x5427], of_chars [0x95EE, 0x9898], of_chars [0x8BF4, 0x6CD5],
       of_chars [0x5173, 0x4E8E], of_chars [0x4E00, 0x4E2A], of_chars [0x4E00, 0x4E9B],
       of_chars [0x53EF, 0x4EE5], of_chars [0x6CA1, 0x6709], of_chars [0x4E0D, 0x662F],
       of_chars [0x4ED6, 0x4EEC], of_chars [0x6211, 0x4EEC]],
      ld_what_delimiters = [of_chars [0x662F, 0x4EC0, 0x4E48], of_chars [0x662F, 0x6307, 0x4EC0, 0x4E48],
       of_chars [0x6307, 0x7684, 0x662F, 0x4EC0, 0x4E48]],
      ld_definition_patterns = [of_chars [0x662F], of_chars [0x4F7F, 0x7528], of_chars [0x57FA, 0x4E8E],
       of_chars [0x91C7, 0x7528]],
      ld_possessive_particle = Some 0x7684,
      ld_change_pair = Some (of_chars [0x4E4B, 0x524D], of_chars [0x540E, 0x6765]),
      ld_time_terms = [(of_chars [0x4ECA, 0x5929], TT_Today),
       (of_chars [0x6628, 0x5929], TT_Yesterday),
       (of_chars [0x524D, 0x5929], TT_DayBeforeYesterday),
       (of_chars [0x672C, 0x5468], TT_ThisWeek),
       (of_chars [0x8FD9, 0x5468], TT_ThisWeek),
       (of_chars [0x4E0A, 0x5468], TT_LastWeek),
       (of_chars [0x672C, 0x6708], TT_ThisMonth),
       (of_chars [0x8FD9, 0x4E2A, 0x6708], TT_ThisMonth),
       (of_chars [0x4E0A, 0x4E2A, 0x6708], TT_LastMonth),
       (of_chars [0x4E0A, 0x6708], TT_LastMonth),
       (of_chars [0x4ECA, 0x5E74], TT_ThisYear)]\<rparr>"

section \<open>English (lang/en.rs)\<close>

definition lang_en :: lang_data where
  "lang_en =
     \<lparr>ld_locale = ''en'',
      ld_q_correction = [''corrected'', ''changed my mind'', ''no longer'', ''reconsidered'', ''updated'',
       ''replaced'', ''instead'', ''switched to'', ''used to''],
      ld_q_preference = [''prefer'', ''favorite'', ''like better'', ''rather'', ''enjoy''],
      ld_q_why = [''why'', ''what for'', ''how come''],
      ld_q_how = [''how'', ''in what way''],
      ld_q_what = [''what'', ''which''],
      ld_explanatory = [(''because'', f32_of_rat (12/100)),
       (''decided to'', f32_of_rat (10/100)),
       (''chose'', f32_of_rat (10/100)),
       (''reason'', f32_of_rat (15/100)),
       (''due to'', f32_of_rat (15/100)),
       (''therefore'', f32_of_rat (10/100)),
       (''as a result'', f32_of_rat (10/100)),
       (''led to'', f32_of_rat (12/100)),
       (''caused by'', f32_of_rat (12/100)),
       (''root cause'', f32_of_rat (15/100)),
       (''in order to'', f32_of_rat (10/100))],
      ld_goal_markers = [''goal'', ''plan to'', ''aim to'', ''intend to''],
      ld_event_markers = [''deploy'', ''release'', ''launch'', ''meet'', ''discuss''],
      ld_decision_markers = [''decide'', ''choose'', ''select'', ''drop'', ''adopt''],
      ld_preference_pos = [''prefer'', ''like'', ''enjoy'', ''favor''],
      ld_preference_neg = [''avoid'', ''dislike'', ''hate''],
      ld_causal_pairs = [(''because'', ''so''),
       (''since'', ''therefore''),
       (''due to'', ''thus'')],
      ld_emotion_keywords = [(''happy'', EK_Joy),
       (''excited'', EK_Joy),
       (''satisfied'', EK_Joy),
       (''frustrated'', EK_Frustration),
       (''disappointed'', EK_Frustration),
       (''anxious'', EK_Anxiety),
       (''angry'', EK_Anger),
       (''afraid'', EK_Fear)],
      ld_stop_words = [''the'', ''a'', ''an'', ''is'', ''are'', ''was'', ''were'', ''be'', ''been'',
       ''being'', ''have'', ''has'', ''had'', ''do'', ''does'', ''did'', ''will'',
       ''would'', ''shall'', ''should'', ''may'', ''might'', ''must'', ''can'',
       ''could'', ''i'', ''me'', ''my'', ''mine'', ''we'', ''us'', ''our'', ''ours'',
       ''you'', ''your'', ''yours'', ''he'', ''she'', ''it'', ''they'', ''them'',
       ''this'', ''that'', ''these'', ''those'', ''in'', ''on'', ''at'', ''to'',
       ''for'', ''of'', ''with'', ''by'', ''from'', ''about'', ''what'', ''which'',
       ''who'', ''whom'', ''how'', ''when'', ''where'', ''why''],
      ld_what_delimiters = [''what is'', ''what are'', ''what does'', ''define''],
      ld_definition_patterns = [''is'', ''are'', ''refers to'', ''means'', ''defined as''],
      ld_possessive_particle = None,
      ld_change_pair = None,
      ld_time_terms = [(''today'', TT_Today),
       (''yesterday'', TT_Yesterday),
       (''this week'', TT_ThisWeek),
       (''last week'', TT_LastWeek),
       (''this month'', TT_ThisMonth),
       (''last month'', TT_LastMonth),
       (''this year'', TT_ThisYear)]\<rparr>"

section \<open>Active languages\<close>

definition active_locales :: "lang_data list" where
  "active_locales = [lang_zh, lang_en]"

text \<open>The first rule of the first language that occurs in the text.\<close>

definition first_marker :: "(lang_data \<Rightarrow> 'a list) \<Rightarrow> ('a \<Rightarrow> string) \<Rightarrow> string \<Rightarrow> 'a option" where
  "first_marker rules word text =
     find_first (\<lambda>m. str_contains text (word m)) (concat (map rules active_locales))"

end
