(* ===== verification/Model_Extract.thy ===== *)
theory Model_Extract
  imports Model_Lang Consolidation_Summarize
begin

text \<open>
  The deterministic extractor of \<open>hippmem-model\<close> (\<open>deterministic/extract.rs\<close>, \<open>traits.rs\<close>): entities,
  topics, explicit causal claims and importance of a text, and the strong dimensions. A slice of a
  string whose end lies before its start panics in Rust; a computation that can panic has an option
  type, with \<open>None\<close> for the panic.
\<close>

section \<open>Results (traits.rs)\<close>

record immediate_extraction =
  ie_entities :: "entity_mention list"
  ie_topics :: "topic_tag list"
  ie_explicit_causals :: "causal_claim list"
  ie_language :: language
  ie_content_type :: "content_type option"
  ie_importance :: unit_score

record strong_extraction =
  se_goals :: "goal_frame list"
  se_preferences :: "preference_frame list"
  se_emotions :: "emotion_frame list"
  se_decisions :: "decision_frame list"
  se_implicit_causals :: "causal_claim list"
  se_contradictions :: "contradiction_hint list"
  se_confidence :: unit_score

section \<open>Entities\<close>

definition split_whitespace :: "string \<Rightarrow> string list" where
  "split_whitespace s = filter (\<lambda>w. w \<noteq> []) (map of_chars (split_on is_whitespace (chars s)))"

definition trim_matches :: "(nat \<Rightarrow> bool) \<Rightarrow> string \<Rightarrow> string" where
  "trim_matches p s = of_chars (rev (dropWhile p (rev (dropWhile p (chars s)))))"

definition trim_end_matches :: "(nat \<Rightarrow> bool) \<Rightarrow> string \<Rightarrow> string" where
  "trim_end_matches p s = of_chars (rev (dropWhile p (rev (chars s))))"

definition entity_mention_of :: "string \<Rightarrow> string \<Rightarrow> entity_type \<Rightarrow> unit_score \<Rightarrow> entity_mention" where
  "entity_mention_of t c ty conf =
     \<lparr>em_text = t, em_canonical = c, em_entity_type = ty, em_span = None, em_confidence = conf\<rparr>"

definition trim_word :: "text_env \<Rightarrow> string \<Rightarrow> string" where
  "trim_word env word =
     trim_matches (\<lambda>c. \<not> char_is_alphanumeric env c \<and> c \<noteq> 45 \<and> c \<noteq> 95) word"

definition is_proper_name :: "string \<Rightarrow> bool" where
  "is_proper_name t \<longleftrightarrow> 2 \<le> length t \<and> (case chars t of c # _ \<Rightarrow> 65 \<le> c \<and> c \<le> 90 | [] \<Rightarrow> False)"

definition latin_entities :: "text_env \<Rightarrow> string \<Rightarrow> entity_mention list" where
  "latin_entities env s =
     map (\<lambda>t. entity_mention_of t (str_to_lowercase env t) ET_Other (unit_score_new (f32_of_rat (6/10))))
       (filter is_proper_name (map (trim_word env) (split_whitespace s)))"

definition is_potential_cjk_name :: "string \<Rightarrow> bool" where
  "is_potential_cjk_name word \<longleftrightarrow> 2 \<le> length word \<and>
     list_all (\<lambda>c. 0x4E00 \<le> c \<and> c \<le> 0x9FFF \<or> 0x3400 \<le> c \<and> c \<le> 0x4DBF \<or> 0x20000 \<le> c \<and> c \<le> 0x2A6DF)
       (chars word)"

definition tag_entity :: "string \<times> string \<Rightarrow> (entity_type \<times> unit_score) option" where
  "tag_entity t =
     (let tag = snd t; high = unit_score_new (f32_of_rat (55/100)) in
      if tag = ''nr'' then Some (ET_Person, high)
      else if tag = ''ns'' then Some (ET_Other, high)
      else if tag = ''nt'' then Some (ET_Org, high)
      else if tag = ''nz'' then Some (ET_Other, high)
      else if tag = ''nrt'' then Some (ET_Other, high)
      else if tag = ''eng'' then Some (ET_Other, unit_score_new (f32_of_rat (50/100)))
      else if tag = ''x'' \<and> is_potential_cjk_name (fst t) then Some (ET_Other, unit_score_new (f32_of_rat (40/100)))
      else None)"

text \<open>A trailing copula (U+662F) is not part of a name of at least two characters.\<close>

definition strip_copula :: "string \<Rightarrow> string \<Rightarrow> string \<times> string" where
  "strip_copula t c =
     (if chars c \<noteq> [] \<and> last (chars c) = 0x662F
      then let stripped = trim_end_matches (\<lambda>x. x = 0x662F) c in
           if 2 \<le> length (chars stripped) then (trim_end_matches (\<lambda>x. x = 0x662F) t, stripped) else (t, c)
      else (t, c))"

definition extract_chinese_entities :: "text_env \<Rightarrow> string \<Rightarrow> entity_mention list" where
  "extract_chinese_entities env s =
     (if \<not> list_ex (\<lambda>c. 0x4E00 \<le> c \<and> c \<le> 0x9FFF) (chars s) then []
      else List.map_filter (\<lambda>t.
             case tag_entity t of
               None \<Rightarrow> None
             | Some (ty, conf) \<Rightarrow>
                 let (tx, c) = strip_copula (fst t) (str_to_lowercase env (fst t))
                 in Some (entity_mention_of tx c ty conf))
           (jieba_tag env s))"

text \<open>A mention whose canonical name was seen before is skipped.\<close>

fun push_new_entities :: "string set \<Rightarrow> entity_mention list \<Rightarrow> entity_mention list" where
  "push_new_entities seen [] = []"
| "push_new_entities seen (e # es) =
     (if em_canonical e \<in> seen then push_new_entities seen es
      else e # push_new_entities (insert (em_canonical e) seen) es)"

definition extract_entities :: "text_env \<Rightarrow> string \<Rightarrow> entity_mention list" where
  "extract_entities env s = push_new_entities {} (latin_entities env s @ extract_chinese_entities env s)"

section \<open>Topics, causal claims, importance\<close>

definition extract_topics :: "text_env \<Rightarrow> string \<Rightarrow> topic_tag list" where
  "extract_topics env s =
     map (\<lambda>t. \<lparr>tt_label = t, tt_confidence = unit_score_new (f32_of_rat (5/10))\<rparr>)
       (take 5 (filter (\<lambda>t. 2 \<le> length t) (tokenize env s ''zh'')))"

text \<open>\<open>&s[a..b]\<close> panics when \<open>a\<close> exceeds \<open>b\<close>; the positions lie on character boundaries.\<close>

definition str_slice :: "string \<Rightarrow> nat \<Rightarrow> nat \<Rightarrow> string option" where
  "str_slice s a b = (if a \<le> b \<and> b \<le> length s then Some (take (b - a) (drop a s)) else None)"

fun scan_causal_pairs :: "(string \<times> string) list \<Rightarrow> string \<Rightarrow> causal_claim list option" where
  "scan_causal_pairs [] s = Some []"
| "scan_causal_pairs ((cm, em) # pairs) s =
     (case (str_find s cm, str_find s em) of
        (Some cp, Some ep) \<Rightarrow>
          (case str_slice s (cp + length cm) ep of
             None \<Rightarrow> None
           | Some mid \<Rightarrow>
               (let cause = str_trim mid; effect = str_trim (drop (ep + length em) s) in
                if cause \<noteq> [] \<and> effect \<noteq> []
                then Some [\<lparr>cc_cause = of_chars (take 80 (chars cause)),
                            cc_effect = of_chars (take 80 (chars effect)),
                            cc_kind = CK_Explicit, cc_evidence_span = None,
                            cc_confidence = unit_score_new (f32_of_rat (7/10))\<rparr>]
                else scan_causal_pairs pairs s))
      | _ \<Rightarrow> scan_causal_pairs pairs s)"

definition extract_explicit_causals :: "string \<Rightarrow> causal_claim list option" where
  "extract_explicit_causals s = scan_causal_pairs (concat (map ld_causal_pairs active_locales)) s"

definition heuristic_importance :: "string \<Rightarrow> content_type \<Rightarrow> unit_score" where
  "heuristic_importance s ct =
     (let n = length (chars s);
          base = f32_of_rat (if 200 < n then 7/10 else if 50 < n then 5/10 else 3/10);
          bonus = (if ct = CT_Decision \<or> ct = CT_Preference then f32_of_rat (2/10) else F32 0)
      in unit_score_new (f32_min (base + bonus) (F32 1)))"

definition immediate_impl :: "text_env \<Rightarrow> memory_content \<Rightarrow> immediate_extraction option" where
  "immediate_impl env c =
     map_option (\<lambda>causals.
       \<lparr>ie_entities = extract_entities env (mc_raw c), ie_topics = extract_topics env (mc_raw c),
        ie_explicit_causals = causals, ie_language = mc_language c,
        ie_content_type = Some (mc_content_type c),
        ie_importance = heuristic_importance (mc_raw c) (mc_content_type c)\<rparr>)
       (extract_explicit_causals (mc_raw c))"

section \<open>Strong dimensions\<close>

definition extract_preferences :: "string \<Rightarrow> string \<Rightarrow> preference_frame list" where
  "extract_preferences label s =
     (let frame = (\<lambda>pol w. \<lparr>pf_object = label @ w, pf_polarity = pol, pf_strength = unit_score_new (f32_of_rat (5/10)),
            pf_still_valid = True, pf_confidence = unit_score_new (f32_of_rat (5/10))\<rparr>) in
      case first_marker ld_preference_pos (\<lambda>w. w) s of
        Some w \<Rightarrow> [frame Like w]
      | None \<Rightarrow> (case first_marker ld_preference_neg (\<lambda>w. w) s of Some w \<Rightarrow> [frame Dislike w] | None \<Rightarrow> []))"

definition extract_emotions :: "string \<Rightarrow> string \<Rightarrow> emotion_frame list" where
  "extract_emotions label s =
     (case first_marker ld_emotion_keywords fst s of
        Some (w, ek) \<Rightarrow> [\<lparr>ef_emotion = ek, ef_intensity = unit_score_new (f32_of_rat (6/10)),
          ef_trigger = Some (label @ w), ef_confidence = unit_score_new (f32_of_rat (5/10))\<rparr>]
      | None \<Rightarrow> [])"

definition extract_goals :: "string \<Rightarrow> f32 \<Rightarrow> string \<Rightarrow> goal_frame list" where
  "extract_goals label conf s =
     (case first_marker ld_goal_markers (\<lambda>w. w) s of
        Some m \<Rightarrow> [\<lparr>gf_description = label @ m, gf_status = GS_Active, gf_constraints = [],
          gf_confidence = unit_score_new conf\<rparr>]
      | None \<Rightarrow> [])"

definition extract_decisions :: "string \<Rightarrow> string \<Rightarrow> decision_frame list" where
  "extract_decisions label s =
     (case first_marker ld_decision_markers (\<lambda>w. w) s of
        Some m \<Rightarrow> [\<lparr>df_decision = label @ m, df_rationale = Some (of_chars (take 100 (chars s))),
          df_decided_at = None, df_reverted = False, df_confidence = unit_score_new (f32_of_rat (45/100))\<rparr>]
      | None \<Rightarrow> [])"

definition strong_impl :: "memory_content \<Rightarrow> strong_extraction" where
  "strong_impl c =
     (let s = mc_raw c; label = ''detected marker: '' in
      \<lparr>se_goals = extract_goals label (f32_of_rat (4/10)) s,
       se_preferences = extract_preferences label s,
       se_emotions = extract_emotions ''detected word: '' s,
       se_decisions = extract_decisions label s,
       se_implicit_causals = [], se_contradictions = [],
       se_confidence = unit_score_new (f32_of_rat (35/100))\<rparr>)"

section \<open>Explicit causal claims\<close>

text \<open>The effect marker starts before the cause marker has ended.\<close>

definition markers_reversed :: "string \<times> string \<Rightarrow> string \<Rightarrow> bool" where
  "markers_reversed p s \<longleftrightarrow>
     (case (str_find s (fst p), str_find s (snd p)) of
        (Some cp, Some ep) \<Rightarrow> ep < cp + length (fst p)
      | _ \<Rightarrow> False)"

lemma scan_causal_pairs_panic:
  "scan_causal_pairs pairs s = None \<longleftrightarrow>
    (\<exists>before p after. pairs = before @ p # after \<and> markers_reversed p s \<and> scan_causal_pairs before s = Some [])"
proof (induction pairs)
  case Nil
  then show ?case by simp
next
  case (Cons q pairs)
  obtain cm em where q: "q = (cm, em)" by (cases q)
  have bound: "ep \<le> length s" if "str_find s em = Some ep" for ep using str_find_Some[OF that] by simp
  have split: "(\<exists>before p after. q # pairs = before @ p # after \<and> markers_reversed p s \<and>
      scan_causal_pairs before s = Some []) \<longleftrightarrow>
    markers_reversed q s \<or> (\<exists>before p after. pairs = before @ p # after \<and> markers_reversed p s \<and>
      scan_causal_pairs (q # before) s = Some [])"
    (is "?L \<longleftrightarrow> ?R")
  proof
    assume ?L
    then obtain before p after where b: "q # pairs = before @ p # after" "markers_reversed p s"
      "scan_causal_pairs before s = Some []" by blast
    show ?R
    proof (cases before)
      case Nil
      with b show ?thesis by simp
    next
      case (Cons a list)
      with b show ?thesis by (intro disjI2 exI[of _ list] exI[of _ p] exI[of _ after]) simp
    qed
  next
    assume ?R
    then show ?L
    proof (elim disjE exE conjE)
      assume "markers_reversed q s"
      then show ?L by (intro exI[of _ "[]"] exI[of _ q] exI[of _ pairs]) simp
    next
      fix before p after
      assume "pairs = before @ p # after" "markers_reversed p s" "scan_causal_pairs (q # before) s = Some []"
      then show ?L by (intro exI[of _ "q # before"] exI[of _ p] exI[of _ after]) simp
    qed
  qed
  show ?case
  proof (cases "markers_reversed q s")
    case True
    then have "scan_causal_pairs (q # pairs) s = None"
      by (auto simp: q markers_reversed_def str_slice_def split: option.splits)
    with True split show ?thesis by blast
  next
    case False
    then have "(\<exists>c. \<forall>xs. scan_causal_pairs (q # xs) s = Some [c]) \<or>
        (\<forall>xs. scan_causal_pairs (q # xs) s = scan_causal_pairs xs s)"
      using bound by (auto simp: q markers_reversed_def str_slice_def Let_def not_less split: option.splits)
    then show ?thesis
    proof
      assume "\<exists>c. \<forall>xs. scan_causal_pairs (q # xs) s = Some [c]"
      then show ?thesis unfolding split using False by fastforce
    next
      assume "\<forall>xs. scan_causal_pairs (q # xs) s = scan_causal_pairs xs s"
      then show ?thesis unfolding split using False Cons.IH by presburger
    qed
  qed
qed

lemma scan_causal_pairs_claim:
  assumes "scan_causal_pairs pairs s = Some (c # cs)"
  shows "cs = [] \<and> (\<exists>cm em pre mid post. (cm, em) \<in> set pairs \<and> s = pre @ cm @ mid @ em @ post \<and>
    str_trim mid \<noteq> [] \<and> str_trim post \<noteq> [] \<and>
    cc_cause c = of_chars (take 80 (chars (str_trim mid))) \<and>
    cc_effect c = of_chars (take 80 (chars (str_trim post))))"
  using assms
proof (induction pairs)
  case (Cons q pairs)
  obtain cm em where q: "q = (cm, em)" by (cases q)
  show ?case
  proof (cases "scan_causal_pairs pairs s = Some (c # cs)")
    case True
    with Cons.IH show ?thesis by (metis list.set_intros(2))
  next
    case False
    with Cons.prems obtain cp ep mid where f: "str_find s cm = Some cp" "str_find s em = Some ep"
        "str_slice s (cp + length cm) ep = Some mid"
        "str_trim mid \<noteq> []" "str_trim (drop (ep + length em) s) \<noteq> []"
      and c: "cs = []" "cc_cause c = of_chars (take 80 (chars (str_trim mid)))"
        "cc_effect c = of_chars (take 80 (chars (str_trim (drop (ep + length em) s))))"
      by (auto simp: q Let_def split: option.splits if_splits)
    have mid: "cp + length cm \<le> ep" "mid = take (ep - (cp + length cm)) (drop (cp + length cm) s)"
      using f(3) by (auto simp: str_slice_def split: if_splits)
    have "s = take cp s @ cm @ drop (cp + length cm) s"
      using str_find_Some[OF f(1)] by (metis add.commute append_take_drop_id drop_drop)
    moreover have "drop (cp + length cm) s = mid @ drop ep s"
      using mid by (metis append_take_drop_id drop_drop le_add_diff_inverse2)
    moreover have "drop ep s = em @ drop (ep + length em) s"
      using str_find_Some[OF f(2)] by (metis add.commute append_take_drop_id drop_drop)
    ultimately have "s = take cp s @ cm @ mid @ em @ drop (ep + length em) s" by simp
    with f(4,5) c show ?thesis by (auto simp: q intro!: exI)
  qed
qed simp

text \<open>The marker pairs of all languages, as bytes.\<close>

lemma locale_causal_pairs:
  "concat (map ld_causal_pairs active_locales) =
     [([CHR 0xE5, CHR 0x9B, CHR 0xA0, CHR 0xE4, CHR 0xB8, CHR 0xBA], [CHR 0xE6, CHR 0x89, CHR 0x80, CHR 0xE4, CHR 0xBB, CHR 0xA5]),
      ([CHR 0xE7, CHR 0x94, CHR 0xB1, CHR 0xE4, CHR 0xBA, CHR 0x8E], [CHR 0xE5, CHR 0xAF, CHR 0xBC, CHR 0xE8, CHR 0x87, CHR 0xB4]),
      ([CHR 0xE5, CHR 0x9B, CHR 0xA0, CHR 0xE4, CHR 0xB8, CHR 0xBA], [CHR 0xE5, CHR 0x9B, CHR 0xA0, CHR 0xE6, CHR 0xAD, CHR 0xA4]),
      (''because'', ''so''), (''since'', ''therefore''), (''due to'', ''thus'')]"
  by (simp add: active_locales_def lang_zh_def lang_en_def of_chars_def utf8_encode_def char_of_eq_iff)

lemma reason_last_panics: "extract_explicit_causals ''so I stayed because it rained'' = None"
  unfolding extract_explicit_causals_def locale_causal_pairs by code_simp

lemma str_trim_words: "str_trim '' it rained, '' \<noteq> []" "str_trim '' I stayed'' \<noteq> []"
  by (simp_all add: str_trim_def trim_chars_def chars_def of_chars_def is_whitespace_def utf8_encode_def)

text \<open>C30: the extractor finds at most one explicit causal claim; cause and effect are the trimmed texts
  after a cause marker and after the matching effect marker, cut to 80 characters. It panics exactly
  when a pair of markers occurs in the wrong order and no earlier pair gave a claim or a panic, as in
  an English sentence that gives its reason last.\<close>

theorem explicit_causals_spec:
  "(\<forall>s c cs. extract_explicit_causals s = Some (c # cs) \<longrightarrow> cs = [] \<and>
     (\<exists>cm em pre mid post. (cm, em) \<in> set (concat (map ld_causal_pairs active_locales)) \<and>
       s = pre @ cm @ mid @ em @ post \<and>
       cc_cause c = of_chars (take 80 (chars (str_trim mid))) \<and>
       cc_effect c = of_chars (take 80 (chars (str_trim post))))) \<and>
   (\<forall>s. extract_explicit_causals s = None \<longleftrightarrow>
     (\<exists>before p after. concat (map ld_causal_pairs active_locales) = before @ p # after \<and>
       markers_reversed p s \<and> scan_causal_pairs before s = Some [])) \<and>
   extract_explicit_causals ''so I stayed because it rained'' = None"
  using scan_causal_pairs_claim[of "concat (map ld_causal_pairs active_locales)"]
    scan_causal_pairs_panic[of "concat (map ld_causal_pairs active_locales)"] reason_last_panics
  unfolding extract_explicit_causals_def by blast

theorem explicit_causals_spec_witness:
  "\<exists>c pre mid post cm em. extract_explicit_causals ''because it rained, so I stayed'' = Some [c] \<and>
     ''because it rained, so I stayed'' = pre @ cm @ mid @ em @ post \<and>
     cc_cause c = of_chars (take 80 (chars (str_trim mid)))"
proof -
  have slices: "str_find ''because it rained, so I stayed'' ''because'' = Some 0"
    "str_find ''because it rained, so I stayed'' ''so'' = Some 19"
    "str_slice ''because it rained, so I stayed'' (0 + length ''because'') 19 = Some '' it rained, ''"
    "drop (19 + length ''so'') ''because it rained, so I stayed'' = '' I stayed''"
    "str_find ''because it rained, so I stayed'' [CHR 0xE5, CHR 0x9B, CHR 0xA0, CHR 0xE4, CHR 0xB8, CHR 0xBA] = None"
    "str_find ''because it rained, so I stayed'' [CHR 0xE7, CHR 0x94, CHR 0xB1, CHR 0xE4, CHR 0xBA, CHR 0x8E] = None"
    by code_simp+
  have "\<exists>c. extract_explicit_causals ''because it rained, so I stayed'' = Some [c]"
    unfolding extract_explicit_causals_def locale_causal_pairs scan_causal_pairs.simps slices
    using str_trim_words by (simp only: option.case prod.case Let_def slices simp_thms if_True) blast
  then obtain c where c: "extract_explicit_causals ''because it rained, so I stayed'' = Some [c]" by blast
  with explicit_causals_spec show ?thesis by blast
qed

end
