(* ===== verification/Write_Staged.thy ===== *)
theory Write_Staged
  imports Write_Keys Write_Association Model_Extract Store_Index
begin

text \<open>
  The stages of a write (\<open>hippmem-write\<close>): from the raw text to an indexed unit with its first edges
  (\<open>staged.rs\<close>), the completion of the strong dimensions (\<open>enrich.rs\<close>), the writing back of the new
  keys (\<open>understanding.rs\<close>), and the diagnostic summaries (\<open>explain.rs\<close>).
\<close>

section \<open>Raw to indexed (staged.rs)\<close>

record staged_write_input =
  sw_id :: memory_id
  sw_content :: memory_content
  sw_understanding :: memory_understanding
  sw_context :: write_context
  sw_semantic :: semantic_signature

record staged_write_output =
  so_unit :: memory_unit
  so_created_links :: "association_link list"

definition context_shared_ratio :: "write_context \<Rightarrow> write_context \<Rightarrow> f32" where
  "context_shared_ratio a b =
     (let fields = [(conversation_id a, conversation_id b), (session_id a, session_id b),
            (project_id a, project_id b), (task_id a, task_id b)];
          total_fields = length (filter (\<lambda>(fa, fb). fa \<noteq> None \<or> fb \<noteq> None) fields)
      in if total_fields = 0 then F32 0
         else let shared = length (filter (\<lambda>(fa, fb). fa \<noteq> None \<and> fa = fb) fields)
              in f32_of_nat shared / f32_of_nat total_fields)"

definition ranked_candidates ::
    "association_keys \<Rightarrow> memory_unit list \<Rightarrow> edge_build_params \<Rightarrow> (memory_unit \<times> f32) list" where
  "ranked_candidates ks existing_units ep =
     (let cands = sort_by (cmp_f32_desc snd) (map (\<lambda>u. (u, simhash_similarity
            (ls_simhash (ak_lexical_signature ks)) (ls_simhash (ak_lexical_signature (keys u))))) existing_units)
      in if 0 < max_candidates ep then take (max_candidates ep) cands else cands)"

definition candidate_edges_for ::
    "staged_write_input \<Rightarrow> association_keys \<Rightarrow> edge_build_params \<Rightarrow> algo_params \<Rightarrow> u32 \<Rightarrow> memory_unit
      \<Rightarrow> association_link list" where
  "candidate_edges_for input ks ep ap total_memories existing =
     (let cand = (discover_candidates ks (keys existing))
            \<lparr>importance_value := score_value (mu_importance (understanding existing)),
             co_context_score := context_shared_ratio (sw_context input) (mem_context existing)\<rparr>
      in build_edges (sw_id input) (mem_id existing) cand (length (matched_dimensions cand)) ep ap
           (links existing) (local_time (sw_context input)) total_memories)"

definition raw_to_indexed ::
    "text_env \<Rightarrow> staged_write_input \<Rightarrow> memory_unit list \<Rightarrow> edge_build_params \<Rightarrow> algo_params
      \<Rightarrow> string + staged_write_output" where
  "raw_to_indexed env input existing_units ep ap =
     (let now = local_time (sw_context input) in
      case generate_keys env (sw_content input) (sw_understanding input) (sw_context input) (sw_semantic input) of
        Inl e \<Rightarrow> Inl e
      | Inr ks \<Rightarrow>
          (let total_memories = of_nat (length existing_units + 1);
               all_links = concat (map (\<lambda>(u, _). candidate_edges_for input ks ep ap total_memories u)
                 (ranked_candidates ks existing_units ep))
           in Inr \<lparr>so_unit =
                \<lparr>schema_version = 1, mem_id = sw_id input, created_at = now, updated_at = now,
                 content = sw_content input, mem_context = sw_context input,
                 understanding = sw_understanding input, keys = ks, links = all_links,
                 activation = \<lparr>last_retrieved_at = None, retrieval_count = 0, co_activations = [],
                   usage_score = unit_score_new (f32_of_rat (5/10))\<rparr>,
                 lifecycle = LC_Active,
                 provenance_of = \<lparr>pv_origin = SK_Conversation, pv_generated_by = GB_UserDirect,
                   pv_reliability = unit_score_new (f32_of_rat (5/10)), pv_evidence_refs = [],
                   pv_revision_history = []\<rparr>,
                 stage = MS_Indexed\<rparr>,
                so_created_links = all_links\<rparr>))"

section \<open>Enrichment (enrich.rs)\<close>

definition extract_goals_enrich :: "string \<Rightarrow> goal_frame list" where
  "extract_goals_enrich s =
     (case first_marker ld_goal_markers (\<lambda>w. w) s of
        Some m \<Rightarrow> [\<lparr>gf_description = ''marker:'' @ m, gf_status = GS_Active, gf_constraints = [],
          gf_confidence = unit_score_new (f32_of_rat (45/100))\<rparr>]
      | None \<Rightarrow> [])"

definition extract_preferences_enrich :: "string \<Rightarrow> preference_frame list" where
  "extract_preferences_enrich s =
     (let frame = (\<lambda>pol w. \<lparr>pf_object = ''preference:'' @ w, pf_polarity = pol,
            pf_strength = unit_score_new (f32_of_rat (5/10)), pf_still_valid = True,
            pf_confidence = unit_score_new (f32_of_rat (5/10))\<rparr>) in
      case first_marker ld_preference_pos (\<lambda>w. w) s of
        Some w \<Rightarrow> [frame Like w]
      | None \<Rightarrow> (case first_marker ld_preference_neg (\<lambda>w. w) s of Some w \<Rightarrow> [frame Dislike w] | None \<Rightarrow> []))"

definition extract_emotions_enrich :: "string \<Rightarrow> emotion_frame list" where
  "extract_emotions_enrich s =
     (case first_marker ld_emotion_keywords fst s of
        Some (w, ek) \<Rightarrow> [\<lparr>ef_emotion = ek, ef_intensity = unit_score_new (f32_of_rat (6/10)),
          ef_trigger = Some (''emotion:'' @ w), ef_confidence = unit_score_new (f32_of_rat (5/10))\<rparr>]
      | None \<Rightarrow> [])"

definition extract_decisions_enrich :: "string \<Rightarrow> decision_frame list" where
  "extract_decisions_enrich s =
     (case first_marker ld_decision_markers (\<lambda>w. w) s of
        Some m \<Rightarrow> [\<lparr>df_decision = ''decision:'' @ m, df_rationale = Some (of_chars (take 100 (chars s))),
          df_decided_at = None, df_reverted = False, df_confidence = unit_score_new (f32_of_rat (45/100))\<rparr>]
      | None \<Rightarrow> [])"

definition enrich_understanding :: "string \<Rightarrow> memory_understanding \<Rightarrow> memory_understanding" where
  "enrich_understanding s u =
     u\<lparr>mu_goals := (if mu_goals u = [] then extract_goals_enrich s else mu_goals u),
       mu_preferences := (if mu_preferences u = [] then extract_preferences_enrich s else mu_preferences u),
       mu_emotions := (if mu_emotions u = [] then extract_emotions_enrich s else mu_emotions u),
       mu_decisions := (if mu_decisions u = [] then extract_decisions_enrich s else mu_decisions u)\<rparr>"

definition enrich_unit :: "memory_unit \<Rightarrow> memory_unit" where
  "enrich_unit u =
     u\<lparr>understanding := enrich_understanding (mc_raw (content u)) (understanding u),
       stage := MS_Enriched, updated_at := local_time (mem_context u)\<rparr>"

section \<open>Keys of the strong dimensions (understanding.rs)\<close>

text \<open>The text of an error is taken by the caller.\<close>

definition index_enriched_keys ::
    "('d, 'b) redb \<Rightarrow> 'b bincode \<Rightarrow> text_env \<Rightarrow> memory_unit \<Rightarrow> u128 \<Rightarrow> 'd \<Rightarrow> store_error + 'd" where
  "index_enriched_keys r bc env u i d =
     (let un = understanding u in
      and_then (try_for_each (\<lambda>g. add_goal r bc (xxh3_64 env (gf_description g)) i) (mu_goals un) d) (\<lambda>d1.
      and_then (try_for_each (\<lambda>e. add_event r bc (xxh3_64 env (ev_action e)) i) (mu_events un) d1) (\<lambda>d2.
        try_for_each (\<lambda>c. add_causal r bc (xxh3_64 env (cc_cause c @ '' -> '' @ cc_effect c)) i)
          (mu_causal_claims un) d2)))"

section \<open>Diagnostics (explain.rs)\<close>

text \<open>The derived \<open>Debug\<close> texts.\<close>

fun dimension_debug :: "match_dimension \<Rightarrow> string" where
  "dimension_debug MD_Entity = ''Entity''"
| "dimension_debug MD_Semantic = ''Semantic''"
| "dimension_debug MD_Temporal = ''Temporal''"
| "dimension_debug MD_Topic = ''Topic''"
| "dimension_debug MD_Goal = ''Goal''"
| "dimension_debug MD_Event = ''Event''"
| "dimension_debug MD_Emotion = ''Emotion''"
| "dimension_debug MD_Causal = ''Causal''"
| "dimension_debug MD_CoContext = ''CoContext''"
| "dimension_debug MD_Importance = ''Importance''"

definition memory_id_debug :: "memory_id \<Rightarrow> string" where
  "memory_id_debug i = ''MemoryId('' @ nat_str (unat (as_u128 i)) @ '')''"

fun warning_debug :: "memory_warning \<Rightarrow> string" where
  "warning_debug (MW_HasCorrection i) = ''HasCorrection { by: '' @ memory_id_debug i @ '' }''"
| "warning_debug (MW_HasContradiction i) = ''HasContradiction { with: '' @ memory_id_debug i @ '' }''"
| "warning_debug (MW_Superseded i) = ''Superseded { by: '' @ memory_id_debug i @ '' }''"
| "warning_debug MW_Deprecated = ''Deprecated''"
| "warning_debug MW_LowConfidence = ''LowConfidence''"
| "warning_debug MW_StaleFreshness = ''StaleFreshness''"

fun stage_debug :: "memory_stage \<Rightarrow> string" where
  "stage_debug MS_Raw = ''Raw''"
| "stage_debug MS_Indexed = ''Indexed''"
| "stage_debug MS_Enriched = ''Enriched''"
| "stage_debug MS_Consolidated = ''Consolidated''"

record result_explanation =
  rx_memory_id :: memory_id
  rx_trace :: "activation_step list"
  rx_dimensions :: "match_dimension list"
  rx_warnings :: "memory_warning list"
  rx_summary :: string

definition explain_result ::
    "memory_unit \<Rightarrow> activation_step list \<Rightarrow> match_dimension list \<Rightarrow> memory_warning list \<Rightarrow> result_explanation" where
  "explain_result u trace dims warns =
     \<lparr>rx_memory_id = mem_id u, rx_trace = trace, rx_dimensions = dims, rx_warnings = warns,
      rx_summary = ''Memory '' @ nat_str (unat (as_u128 (mem_id u))) @ '' was recalled via '' @
        nat_str (length dims) @ '' dimension(s) ('' @ str_join '', '' (map dimension_debug dims) @
        ''), hops='' @ nat_str (unat (fold max (map step_hop trace) 0)) @ ''. Warnings: '' @
        (if warns = [] then ''none'' else str_join '', '' (map warning_debug warns)) @ ''.''\<rparr>"

record units_report =
  ur_memory_count :: nat
  ur_link_count :: nat
  ur_stage_distribution :: "(string \<times> nat) list"

definition inspect_units :: "memory_unit list \<Rightarrow> units_report" where
  "inspect_units us =
     \<lparr>ur_memory_count = length us, ur_link_count = sum_list (map (\<lambda>u. length (links u)) us),
      ur_stage_distribution = fold (\<lambda>u. entry_upsert (stage_debug (stage u)) (\<lambda>n. n + 1) 1) us []\<rparr>"

section \<open>Properties of staging\<close>

lemma build_edges_cases:
  "build_edges s t c dim_count ep ap existing now tm \<noteq> [] \<Longrightarrow>
     build_edges s t c dim_count ep ap existing now tm = [new_edge t c (associate_score c dim_count tm ap) ep now] \<and>
     s \<noteq> t \<and> \<not> score_value (associate_score c dim_count tm ap) < min_score ep"
  by (auto simp: build_edges_def Let_def split: if_splits)

lemma candidate_edges_targets:
  "l \<in> set (candidate_edges_for input ks ep ap n u) \<Longrightarrow>
     target_id l = mem_id u \<and> mem_id u \<noteq> sw_id input \<and> link_wf l \<and> \<not> link_strength l < min_score ep"
  by (auto simp: candidate_edges_for_def build_edges_def new_edge_def Let_def link_wf_def associate_score_wf
      split: if_splits)

lemma length_candidate_edges: "length (candidate_edges_for input ks ep ap n u) \<le> 1"
  by (simp add: candidate_edges_for_def build_edges_def Let_def)

lemma ranked_candidates_subset:
  "fst ` set (ranked_candidates ks us ep) \<subseteq> set us"
  by (auto simp: ranked_candidates_def Let_def dest!: in_set_takeD)

lemma ranked_candidates_distinct:
  assumes "distinct (map mem_id us)"
  shows "distinct (map (\<lambda>(u, _). mem_id u) (ranked_candidates ks us ep))"
proof -
  let ?xs = "map (\<lambda>u. (u, simhash_similarity (ls_simhash (ak_lexical_signature ks))
    (ls_simhash (ak_lexical_signature (keys u))))) us"
  have "distinct (map (\<lambda>(u, _). mem_id u) ?xs)" using assms by (simp add: comp_def)
  then have "distinct (map (\<lambda>(u, _). mem_id u) (sort_by (cmp_f32_desc snd) ?xs))"
    by (simp only: distinct_map_sort_by)
  then have "distinct (take n (map (\<lambda>(u, _). mem_id u) (sort_by (cmp_f32_desc snd) ?xs)))" for n
    by (rule distinct_take)
  with \<open>distinct (map (\<lambda>(u, _). mem_id u) (sort_by (cmp_f32_desc snd) ?xs))\<close> show ?thesis
    unfolding ranked_candidates_def Let_def by (simp only: take_map split: if_split) simp
qed

lemma candidate_edges_unique:
  assumes "distinct (map (\<lambda>(u, _). mem_id u) cands)"
  shows "distinct (map target_id (concat (map (\<lambda>(u, _). candidate_edges_for input ks ep ap n u) cands)))"
  using assms
proof (induction cands)
  case (Cons p cands)
  obtain u x where p: "p = (u, x)" by (cases p)
  let ?rest = "concat (map (\<lambda>(u, _). candidate_edges_for input ks ep ap n u) cands)"
  have "target_id l \<noteq> mem_id u" if "l \<in> set ?rest" for l
    using that Cons.prems candidate_edges_targets[of l input ks ep ap n] by (fastforce simp: p)
  moreover have "distinct (map target_id (candidate_edges_for input ks ep ap n u))"
    using length_candidate_edges[of input ks ep ap n u]
    by (cases "candidate_edges_for input ks ep ap n u") auto
  moreover have "target_id ` set (candidate_edges_for input ks ep ap n u) \<subseteq> {mem_id u}"
    using candidate_edges_targets by blast
  ultimately have "target_id ` set (candidate_edges_for input ks ep ap n u) \<inter> target_id ` set ?rest = {}" by fastforce
  with \<open>distinct (map target_id (candidate_edges_for input ks ep ap n u))\<close> Cons show ?case
    by (simp add: p del: set_concat)
qed simp

lemma raw_to_indexed_links:
  assumes "raw_to_indexed env input us ep ap = Inr out" "distinct (map mem_id us)"
  shows "links (so_unit out) = so_created_links out \<and> links_wf (links (so_unit out)) \<and>
    distinct (map target_id (links (so_unit out))) \<and>
    (\<forall>l \<in> set (links (so_unit out)). target_id l \<noteq> sw_id input \<and> target_id l \<in> mem_id ` set us \<and>
       \<not> link_strength l < min_score ep) \<and>
    (0 < max_candidates ep \<longrightarrow> length (links (so_unit out)) \<le> max_candidates ep)"
proof -
  obtain ks where ks: "generate_keys env (sw_content input) (sw_understanding input) (sw_context input) (sw_semantic input) = Inr ks"
    by (simp add: generate_keys_def)
  let ?cands = "ranked_candidates ks us ep" and ?n = "of_nat (length us + 1) :: u32"
  let ?ls = "concat (map (\<lambda>(u, _). candidate_edges_for input ks ep ap ?n u) ?cands)"
  have out: "links (so_unit out) = ?ls" "so_created_links out = ?ls"
    using assms(1) unfolding raw_to_indexed_def Let_def ks by auto
  have origin: "\<exists>u x. (u, x) \<in> set ?cands \<and> l \<in> set (candidate_edges_for input ks ep ap ?n u)" if "l \<in> set ?ls" for l
    using that by auto
  have each: "target_id l \<noteq> sw_id input \<and> target_id l \<in> mem_id ` set us \<and> link_wf l \<and> \<not> link_strength l < min_score ep"
    if l: "l \<in> set ?ls" for l
  proof -
    obtain u x where u: "(u, x) \<in> set ?cands" "l \<in> set (candidate_edges_for input ks ep ap ?n u)"
      using origin[OF l] by blast
    then have "u \<in> set us" using ranked_candidates_subset[of ks us ep] by force
    then show ?thesis using candidate_edges_targets[OF u(2)] by auto
  qed
  have "length ?ls \<le> length ?cands"
  proof -
    have "length (concat (map (\<lambda>(u, _). candidate_edges_for input ks ep ap ?n u) xs)) \<le> length xs" for xs :: "(memory_unit \<times> f32) list"
    proof (induction xs)
      case (Cons p xs)
      then show ?case using length_candidate_edges[of input ks ep ap ?n "fst p"] by (cases p) simp
    qed simp
    then show ?thesis .
  qed
  moreover have "0 < max_candidates ep \<longrightarrow> length ?cands \<le> max_candidates ep"
    by (simp add: ranked_candidates_def Let_def)
  moreover have "distinct (map target_id ?ls)"
    by (rule candidate_edges_unique) (rule ranked_candidates_distinct[OF assms(2)])
  ultimately show ?thesis
    unfolding out links_wf_def list_all_iff using each by auto
qed

text \<open>Writing the keys of the strong dimensions appends to their posting lists.\<close>

definition enriched_cells :: "text_env \<Rightarrow> memory_unit \<Rightarrow> cell list" where
  "enriched_cells env u =
     map (C64 GOAL_INDEX) (goal_keys_from env (understanding u)) @
     map (C64 EVENT_INDEX) (event_keys_from env (understanding u)) @
     map (C64 CAUSAL_INDEX) (causal_keys_from env (understanding u))"

lemma try_for_each_map: "try_for_each f (map g xs) = try_for_each (\<lambda>x. f (g x)) xs"
proof (rule ext)
  show "try_for_each f (map g xs) d = try_for_each (\<lambda>x. f (g x)) xs d" for d
  proof (induction xs arbitrary: d)
    case (Cons x xs)
    then show ?case by (cases "f (g x) d") simp_all
  qed simp
qed

lemma try_for_each_append_fun:
  "try_for_each f (xs @ ys) = (\<lambda>s. and_then (try_for_each f xs s) (try_for_each f ys))"
  by (rule ext) (rule try_for_each_append)

lemma index_enriched_keys_eq:
  "index_enriched_keys r bc env u i d = try_for_each (\<lambda>c. append_to_table r bc c i) (enriched_cells env u) d"
  by (simp add: index_enriched_keys_def enriched_cells_def try_for_each_append_fun try_for_each_map Let_def
      add_goal_def add_event_def add_causal_def goal_keys_from_def event_keys_from_def causal_keys_from_def comp_def)

lemma enriched_cells_index: "c \<in> set (enriched_cells env u) \<Longrightarrow> index_cell c"
  by (auto simp: enriched_cells_def)

lemma index_enriched_keys_ok:
  assumes "redb_ok r" "bincode_ok bc" "fault_free r"
  obtains d' where "index_enriched_keys r bc env u i d = Inr d'"
    and "index_rel r bc d' = index_rel r bc d \<union> set (enriched_cells env u) \<times> {i}"
    and "\<And>c. \<not> index_cell c \<Longrightarrow> db_get r d' c = db_get r d c"
proof -
  obtain d' where d': "try_for_each (\<lambda>c. append_to_table r bc c i) (enriched_cells env u) d = Inr d'"
      "\<And>c. postings r (c_ids bc) d' c = (if c \<in> set (enriched_cells env u)
        then append_id i (postings r (c_ids bc) d c) else postings r (c_ids bc) d c)"
      "\<And>c. c \<notin> set (enriched_cells env u) \<Longrightarrow> db_get r d' c = db_get r d c"
    using append_tables_ok[OF assms, of i "enriched_cells env u" d] by blast
  have "index_rel r bc d' = index_rel r bc d \<union> set (enriched_cells env u) \<times> {i}"
    by (rule index_rel_append[OF d'(2)]) (rule enriched_cells_index)
  with d' show thesis using that[of d'] enriched_cells_index by (metis index_enriched_keys_eq)
qed

end
