(* ===== verification/Engine_Write.thy ===== *)
theory Engine_Write
  imports Engine_Core Write_Staged Store_Semantic
begin

text \<open>
  The write path of \<open>hippmem-engine\<close> (\<open>write_api.rs\<close>, \<open>runtime.rs\<close>) and the rebuilding of the in-memory
  indexes when a store is opened (\<open>lib.rs\<close>). The state is the database together with the two
  in-memory vector indexes and the full-text index. The model back ends (extractor, embedder), the
  full-text engine and the iteration order of a hash set are parameters, collected in \<open>backends\<close>.
\<close>

section \<open>State and parameters\<close>

record ('d, 'f) engine_state =
  eg_db :: 'd
  eg_dense :: flat_vector_index
  eg_binary :: binary_code_index
  eg_fulltext :: 'f

record 'f backends =
  be_text :: text_env
  be_extract :: "memory_content \<Rightarrow> (model_error + immediate_extraction) option"
  be_embed :: "string list \<Rightarrow> model_error + f32 list list"
  be_ft_add :: "u128 \<Rightarrow> string list \<Rightarrow> 'f \<Rightarrow> string + 'f"
  be_hash_order :: "memory_id list \<Rightarrow> memory_id list"
  be_algo :: algo_params

text \<open>The iteration order of a hash set is some arrangement of its elements; the full-text engine
  accepts documents.\<close>

definition hash_order_ok :: "'f backends \<Rightarrow> bool" where
  "hash_order_ok be \<longleftrightarrow> (\<forall>xs. mset (be_hash_order be xs) = mset xs)"

definition ft_accepts :: "'f backends \<Rightarrow> bool" where
  "ft_accepts be \<longleftrightarrow> (\<forall>i ts f. \<exists>f'. be_ft_add be i ts f = Inr f')"

text \<open>An operation on the database as an operation on the state.\<close>

definition on_db :: "('d, 'a) eng \<Rightarrow> (('d, 'f) engine_state, 'a) eng" where
  "on_db m st = (case m (eg_db st) of (d, x) \<Rightarrow> (st\<lparr>eg_db := d\<rparr>, x))"

definition on_state :: "(('d, 'f) engine_state \<Rightarrow> ('d, 'f) engine_state) \<Rightarrow> (('d, 'f) engine_state, unit) eng" where
  "on_state f st = (f st, Inr ())"

definition on_fulltext :: "(string \<Rightarrow> engine_error) \<Rightarrow> ('f \<Rightarrow> string + 'f) \<Rightarrow> (('d, 'f) engine_state, unit) eng" where
  "on_fulltext conv w st =
     (case w (eg_fulltext st) of Inl e \<Rightarrow> (st, Inl (conv e)) | Inr f \<Rightarrow> (st\<lparr>eg_fulltext := f\<rparr>, Inr ()))"

section \<open>Input and output (lib.rs)\<close>

record write_memory_input =
  wi_content :: string
  wi_content_type :: "content_type option"
  wi_context :: write_context
  wi_importance_hint :: "f32 option"
  wi_source_refs :: "source_ref list"

datatype write_warning =
  WW_ExtractorDegraded | WW_EmbeddingDeferred | WW_StrongDimsDeferred | WW_ModelError string

record write_memory_output =
  wo_memory_id :: memory_id
  wo_stage_reached :: memory_stage
  wo_created_links :: "association_link list"
  wo_understanding :: memory_understanding
  wo_warnings :: "write_warning list"

section \<open>Steps of the write pipeline (write_api.rs)\<close>

definition write_content :: "write_memory_input \<Rightarrow> memory_content" where
  "write_content input =
     \<lparr>mc_raw = wi_content input, mc_summary = None, mc_normalized = None, mc_language = Lang_Zh,
      mc_content_type = (case wi_content_type input of Some ct \<Rightarrow> ct | None \<Rightarrow> CT_UserStatement)\<rparr>"

definition understanding_of ::
    "write_memory_input \<Rightarrow> model_error + immediate_extraction \<Rightarrow> memory_understanding \<times> write_warning list" where
  "understanding_of input res =
     (case res of
        Inr imm \<Rightarrow>
          (\<lparr>mu_entities = ie_entities imm, mu_events = [], mu_goals = [], mu_decisions = [], mu_preferences = [],
            mu_emotions = [], mu_causal_claims = ie_explicit_causals imm, mu_contradictions = [],
            mu_topics = ie_topics imm,
            mu_importance = (case wi_importance_hint input of Some h \<Rightarrow> unit_score_new h | None \<Rightarrow> ie_importance imm),
            mu_confidence = unit_score_new (f32_of_rat (5/10))\<rparr>, [])
      | Inl _ \<Rightarrow>
          (\<lparr>mu_entities = [], mu_events = [], mu_goals = [], mu_decisions = [], mu_preferences = [],
            mu_emotions = [], mu_causal_claims = [], mu_contradictions = [], mu_topics = [],
            mu_importance = unit_score_new (F32 0), mu_confidence = unit_score_new (F32 0)\<rparr>,
           [WW_ExtractorDegraded]))"

definition build_semantic_signature :: "text_env \<Rightarrow> string \<Rightarrow> semantic_signature" where
  "build_semantic_signature env s =
     \<lparr>ss_lexical_simhash = [stable_hash64 env s, stable_hash64 env (s @ ''_1''), stable_hash64 env (s @ ''_2''),
        stable_hash64 env (s @ ''_3'')],
      ss_dense_embedding_ref = None,
      ss_binary_code = [stable_hash64 env (''bc_0_'' @ s), stable_hash64 env (''bc_1_'' @ s)],
      ss_topic_minhash = map (\<lambda>i. ucast (stable_hash64 env (''mh_'' @ nat_str i @ ''_'' @ s))) [0..<16]\<rparr>"

text \<open>The vector of the new memory: precomputed by a batch, or from a call for this text alone.\<close>

definition embedding_of :: "'f backends \<Rightarrow> write_memory_input \<Rightarrow> f32 list option \<Rightarrow> f32 list option" where
  "embedding_of be input precomputed =
     (case precomputed of
        Some v \<Rightarrow> Some v
      | None \<Rightarrow>
          (case be_embed be [wi_content input] of
             Inr (v # _) \<Rightarrow> Some v
           | _ \<Rightarrow> None))"

text \<open>\<open>let _ = idx.insert(..)\<close>: a rejected insertion leaves the index as it is.\<close>

definition insert_dense :: "u128 \<Rightarrow> f32 list \<Rightarrow> flat_vector_index \<Rightarrow> flat_vector_index" where
  "insert_dense i v ix = (case flat_index_insert ix i v of Inr ix' \<Rightarrow> ix' | Inl _ \<Rightarrow> ix)"

definition insert_binary :: "u128 \<Rightarrow> u8 list \<Rightarrow> binary_code_index \<Rightarrow> binary_code_index" where
  "insert_binary i code ix = (case binary_index_insert ix i code of Inr ix' \<Rightarrow> ix' | Inl _ \<Rightarrow> ix)"

definition store_embedding ::
    "'b bincode \<Rightarrow> u128 \<Rightarrow> f32 list option \<Rightarrow> (('d, 'f) engine_state, 'b option) eng" where
  "store_embedding bc i v =
     (case v of
        None \<Rightarrow> eng_return None
      | Some vec \<Rightarrow>
          eng_bind (on_state (\<lambda>st. st\<lparr>eg_dense := insert_dense i vec (eg_dense st)\<rparr>)) (\<lambda>_.
          eng_bind (eng_pure EE_Panic (enc (c_vector bc) vec)) (\<lambda>bytes.
            eng_return (Some bytes))))"

definition hits :: "store_error + u128 list \<Rightarrow> memory_id list" where
  "hits res = (case res of Inr ids \<Rightarrow> map MemoryId ids | Inl _ \<Rightarrow> [])"

definition discover_candidate_ids ::
    "('d, 'b) redb \<Rightarrow> 'b bincode \<Rightarrow> 'f backends \<Rightarrow> association_keys \<Rightarrow> 'd \<Rightarrow> memory_id list" where
  "discover_candidate_ids r bc be ks d =
     be_hash_order be (remdups
       (concat (map (\<lambda>k. hits (get_entity r bc k d)) (ak_entity_keys ks)) @
        concat (map (\<lambda>k. hits (get_topic r bc k d)) (ak_topic_keys ks)) @
        concat (map (\<lambda>k. hits (get_temporal r bc k d)) (ak_temporal_keys ks))))"

definition load_memory_unit :: "('d, 'b) redb \<Rightarrow> 'b bincode \<Rightarrow> 'd \<Rightarrow> memory_id \<Rightarrow> memory_unit option" where
  "load_memory_unit r bc d mid =
     (case kv_get r (as_u128 mid) d of
        Inr (Some data) \<Rightarrow> result_ok (dec (c_unit bc) data)
      | _ \<Rightarrow> None)"

definition load_memory_units :: "('d, 'b) redb \<Rightarrow> 'b bincode \<Rightarrow> memory_id list \<Rightarrow> 'd \<Rightarrow> memory_unit list" where
  "load_memory_units r bc ids d = List.map_filter (load_memory_unit r bc d) ids"

definition write_edge_params :: "algo_params \<Rightarrow> edge_build_params" where
  "write_edge_params ap =
     \<lparr>strong_threshold = strong_edge_threshold ap, strong_max = unat (strong_edge_max ap),
      weak_max = unat (weak_edge_max ap), min_score = edge_build_min_score ap,
      observation_max = observation_enter_max ap, max_candidates = 30\<rparr>"

definition index_keys_of :: "association_keys \<Rightarrow> index_keys" where
  "index_keys_of ks =
     \<lparr>ik_entity = ak_entity_keys ks, ik_topic = ak_topic_keys ks, ik_temporal = ak_temporal_keys ks,
      ik_goal = ak_goal_keys ks, ik_event = ak_event_keys ks, ik_causal = ak_causal_keys ks\<rparr>"

section \<open>Synchronous enrichment (runtime.rs)\<close>

definition run_enrich_sync :: "memory_unit \<Rightarrow> memory_unit" where
  "run_enrich_sync u = (if stage u \<noteq> MS_Indexed then u else (enrich_unit u)\<lparr>stage := MS_Enriched\<rparr>)"

section \<open>The write\<close>

text \<open>Persisting an indexed unit, adding it to the full-text index, enriching it, and writing the
  enriched unit back.\<close>

fun enriched_error :: "store_error \<Rightarrow> engine_error" where
  "enriched_error (SE_Panic e) = EE_Panic e"
| "enriched_error e = EE_Internal (''index_enriched_keys: '' @ store_error_string e)"

definition persist_staged ::
    "('d, 'b) redb \<Rightarrow> 'b bincode \<Rightarrow> 'f backends \<Rightarrow> u128 \<Rightarrow> write_memory_input \<Rightarrow> association_keys \<Rightarrow> bool
      \<Rightarrow> 'b option \<Rightarrow> staged_write_output \<Rightarrow> (('d, 'f) engine_state, unit) eng" where
  "persist_staged r bc be i input ks skip_memory_log dense_persist staged =
     eng_bind (eng_pure EE_Internal (enc (c_unit bc) (so_unit staged))) (\<lambda>bincode_unit.
     eng_bind (eng_pure EE_Internal (enc (c_links bc) (so_created_links staged))) (\<lambda>bincode_links.
     eng_bind (on_db (eng_write engine_error_of (persist_memory_unit r bc i bincode_unit bincode_links
         (index_keys_of ks) skip_memory_log dense_persist))) (\<lambda>_.
     eng_bind (on_fulltext (\<lambda>e. EE_Store (''Tantivy add_document: '' @ e))
         (be_ft_add be i (tokenize (be_text be) (wi_content input) ''zh''))) (\<lambda>_.
     let enriched = run_enrich_sync (so_unit staged) in
     eng_bind (on_db (eng_write enriched_error (index_enriched_keys r bc (be_text be) enriched i))) (\<lambda>_.
     eng_bind (eng_pure EE_Internal (enc (c_unit bc) enriched)) (\<lambda>re_bincode.
       on_db (eng_write engine_error_of (kv_put r i re_bincode))))))))"

definition write_understood ::
    "('d, 'b) redb \<Rightarrow> 'b bincode \<Rightarrow> 'f backends \<Rightarrow> memory_id \<Rightarrow> write_memory_input \<Rightarrow> bool \<Rightarrow> f32 list option
      \<Rightarrow> memory_understanding \<Rightarrow> write_warning list \<Rightarrow> (('d, 'f) engine_state, write_memory_output) eng" where
  "write_understood r bc be mid input skip_memory_log precomputed un warnings0 =
     (let env = be_text be; i = as_u128 mid; v = embedding_of be input precomputed;
          semantic = (build_semantic_signature env (wi_content input))
            \<lparr>ss_dense_embedding_ref := map_option (\<lambda>_. VectorId i) v\<rparr>;
          warnings = warnings0 @ (if v = None then [WW_EmbeddingDeferred] else []) in
      eng_bind (store_embedding bc i v) (\<lambda>dense_persist.
      eng_bind (on_state (\<lambda>st. st\<lparr>eg_binary := insert_binary i (binary_code_bytes semantic) (eg_binary st)\<rparr>)) (\<lambda>_.
      eng_bind (eng_pure (\<lambda>e. EE_Internal (''generate_keys: '' @ e))
          (generate_keys env (write_content input) un (wi_context input) semantic)) (\<lambda>ks.
      eng_bind (\<lambda>st. (st, Inr (load_memory_units r bc (discover_candidate_ids r bc be ks (eg_db st)) (eg_db st))))
        (\<lambda>existing_units.
      eng_bind (eng_pure (\<lambda>e. EE_Internal (''raw_to_indexed: '' @ e))
          (raw_to_indexed env
            \<lparr>sw_id = mid, sw_content = write_content input, sw_understanding = un, sw_context = wi_context input,
             sw_semantic = semantic\<rparr> existing_units (write_edge_params (be_algo be)) (be_algo be))) (\<lambda>staged.
      eng_bind (persist_staged r bc be i input ks skip_memory_log dense_persist staged) (\<lambda>_.
        eng_return \<lparr>wo_memory_id = mid, wo_stage_reached = MS_Indexed,
          wo_created_links = so_created_links staged, wo_understanding = un,
          wo_warnings = warnings @ [WW_StrongDimsDeferred]\<rparr>)))))))"

definition write_internal ::
    "('d, 'b) redb \<Rightarrow> 'b bincode \<Rightarrow> 'f backends \<Rightarrow> memory_id \<Rightarrow> write_memory_input \<Rightarrow> bool \<Rightarrow> f32 list option
      \<Rightarrow> (('d, 'f) engine_state, write_memory_output) eng" where
  "write_internal r bc be mid input skip_memory_log precomputed =
     (case be_extract be (write_content input) of
        None \<Rightarrow> (\<lambda>st. (st, Inl (EE_Panic ''extractor'')))
      | Some res \<Rightarrow>
          (case understanding_of input res of
             (un, warnings) \<Rightarrow> write_understood r bc be mid input skip_memory_log precomputed un warnings))"

text \<open>\<open>MemoryId::generate\<close> gives the identifiers.\<close>

definition write_memory ::
    "('d, 'b) redb \<Rightarrow> 'b bincode \<Rightarrow> 'f backends \<Rightarrow> memory_id \<Rightarrow> write_memory_input
      \<Rightarrow> (('d, 'f) engine_state, write_memory_output) eng" where
  "write_memory r bc be generated input = write_internal r bc be generated input False None"

fun chunks10 :: "'a list \<Rightarrow> 'a list list" where
  "chunks10 [] = []"
| "chunks10 (x # xs) = (x # take 9 xs) # chunks10 (drop 9 xs)"

definition embed_chunk :: "'f backends \<Rightarrow> string list \<Rightarrow> f32 list option list" where
  "embed_chunk be chunk =
     (case be_embed be chunk of Inr vectors \<Rightarrow> map Some vectors | Inl _ \<Rightarrow> replicate (length chunk) None)"

definition write_one ::
    "('d, 'b) redb \<Rightarrow> 'b bincode \<Rightarrow> 'f backends \<Rightarrow> (nat \<Rightarrow> memory_id) \<Rightarrow> nat \<times> write_memory_input \<times> f32 list option
      \<Rightarrow> write_memory_output list \<Rightarrow> (('d, 'f) engine_state, write_memory_output list) eng" where
  "write_one r bc be generated item outputs =
     (case item of (j, input, embedding) \<Rightarrow>
        eng_bind (write_internal r bc be (generated j) input False embedding) (\<lambda>out.
          eng_return (outputs @ [out])))"

definition write_batch ::
    "('d, 'b) redb \<Rightarrow> 'b bincode \<Rightarrow> 'f backends \<Rightarrow> (nat \<Rightarrow> memory_id) \<Rightarrow> write_memory_input list
      \<Rightarrow> (('d, 'f) engine_state, write_memory_output list) eng" where
  "write_batch r bc be generated inputs =
     (if inputs = [] then eng_return []
      else let embeddings = concat (map (embed_chunk be) (chunks10 (map wi_content inputs))) in
           eng_loop (write_one r bc be generated)
             (enumerate 0 (zip inputs embeddings)) [])"

section \<open>Rebuilding the in-memory indexes (lib.rs, Engine::open)\<close>

text \<open>A table that cannot be opened counts as empty; other faults end the opening.\<close>

definition rebuild_read ::
    "('d, 'b) redb \<Rightarrow> string \<Rightarrow> 'd \<Rightarrow> table_def \<Rightarrow> 'a \<Rightarrow> 'a \<Rightarrow> engine_error + 'a" where
  "rebuild_read r what d t none filled =
     (case read_fault r d t of
        None \<Rightarrow> Inr filled
      | Some f \<Rightarrow>
          (case fault_call f of
             OpenTable \<Rightarrow> Inr none
           | Begin \<Rightarrow> Inl (EE_Store (''failed to open store for index rebuild: '' @ fault_text f))
           | _ \<Rightarrow> Inl (EE_Store (what @ fault_text f))))"

definition rebuild_dense :: "('d, 'b) redb \<Rightarrow> 'b bincode \<Rightarrow> 'd \<Rightarrow> flat_vector_index" where
  "rebuild_dense r bc d =
     fold (\<lambda>(k, v) ix. case dec (c_vector bc) v of Inr vec \<Rightarrow> insert_dense k vec ix | Inl _ \<Rightarrow> ix)
       (db_iter128 r DENSE_VECTORS d) flat_index_new"

definition rebuild_binary :: "('d, 'b) redb \<Rightarrow> 'b bincode \<Rightarrow> 'd \<Rightarrow> binary_code_index \<times> u64" where
  "rebuild_binary r bc d =
     fold (\<lambda>(_, v) (ix, n). case dec (c_unit bc) v of
         Inr u \<Rightarrow> (insert_binary (as_u128 (mem_id u))
           (binary_code_bytes (ak_semantic_signature (keys u))) ix, n + 1)
       | Inl _ \<Rightarrow> (ix, n))
       (db_iter128 r MEMORY_KV d) (binary_index_new, 0)"

definition rebuild_indexes ::
    "('d, 'b) redb \<Rightarrow> 'b bincode \<Rightarrow> 'd \<Rightarrow> engine_error + (flat_vector_index \<times> binary_code_index \<times> bool)" where
  "rebuild_indexes r bc d =
     and_then (rebuild_read r ''failed to iterate dense vectors: '' d (T128 DENSE_VECTORS) flat_index_new
         (rebuild_dense r bc d)) (\<lambda>dense.
     and_then (rebuild_read r ''failed to iterate memories: '' d (T128 MEMORY_KV) (binary_index_new, 0)
         (rebuild_binary r bc d)) (\<lambda>(binary, memory_count).
       Inr (dense, binary, flat_index_len dense = 0 \<and> 0 < memory_count)))"

section \<open>Candidates of a write\<close>

lemma on_simps [simp]:
  "m (eg_db st) = (d, x) \<Longrightarrow> on_db m st = (st\<lparr>eg_db := d\<rparr>, x)"
  "on_state f st = (f st, Inr ())"
  "w (eg_fulltext st) = Inr ft \<Longrightarrow> on_fulltext conv w st = (st\<lparr>eg_fulltext := ft\<rparr>, Inr ())"
  by (simp_all add: on_db_def on_state_def on_fulltext_def)

lemma load_memory_unit_at:
  assumes "fault_free r"
  shows "load_memory_unit r bc d mid = unit_at r bc d (as_u128 mid)"
  using assms by (simp add: load_memory_unit_def kv_get_def unit_at_def split: option.split)

lemma load_memory_units_ok:
  assumes ff: "fault_free r" and sync: "store_sync r bc d" and ids: "distinct ids"
  shows "distinct (map mem_id (load_memory_units r bc ids d))"
    and "u \<in> set (load_memory_units r bc ids d) \<longleftrightarrow> (\<exists>mid \<in> set ids. unit_at r bc d (as_u128 mid) = Some u)"
proof -
  have eq: "load_memory_units r bc ids d = List.map_filter (\<lambda>mid. unit_at r bc d (as_u128 mid)) ids" for ids
    by (simp add: load_memory_units_def load_memory_unit_at[OF ff] flip: load_memory_unit_at[OF ff])
  have set: "u \<in> set (load_memory_units r bc ids d) \<longleftrightarrow> (\<exists>mid \<in> set ids. unit_at r bc d (as_u128 mid) = Some u)" for ids u
    unfolding eq by (induction ids) (auto simp: List.map_filter_simps split: option.split)
  then show "u \<in> set (load_memory_units r bc ids d) \<longleftrightarrow> (\<exists>mid \<in> set ids. unit_at r bc d (as_u128 mid) = Some u)" .
  show "distinct (map mem_id (load_memory_units r bc ids d))"
    using ids
  proof (induction ids)
    case (Cons mid ids)
    show ?case
    proof (cases "unit_at r bc d (as_u128 mid)")
      case None
      then show ?thesis using Cons by (simp add: eq List.map_filter_simps)
    next
      case (Some u)
      have "mem_id u = mid" using unit_at_mem_id[OF sync Some] by simp
      moreover have "mem_id v \<in> set ids" if "v \<in> set (load_memory_units r bc ids d)" for v
      proof -
        from that set obtain m where m: "m \<in> set ids" "unit_at r bc d (as_u128 m) = Some v" by blast
        then have "mem_id v = m" using unit_at_mem_id[OF sync m(2)] by simp
        with m(1) show ?thesis by simp
      qed
      ultimately have "mem_id u \<notin> mem_id ` set (load_memory_units r bc ids d)" using Cons.prems by auto
      moreover have "load_memory_units r bc (mid # ids) d = u # load_memory_units r bc ids d"
        by (simp add: eq List.map_filter_simps Some)
      ultimately show ?thesis using Cons by simp
    qed
  qed (simp add: load_memory_units_def List.map_filter_simps)
qed

lemma distinct_candidate_ids: "hash_order_ok be \<Longrightarrow> distinct (discover_candidate_ids r bc be ks d)"
  unfolding discover_candidate_ids_def hash_order_ok_def by (metis distinct_remdups mset_eq_imp_distinct_iff)

section \<open>Persisting a staged unit\<close>

lemma enrich_simps [simp]:
  "links (run_enrich_sync u) = links u" "mem_id (run_enrich_sync u) = mem_id u"
  "content (run_enrich_sync u) = content u" "keys (run_enrich_sync u) = keys u"
  "mem_context (run_enrich_sync u) = mem_context u" "lifecycle (run_enrich_sync u) = lifecycle u"
  by (simp_all add: run_enrich_sync_def enrich_unit_def)

text \<open>What a successful write leaves in the database.\<close>

definition written ::
    "('d, 'b) redb \<Rightarrow> 'b bincode \<Rightarrow> text_env \<Rightarrow> u128 \<Rightarrow> association_keys \<Rightarrow> bool \<Rightarrow> 'b option \<Rightarrow> memory_unit
      \<Rightarrow> 'd \<Rightarrow> 'd \<Rightarrow> bool" where
  "written r bc env i ks skip dense u d d' \<longleftrightarrow>
     store_sync r bc d' \<and> unit_at r bc d' i = Some (run_enrich_sync u) \<and>
     (\<exists>b. dec (c_unit bc) b = Inr u \<and>
       (\<forall>c. \<not> index_cell c \<longrightarrow> c \<noteq> C128 MEMORY_KV i \<longrightarrow> c \<noteq> C128 LINK_OVERLAY i \<longrightarrow>
         db_get r d' c = (if c = C128 DENSE_VECTORS i then dense
           else if c = C128 MEMORY_LOG i \<and> \<not> skip then Some b else db_get r d c))) \<and>
     index_rel r bc d' = index_rel r bc d \<union>
       (set (add_all_cells (index_keys_of ks)) \<union> set (enriched_cells env (run_enrich_sync u))) \<times> {i}"

lemma persist_staged_run:
  assumes db: "redb_ok r" and bc: "bincode_ok bc" and ff: "fault_free r" and ft: "ft_accepts be"
    and sync: "store_sync r bc (eg_db st)" and new: "skip \<or> db_get r (eg_db st) (C128 MEMORY_LOG i) = None"
    and u: "mem_id (so_unit staged) = MemoryId i" "links (so_unit staged) = so_created_links staged"
  obtains d' f' where "persist_staged r bc be i input ks skip dense staged st =
      (st\<lparr>eg_db := d', eg_fulltext := f'\<rparr>, Inr ())"
    and "written r bc (be_text be) i ks skip dense (so_unit staged) (eg_db st) d'"
proof -
  let ?d = "eg_db st" and ?u = "so_unit staged" and ?e = "run_enrich_sync (so_unit staged)"
  obtain b where b: "enc (c_unit bc) ?u = Inr b" "dec (c_unit bc) b = Inr ?u"
    using bincode_okD(1)[OF bc] by (rule codec_okE)
  obtain bl where bl: "enc (c_links bc) (so_created_links staged) = Inr bl" "dec (c_links bc) bl = Inr (so_created_links staged)"
    using bincode_okD(2)[OF bc] by (rule codec_okE)
  obtain be' where be': "enc (c_unit bc) ?e = Inr be'" "dec (c_unit bc) be' = Inr ?e"
    using bincode_okD(1)[OF bc] by (rule codec_okE)
  obtain d1 where d1: "persist_memory_unit r bc i b bl (index_keys_of ks) skip dense ?d = Inr d1"
    and get1: "\<And>c. \<not> index_cell c \<Longrightarrow> db_get r d1 c =
      (if c = C128 MEMORY_KV i then Some b else if c = C128 LINK_OVERLAY i then Some bl
       else if c = C128 DENSE_VECTORS i then dense
       else if c = C128 MEMORY_LOG i \<and> \<not> skip then Some b else db_get r ?d c)"
    and post1: "\<And>c. index_cell c \<Longrightarrow> postings r (c_ids bc) d1 c =
      (if c \<in> set (add_all_cells (index_keys_of ks)) then append_id i (postings r (c_ids bc) ?d c)
       else postings r (c_ids bc) ?d c)"
    by (rule persist_run[OF db bc ff new, where u = b and ls = bl and ks = "index_keys_of ks" and dense = dense])
      (rule that)
  obtain f' where f': "be_ft_add be i (tokenize (be_text be) (wi_content input) ''zh'') (eg_fulltext st) = Inr f'"
    using ft unfolding ft_accepts_def by blast
  obtain d2 where d2: "index_enriched_keys r bc (be_text be) ?e i d1 = Inr d2"
    and rel2: "index_rel r bc d2 = index_rel r bc d1 \<union> set (enriched_cells (be_text be) ?e) \<times> {i}"
    and get2: "\<And>c. \<not> index_cell c \<Longrightarrow> db_get r d2 c = db_get r d1 c"
    by (rule index_enriched_keys_ok[OF db bc ff, of "be_text be" ?e i d1]) (rule that)
  let ?d' = "db_insert r (C128 MEMORY_KV i) be' d2"
  have run: "persist_staged r bc be i input ks skip dense staged st = (st\<lparr>eg_db := ?d', eg_fulltext := f'\<rparr>, Inr ())"
    using b bl be' d1 f' d2 ff by (simp add: persist_staged_def Let_def kv_put_def)
  have get: "db_get r ?d' c = (if c = C128 MEMORY_KV i then Some be' else if c = C128 LINK_OVERLAY i then Some bl
      else if c = C128 DENSE_VECTORS i then dense
      else if c = C128 MEMORY_LOG i \<and> \<not> skip then Some b else db_get r ?d c)" if "\<not> index_cell c" for c
    using that db by (simp add: get2 get1)
  have "links_at r bc ?d' i = so_created_links staged"
    by (simp add: links_at_def postings_def get bl)
  then have sync': "store_sync r bc ?d'"
    by (intro store_sync_update[OF sync, where j = i])
      (auto simp: get graph_cell_def be' u split: if_splits)
  have "index_rel r bc d1 = index_rel r bc ?d \<union> set (add_all_cells (index_keys_of ks)) \<times> {i}"
    using post1 add_all_cells_index ids.mem_add by (auto simp: index_rel_def split: if_splits)
  moreover have "index_rel r bc ?d' = index_rel r bc d2"
    using db by (intro index_rel_frame) auto
  ultimately have "index_rel r bc ?d' = index_rel r bc ?d \<union>
      (set (add_all_cells (index_keys_of ks)) \<union> set (enriched_cells (be_text be) ?e)) \<times> {i}"
    unfolding rel2 by blast
  moreover have "unit_at r bc ?d' i = Some ?e" by (simp add: unit_at_def get be')
  moreover have "\<exists>b. dec (c_unit bc) b = Inr ?u \<and> (\<forall>c. \<not> index_cell c \<longrightarrow> c \<noteq> C128 MEMORY_KV i \<longrightarrow>
      c \<noteq> C128 LINK_OVERLAY i \<longrightarrow> db_get r ?d' c = (if c = C128 DENSE_VECTORS i then dense
        else if c = C128 MEMORY_LOG i \<and> \<not> skip then Some b else db_get r ?d c))"
    using b(2) by (intro exI[of _ b]) (simp add: get)
  ultimately show thesis using that[OF run] sync' by (simp add: written_def)
qed

section \<open>A whole write\<close>

definition write_semantic :: "'f backends \<Rightarrow> u128 \<Rightarrow> write_memory_input \<Rightarrow> f32 list option \<Rightarrow> semantic_signature" where
  "write_semantic be i input precomputed =
     (build_semantic_signature (be_text be) (wi_content input))
       \<lparr>ss_dense_embedding_ref := map_option (\<lambda>_. VectorId i) (embedding_of be input precomputed)\<rparr>"

definition staged_input ::
    "'f backends \<Rightarrow> memory_id \<Rightarrow> write_memory_input \<Rightarrow> f32 list option \<Rightarrow> memory_understanding \<Rightarrow> staged_write_input" where
  "staged_input be mid input precomputed un =
     \<lparr>sw_id = mid, sw_content = write_content input, sw_understanding = un, sw_context = wi_context input,
      sw_semantic = write_semantic be (as_u128 mid) input precomputed\<rparr>"

text \<open>The state after the in-memory indexes were updated.\<close>

definition vectors_added ::
    "'f backends \<Rightarrow> u128 \<Rightarrow> write_memory_input \<Rightarrow> f32 list option \<Rightarrow> ('d, 'f) engine_state \<Rightarrow> ('d, 'f) engine_state" where
  "vectors_added be i input precomputed st =
     st\<lparr>eg_dense := (case embedding_of be input precomputed of Some v \<Rightarrow> insert_dense i v (eg_dense st) | None \<Rightarrow> eg_dense st),
        eg_binary := insert_binary i (binary_code_bytes (write_semantic be i input precomputed)) (eg_binary st)\<rparr>"

lemma raw_to_indexed_fields:
  assumes "raw_to_indexed env input us ep ap = Inr out"
  shows "mem_id (so_unit out) = sw_id input" "content (so_unit out) = sw_content input"
    "mem_context (so_unit out) = sw_context input" "stage (so_unit out) = MS_Indexed"
    "links (so_unit out) = so_created_links out"
    "understanding (so_unit out) = sw_understanding input" "lifecycle (so_unit out) = LC_Active"
    "generate_keys env (sw_content input) (sw_understanding input) (sw_context input) (sw_semantic input) = Inr (keys (so_unit out))"
  using assms by (auto simp: raw_to_indexed_def Let_def generate_keys_def)

text \<open>Everything before the persistence: the new unit and its edges are computed.\<close>

lemma write_understood_stage:
  assumes bc: "bincode_ok bc" and ff: "fault_free r" and order: "hash_order_ok be" and sync: "store_sync r bc (eg_db st)"
  obtains staged dense where
    "write_understood r bc be mid input skip pre un ws st =
      eng_bind (persist_staged r bc be (as_u128 mid) input (keys (so_unit staged)) skip dense staged)
        (\<lambda>_. eng_return \<lparr>wo_memory_id = mid, wo_stage_reached = MS_Indexed, wo_created_links = so_created_links staged,
          wo_understanding = un, wo_warnings = ws @ (if embedding_of be input pre = None then [WW_EmbeddingDeferred] else []) @
            [WW_StrongDimsDeferred]\<rparr>)
        (vectors_added be (as_u128 mid) input pre st)"
    and "map_option (dec (c_vector bc)) dense = map_option Inr (embedding_of be input pre)"
    and "mem_id (so_unit staged) = mid" "content (so_unit staged) = write_content input"
      "mem_context (so_unit staged) = wi_context input" "understanding (so_unit staged) = un"
      "stage (so_unit staged) = MS_Indexed" "lifecycle (so_unit staged) = LC_Active"
      "links (so_unit staged) = so_created_links staged"
      "ak_semantic_signature (keys (so_unit staged)) = write_semantic be (as_u128 mid) input pre"
    and "links_wf (links (so_unit staged))" "distinct (map target_id (links (so_unit staged)))"
      "length (links (so_unit staged)) \<le> 30"
    and "\<And>l. l \<in> set (links (so_unit staged)) \<Longrightarrow>
      target_id l \<noteq> mid \<and> unit_at r bc (eg_db st) (as_u128 (target_id l)) \<noteq> None"
proof -
  let ?i = "as_u128 mid" and ?d = "eg_db st" and ?sem = "write_semantic be (as_u128 mid) input pre"
  let ?in = "staged_input be mid input pre un" and ?ep = "write_edge_params (be_algo be)"
  obtain ks where ks: "generate_keys (be_text be) (write_content input) un (wi_context input) ?sem = Inr ks"
    by (simp add: generate_keys_def)
  define ids where "ids = discover_candidate_ids r bc be ks ?d"
  have ids: "distinct ids" unfolding ids_def by (rule distinct_candidate_ids[OF order])
  obtain out0 where staged: "raw_to_indexed (be_text be) ?in (load_memory_units r bc ids ?d) ?ep (be_algo be) = Inr out0"
    by (simp add: raw_to_indexed_def Let_def staged_input_def ks)
  note F = raw_to_indexed_fields[OF staged]
  note L = raw_to_indexed_links[OF staged load_memory_units_ok(1)[OF ff sync ids]]
  have keys: "keys (so_unit out0) = ks" using F(8) ks by (simp add: staged_input_def)
  obtain dense where dense: "store_embedding bc ?i (embedding_of be input pre) st =
      (st\<lparr>eg_dense := eg_dense (vectors_added be ?i input pre st)\<rparr>, Inr dense)"
    "map_option (dec (c_vector bc)) dense = map_option Inr (embedding_of be input pre)"
  proof (cases "embedding_of be input pre")
    case None
    then show thesis using that[of None] by (simp add: store_embedding_def vectors_added_def)
  next
    case (Some v)
    obtain b where "enc (c_vector bc) v = Inr b" "dec (c_vector bc) b = Inr v"
      using bincode_okD(8)[OF bc] by (rule codec_okE)
    then show thesis using Some that[of "Some b"] by (simp add: store_embedding_def vectors_added_def)
  qed
  let ?st = "vectors_added be ?i input pre st"
  have dbs: "eg_db ?st = ?d" by (simp add: vectors_added_def)
  have st2: "st\<lparr>eg_dense := eg_dense ?st, eg_binary := insert_binary ?i (binary_code_bytes ?sem) (eg_binary st)\<rparr> = ?st"
    by (simp add: vectors_added_def)
  have run: "write_understood r bc be mid input skip pre un ws st =
      eng_bind (persist_staged r bc be ?i input (keys (so_unit out0)) skip dense out0)
        (\<lambda>_. eng_return \<lparr>wo_memory_id = mid, wo_stage_reached = MS_Indexed, wo_created_links = so_created_links out0,
          wo_understanding = un, wo_warnings = ws @ (if embedding_of be input pre = None then [WW_EmbeddingDeferred] else []) @
            [WW_StrongDimsDeferred]\<rparr>) ?st"
    using dense(1) ks staged st2
    by (simp add: write_understood_def Let_def write_semantic_def[symmetric] staged_input_def ids_def dbs keys)
  have stored: "unit_at r bc ?d (as_u128 (target_id l)) \<noteq> None" if "target_id l \<in> mem_id ` set (load_memory_units r bc ids ?d)" for l
  proof -
    from that obtain u where u: "u \<in> set (load_memory_units r bc ids ?d)" "target_id l = mem_id u" by blast
    then obtain m where "unit_at r bc ?d (as_u128 m) = Some u"
      unfolding load_memory_units_ok(2)[OF ff sync ids] by blast
    then show ?thesis using unit_at_mem_id[OF sync] u(2) by fastforce
  qed
  have targets: "target_id l \<noteq> mid \<and> unit_at r bc ?d (as_u128 (target_id l)) \<noteq> None" if "l \<in> set (links (so_unit out0))" for l
    using L that stored[of l] by (simp add: staged_input_def)
  have sem: "ak_semantic_signature (keys (so_unit out0)) = ?sem" using ks keys by (auto simp: generate_keys_def)
  have "0 < max_candidates ?ep" "max_candidates ?ep = 30" by (simp_all add: write_edge_params_def)
  with L have "length (links (so_unit out0)) \<le> 30" by metis
  then show thesis
    using that[OF run dense(2)] L F targets sem by (simp add: staged_input_def)
qed

lemma write_understood_run:
  assumes r: "redb_ok r" "bincode_ok bc" "fault_free r" and be: "ft_accepts be" "hash_order_ok be"
    and sync: "store_sync r bc (eg_db st)"
    and new: "skip \<or> db_get r (eg_db st) (C128 MEMORY_LOG (as_u128 mid)) = None"
  obtains st' out u dense where "write_understood r bc be mid input skip pre un ws st = (st', Inr out)"
    and "written r bc (be_text be) (as_u128 mid) (keys u) skip dense u (eg_db st) (eg_db st')"
    and "eg_dense st' = eg_dense (vectors_added be (as_u128 mid) input pre st)"
      "eg_binary st' = eg_binary (vectors_added be (as_u128 mid) input pre st)"
    and "map_option (dec (c_vector bc)) dense = map_option Inr (embedding_of be input pre)"
    and "mem_id u = mid" "content u = write_content input" "mem_context u = wi_context input"
      "understanding u = un" "stage u = MS_Indexed" "lifecycle u = LC_Active" "links u = wo_created_links out"
      "ak_semantic_signature (keys u) = write_semantic be (as_u128 mid) input pre"
    and "links_wf (links u)" "distinct (map target_id (links u))" "length (links u) \<le> 30"
    and "\<And>l. l \<in> set (links u) \<Longrightarrow> target_id l \<noteq> mid \<and> unit_at r bc (eg_db st) (as_u128 (target_id l)) \<noteq> None"
    and "wo_memory_id out = mid" "wo_understanding out = un"
proof (rule write_understood_stage[OF r(2,3) be(2) sync, where mid = mid and input = input and skip = skip
      and pre = pre and un = un and ws = ws])
  fix staged :: staged_write_output and dense
  let ?st = "vectors_added be (as_u128 mid) input pre st" and ?u = "so_unit staged"
  assume run: "write_understood r bc be mid input skip pre un ws st =
      eng_bind (persist_staged r bc be (as_u128 mid) input (keys ?u) skip dense staged)
        (\<lambda>_. eng_return \<lparr>wo_memory_id = mid, wo_stage_reached = MS_Indexed, wo_created_links = so_created_links staged,
          wo_understanding = un, wo_warnings = ws @ (if embedding_of be input pre = None then [WW_EmbeddingDeferred] else []) @
            [WW_StrongDimsDeferred]\<rparr>) ?st"
    and dense: "map_option (dec (c_vector bc)) dense = map_option Inr (embedding_of be input pre)"
    and u: "mem_id ?u = mid" "content ?u = write_content input" "mem_context ?u = wi_context input"
      "understanding ?u = un" "stage ?u = MS_Indexed" "lifecycle ?u = LC_Active" "links ?u = so_created_links staged"
      "ak_semantic_signature (keys ?u) = write_semantic be (as_u128 mid) input pre"
      "links_wf (links ?u)" "distinct (map target_id (links ?u))" "length (links ?u) \<le> 30"
    and targets: "\<And>l. l \<in> set (links ?u) \<Longrightarrow> target_id l \<noteq> mid \<and> unit_at r bc (eg_db st) (as_u128 (target_id l)) \<noteq> None"
  have dbs: "eg_db ?st = eg_db st" by (simp add: vectors_added_def)
  obtain d' f' where pers: "persist_staged r bc be (as_u128 mid) input (keys ?u) skip dense staged ?st =
      (?st\<lparr>eg_db := d', eg_fulltext := f'\<rparr>, Inr ())"
    and wr: "written r bc (be_text be) (as_u128 mid) (keys ?u) skip dense ?u (eg_db ?st) d'"
    by (rule persist_staged_run[OF r be(1), where st = ?st and skip = skip and i = "as_u128 mid" and staged = staged
          and input = input and ks = "keys ?u" and dense = dense])
      (use sync new u in \<open>simp_all add: dbs\<close>)
  have "write_understood r bc be mid input skip pre un ws st = (?st\<lparr>eg_db := d', eg_fulltext := f'\<rparr>,
      Inr \<lparr>wo_memory_id = mid, wo_stage_reached = MS_Indexed, wo_created_links = so_created_links staged,
        wo_understanding = un, wo_warnings = ws @ (if embedding_of be input pre = None then [WW_EmbeddingDeferred] else []) @
          [WW_StrongDimsDeferred]\<rparr>)"
    using run pers by simp
  then show thesis
    by (rule that[where u = ?u and dense = dense]) (use wr dense u targets in \<open>simp_all add: dbs\<close>)
qed

lemma written_other:
  assumes "written r bc env i ks skip dense u d d'" "j \<noteq> i"
  shows "unit_at r bc d' j = unit_at r bc d j"
    and "db_get r d' (C128 MEMORY_LOG j) = db_get r d (C128 MEMORY_LOG j)"
    and "db_get r d' (C128 DENSE_VECTORS j) = db_get r d (C128 DENSE_VECTORS j)"
proof -
  obtain b where get: "\<And>c. \<not> index_cell c \<Longrightarrow> c \<noteq> C128 MEMORY_KV i \<Longrightarrow> c \<noteq> C128 LINK_OVERLAY i \<Longrightarrow>
      db_get r d' c = (if c = C128 DENSE_VECTORS i then dense
        else if c = C128 MEMORY_LOG i \<and> \<not> skip then Some b else db_get r d c)"
    using assms(1) unfolding written_def by blast
  show "unit_at r bc d' j = unit_at r bc d j" using assms(2) by (simp add: unit_at_def get)
  show "db_get r d' (C128 MEMORY_LOG j) = db_get r d (C128 MEMORY_LOG j)"
    "db_get r d' (C128 DENSE_VECTORS j) = db_get r d (C128 DENSE_VECTORS j)" using assms(2) by (simp_all add: get)
qed

lemma write_internal_Some:
  assumes "be_extract be (write_content input) = Some res"
  shows "write_internal r bc be mid input skip pre =
    write_understood r bc be mid input skip pre (fst (understanding_of input res)) (snd (understanding_of input res))"
  using assms by (simp add: write_internal_def split: prod.split)

lemma write_internal_run:
  assumes r: "redb_ok r" "bincode_ok bc" "fault_free r" and be: "ft_accepts be" "hash_order_ok be"
    and sync: "store_sync r bc (eg_db st)"
    and new: "skip \<or> db_get r (eg_db st) (C128 MEMORY_LOG (as_u128 mid)) = None"
    and ext: "be_extract be (write_content input) \<noteq> None"
  obtains st' out u dense where "write_internal r bc be mid input skip pre st = (st', Inr out)"
    and "written r bc (be_text be) (as_u128 mid) (keys u) skip dense u (eg_db st) (eg_db st')"
    and "eg_dense st' = eg_dense (vectors_added be (as_u128 mid) input pre st)"
      "eg_binary st' = eg_binary (vectors_added be (as_u128 mid) input pre st)"
    and "map_option (dec (c_vector bc)) dense = map_option Inr (embedding_of be input pre)"
    and "mem_id u = mid" "content u = write_content input" "mem_context u = wi_context input"
      "lifecycle u = LC_Active" "stage u = MS_Indexed"
      "ak_semantic_signature (keys u) = write_semantic be (as_u128 mid) input pre"
    and "wo_memory_id out = mid"
proof -
  obtain res where "be_extract be (write_content input) = Some res" using ext by blast
  note eq = write_internal_Some[OF this]
  show thesis
    by (rule write_understood_run[OF r be sync new, where input = input and pre = pre
          and un = "fst (understanding_of input res)" and ws = "snd (understanding_of input res)"])
      (rule that[unfolded eq])
qed

section \<open>Properties\<close>

text \<open>C19: a write of a new memory succeeds on a store without faults, whatever the extractor and the
  embedder return (unless the extractor panics). Afterwards the memory is stored under its identifier,
  enriched, with the text of the input and the edges that were reported: at most 30, in the unit
  interval, one per target, to other memories that were stored before, and the same in unit and graph
  overlay. The memory log holds the unit before enrichment; the indexes have gained exactly its keys;
  every other memory and log entry is as before.\<close>

theorem write_memory_spec:
  assumes r: "redb_ok r" "bincode_ok bc" "fault_free r" and be: "ft_accepts be" "hash_order_ok be"
    and sync: "store_sync r bc (eg_db st)" and new: "db_get r (eg_db st) (C128 MEMORY_LOG (as_u128 mid)) = None"
    and ext: "be_extract be (write_content input) = Some res"
  shows "\<exists>st' out u b. write_memory r bc be mid input st = (st', Inr out) \<and>
    store_sync r bc (eg_db st') \<and> unit_at r bc (eg_db st') (as_u128 mid) = Some (run_enrich_sync u) \<and>
    mem_id u = mid \<and> content u = write_content input \<and> stage u = MS_Indexed \<and>
    stage (run_enrich_sync u) = MS_Enriched \<and>
    links u = wo_created_links out \<and> links_wf (links u) \<and> distinct (map target_id (links u)) \<and> length (links u) \<le> 30 \<and>
    (\<forall>l \<in> set (links u). target_id l \<noteq> mid \<and> unit_at r bc (eg_db st) (as_u128 (target_id l)) \<noteq> None) \<and>
    db_get r (eg_db st') (C128 MEMORY_LOG (as_u128 mid)) = Some b \<and> dec (c_unit bc) b = Inr u \<and>
    index_rel r bc (eg_db st') = index_rel r bc (eg_db st) \<union>
      (set (add_all_cells (index_keys_of (keys u))) \<union> set (enriched_cells (be_text be) (run_enrich_sync u))) \<times> {as_u128 mid} \<and>
    (\<forall>j. j \<noteq> as_u128 mid \<longrightarrow> unit_at r bc (eg_db st') j = unit_at r bc (eg_db st) j \<and>
      db_get r (eg_db st') (C128 MEMORY_LOG j) = db_get r (eg_db st) (C128 MEMORY_LOG j))"
proof (rule write_understood_run[OF r be sync, where skip = False and mid = mid and input = input and pre = None
      and un = "fst (understanding_of input res)" and ws = "snd (understanding_of input res)"])
  fix st' out u dense
  assume run: "write_understood r bc be mid input False None (fst (understanding_of input res))
      (snd (understanding_of input res)) st = (st', Inr out)"
    and wr: "written r bc (be_text be) (as_u128 mid) (keys u) False dense u (eg_db st) (eg_db st')"
    and u: "mem_id u = mid" "content u = write_content input" "stage u = MS_Indexed" "links u = wo_created_links out"
      "links_wf (links u)" "distinct (map target_id (links u))" "length (links u) \<le> 30"
    and targets: "\<And>l. l \<in> set (links u) \<Longrightarrow> target_id l \<noteq> mid \<and> unit_at r bc (eg_db st) (as_u128 (target_id l)) \<noteq> None"
  obtain b where b: "dec (c_unit bc) b = Inr u" "db_get r (eg_db st') (C128 MEMORY_LOG (as_u128 mid)) = Some b"
    using wr unfolding written_def by (auto split: if_splits)
  have "write_memory r bc be mid input st = (st', Inr out)"
    using run by (simp add: write_memory_def write_internal_Some[OF ext])
  moreover have "stage (run_enrich_sync u) = MS_Enriched" by (simp add: run_enrich_sync_def u(3))
  ultimately show ?thesis
    using wr u targets b written_other[OF wr] unfolding written_def by blast
qed (use new in simp)

text \<open>Concrete back ends: an extractor that always fails, an embedder that returns a unit vector for
  every text.\<close>

definition demo_backends :: "unit backends" where
  "demo_backends = \<lparr>be_text = demo_env, be_extract = (\<lambda>_. Some (Inl ME_RateLimited)),
     be_embed = (\<lambda>ts. Inr (map (\<lambda>_. [F32 1]) ts)), be_ft_add = (\<lambda>_ _ f. Inr f), be_hash_order = (\<lambda>xs. xs),
     be_algo = algo_params_default\<rparr>"

definition demo_state :: "(cells, unit) engine_state" where
  "demo_state = \<lparr>eg_db = demo_pair, eg_dense = flat_index_new, eg_binary = binary_index_new, eg_fulltext = ()\<rparr>"

definition demo_input :: "string \<Rightarrow> write_memory_input" where
  "demo_input s = \<lparr>wi_content = s, wi_content_type = None, wi_context = mem_context (demo_unit 1 [] []),
     wi_importance_hint = None, wi_source_refs = []\<rparr>"

lemma demo_backends_ok: "ft_accepts demo_backends" "hash_order_ok demo_backends"
  "be_extract demo_backends c = Some (Inl ME_RateLimited)"
  by (simp_all add: demo_backends_def ft_accepts_def hash_order_ok_def)

lemma demo_state_ok: "store_sync cells_redb cells_bincode (eg_db demo_state)"
  "db_get cells_redb (eg_db demo_state) (C128 MEMORY_LOG i) = None"
  unfolding demo_state_def engine_state.simps demo_pair_def
  by (rule demo_store_sync, simp add: cells_redb_def)

theorem write_memory_spec_witness:
  "\<exists>st' out u. write_memory cells_redb cells_bincode demo_backends (MemoryId 3) (demo_input ''note'') demo_state = (st', Inr out) \<and>
     unit_at cells_redb cells_bincode (eg_db st') 3 = Some u \<and> mc_raw (content u) = ''note''"
proof -
  from write_memory_spec[OF cells_redb_ok cells_bincode_ok cells_fault_free demo_backends_ok(1,2) demo_state_ok
      demo_backends_ok(3), where mid = "MemoryId 3" and input = "demo_input ''note''"]
  obtain st' out u where "write_memory cells_redb cells_bincode demo_backends (MemoryId 3) (demo_input ''note'') demo_state = (st', Inr out)"
    "unit_at cells_redb cells_bincode (eg_db st') 3 = Some (run_enrich_sync u)" "content u = write_content (demo_input ''note'')"
    by auto
  then show ?thesis by (intro exI[of _ st'] exI[of _ out] exI[of _ "run_enrich_sync u"])
      (simp add: write_content_def demo_input_def)
qed

text \<open>C22: a failed write leaves the database as it was: a second write under an identifier that the memory
  log knows is rejected, but only after the vector indexes in memory have taken the new entry; and with
  the rule-based extractor a sentence that gives its reason last makes the write panic.\<close>

theorem write_memory_failures:
  fixes r :: "('d, 'b) redb" and be :: "'f backends"
  assumes r: "bincode_ok bc" "fault_free r" "hash_order_ok be" "store_sync r bc (eg_db st)"
    and dup: "db_get r (eg_db st) (C128 MEMORY_LOG (as_u128 mid)) \<noteq> None"
    and ext: "be_extract be (write_content input) = Some res"
  shows "(\<exists>st'. write_memory r bc be mid input st = (st', Inl (EE_Store
        (''Record already exists, cannot be overwritten: id='' @ nat_str (unat (as_u128 mid))))) \<and>
      eg_db st' = eg_db st \<and> eg_fulltext st' = eg_fulltext st \<and>
      eg_binary st' = insert_binary (as_u128 mid) (binary_code_bytes (write_semantic be (as_u128 mid) input None)) (eg_binary st)) \<and>
    (\<forall>be' input'. be_extract be' = (\<lambda>c. map_option Inr (immediate_impl (be_text be') c)) \<longrightarrow>
      wi_content input' = ''so I stayed because it rained'' \<longrightarrow>
      write_memory r bc be' mid input' st = (st, Inl (EE_Panic ''extractor'')))"
proof (rule conjI)
  show "\<exists>st'. write_memory r bc be mid input st = (st', Inl (EE_Store
        (''Record already exists, cannot be overwritten: id='' @ nat_str (unat (as_u128 mid))))) \<and>
      eg_db st' = eg_db st \<and> eg_fulltext st' = eg_fulltext st \<and>
      eg_binary st' = insert_binary (as_u128 mid) (binary_code_bytes (write_semantic be (as_u128 mid) input None)) (eg_binary st)"
  proof (rule write_understood_stage[OF r, where mid = mid and input = input and skip = False and pre = None
        and un = "fst (understanding_of input res)" and ws = "snd (understanding_of input res)"])
    fix staged :: staged_write_output and dense
    let ?st = "vectors_added be (as_u128 mid) input None st"
    assume run: "write_understood r bc be mid input False None (fst (understanding_of input res)) (snd (understanding_of input res)) st =
        eng_bind (persist_staged r bc be (as_u128 mid) input (keys (so_unit staged)) False dense staged)
          (\<lambda>_. eng_return \<lparr>wo_memory_id = mid, wo_stage_reached = MS_Indexed, wo_created_links = so_created_links staged,
            wo_understanding = fst (understanding_of input res), wo_warnings = snd (understanding_of input res) @
              (if embedding_of be input None = None then [WW_EmbeddingDeferred] else []) @ [WW_StrongDimsDeferred]\<rparr>) ?st"
    obtain b where b: "enc (c_unit bc) (so_unit staged) = Inr b" using bincode_okD(1)[OF r(1)] by (rule codec_okE)
    obtain bl where bl: "enc (c_links bc) (so_created_links staged) = Inr bl" using bincode_okD(2)[OF r(1)] by (rule codec_okE)
    have "persist_memory_unit r bc (as_u128 mid) b bl (index_keys_of (keys (so_unit staged))) False dense (eg_db ?st) =
        Inl (RecordExists (as_u128 mid))"
      using dup r(2) by (simp add: persist_memory_unit_def append_body_def vectors_added_def)
    then have "persist_staged r bc be (as_u128 mid) input (keys (so_unit staged)) False dense staged ?st =
        (?st, Inl (EE_Store (''Record already exists, cannot be overwritten: id='' @ nat_str (unat (as_u128 mid)))))"
      using b bl by (simp add: persist_staged_def)
    then show ?thesis
      using run by (simp add: write_memory_def write_internal_Some[OF ext] vectors_added_def)
  qed
  show "\<forall>be' input'. be_extract be' = (\<lambda>c. map_option Inr (immediate_impl (be_text be') c)) \<longrightarrow>
      wi_content input' = ''so I stayed because it rained'' \<longrightarrow>
      write_memory r bc be' mid input' st = (st, Inl (EE_Panic ''extractor''))"
    by (simp add: write_memory_def write_internal_def immediate_impl_def write_content_def reason_last_panics)
qed

theorem write_memory_failures_witness:
  "\<exists>st'. write_memory cells_redb cells_bincode demo_backends (MemoryId 3) (demo_input ''note'')
      (demo_state\<lparr>eg_db := (C128 MEMORY_LOG 3, B_links []) # demo_pair\<rparr>) =
      (st', Inl (EE_Store (''Record already exists, cannot be overwritten: id='' @ nat_str 3)))"
proof -
  let ?st = "demo_state\<lparr>eg_db := (C128 MEMORY_LOG 3, B_links []) # demo_pair\<rparr>"
  have sync: "store_sync cells_redb cells_bincode (eg_db ?st)"
    by (rule store_sync_frame[OF demo_state_ok(1)]) (auto simp: graph_cell_def cells_redb_def demo_state_def)
  have dup: "db_get cells_redb (eg_db ?st) (C128 MEMORY_LOG (as_u128 (MemoryId 3))) \<noteq> None"
    by (simp add: cells_redb_def)
  have ext: "be_extract demo_backends (write_content (demo_input ''note'')) = Some (Inl ME_RateLimited)"
    by (rule demo_backends_ok)
  from write_memory_failures[OF cells_bincode_ok cells_fault_free demo_backends_ok(2) sync dup ext] show ?thesis by auto
qed

section \<open>Batches\<close>

lemma concat_chunks10: "concat (chunks10 xs) = xs"
  by (induction xs rule: chunks10.induct) auto

text \<open>An embedder that keeps its contract returns one vector per text.\<close>

definition embed_per_text :: "'f backends \<Rightarrow> bool" where
  "embed_per_text be \<longleftrightarrow> (\<forall>ts vs. be_embed be ts = Inr vs \<longrightarrow> length vs = length ts)"

lemma length_embeddings:
  assumes "embed_per_text be"
  shows "length (concat (map (embed_chunk be) (chunks10 ts))) = length ts"
proof -
  have "length (embed_chunk be c) = length c" for c
    using assms by (auto simp: embed_chunk_def embed_per_text_def split: sum.split)
  then have "length (concat (map (embed_chunk be) cs)) = length (concat cs)" for cs
    by (induction cs) simp_all
  then show ?thesis by (simp add: concat_chunks10)
qed

text \<open>Writing a list of inputs under new identifiers.\<close>

lemma write_loop_run:
  assumes r: "redb_ok r" "bincode_ok bc" "fault_free r" and be: "ft_accepts be" "hash_order_ok be"
    and ext: "\<And>c. be_extract be c \<noteq> None"
  shows "store_sync r bc (eg_db st) \<Longrightarrow> inj_on gen {k..<k + length xs} \<Longrightarrow>
    (\<forall>j \<in> {k..<k + length xs}. db_get r (eg_db st) (C128 MEMORY_LOG (as_u128 (gen j))) = None) \<Longrightarrow>
    \<exists>st' outs. eng_loop (write_one r bc be gen) (enumerate k xs) outs0 st = (st', Inr (outs0 @ outs)) \<and>
    store_sync r bc (eg_db st') \<and> map wo_memory_id outs = map gen [k..<k + length xs] \<and>
    (\<forall>j < length xs. \<exists>u. unit_at r bc (eg_db st') (as_u128 (gen (k + j))) = Some u \<and>
      mc_raw (content u) = wi_content (fst (xs ! j))) \<and>
    (\<forall>i. MemoryId i \<notin> gen ` {k..<k + length xs} \<longrightarrow> unit_at r bc (eg_db st') i = unit_at r bc (eg_db st) i)"
proof (induction xs arbitrary: k st outs0)
  case (Cons x xs)
  obtain input pre where x: "x = (input, pre)" by (cases x)
  have new: "False \<or> db_get r (eg_db st) (C128 MEMORY_LOG (as_u128 (gen k))) = None" using Cons.prems(3) by simp
  obtain st1 out u dense where run: "write_internal r bc be (gen k) input False pre st = (st1, Inr out)"
    and wr: "written r bc (be_text be) (as_u128 (gen k)) (keys u) False dense u (eg_db st) (eg_db st1)"
    and u: "content u = write_content input" "wo_memory_id out = gen k"
    by (rule write_internal_run[OF r be Cons.prems(1) new ext[of "write_content input"], where pre = pre]) blast
  have inj: "gen j \<noteq> gen k" if "j \<in> {Suc k..<k + length (x # xs)}" for j
    using inj_onD[OF Cons.prems(2), of j k] that by auto
  then have other: "as_u128 (gen j) \<noteq> as_u128 (gen k)" if "j \<in> {Suc k..<k + length (x # xs)}" for j
    using that memory_id.expand by blast
  have "store_sync r bc (eg_db st1)" using wr by (simp add: written_def)
  moreover have "inj_on gen {Suc k..<Suc k + length xs}"
    using Cons.prems(2) by (rule inj_on_subset) auto
  moreover have "\<forall>j \<in> {Suc k..<Suc k + length xs}. db_get r (eg_db st1) (C128 MEMORY_LOG (as_u128 (gen j))) = None"
    using Cons.prems(3) written_other(2)[OF wr other] by simp
  ultimately obtain st' outs where rest: "eng_loop (write_one r bc be gen) (enumerate (Suc k) xs) (outs0 @ [out]) st1 = (st', Inr ((outs0 @ [out]) @ outs))"
    "store_sync r bc (eg_db st')" "map wo_memory_id outs = map gen [Suc k..<Suc k + length xs]"
    "\<forall>j < length xs. \<exists>u. unit_at r bc (eg_db st') (as_u128 (gen (Suc k + j))) = Some u \<and>
      mc_raw (content u) = wi_content (fst (xs ! j))"
    "\<forall>i. MemoryId i \<notin> gen ` {Suc k..<Suc k + length xs} \<longrightarrow> unit_at r bc (eg_db st') i = unit_at r bc (eg_db st1) i"
    using Cons.IH[of st1 "Suc k" "outs0 @ [out]"] by blast
  have "MemoryId (as_u128 (gen k)) \<notin> gen ` {Suc k..<Suc k + length xs}"
    using inj by (auto simp: image_iff) metis
  then have "unit_at r bc (eg_db st') (as_u128 (gen k)) = Some (run_enrich_sync u)"
    using rest(5) wr by (simp add: written_def)
  then have at: "\<exists>u. unit_at r bc (eg_db st') (as_u128 (gen (k + j))) = Some u \<and>
      mc_raw (content u) = wi_content (fst ((x # xs) ! j))" if "j < length (x # xs)" for j
    using that rest(4) u(1) by (cases j) (auto simp: x write_content_def)
  have "unit_at r bc (eg_db st') i = unit_at r bc (eg_db st) i" if "MemoryId i \<notin> gen ` {k..<k + length (x # xs)}" for i
  proof -
    have "i \<noteq> as_u128 (gen k)" using that by (auto simp: image_iff)
    moreover have "MemoryId i \<notin> gen ` {Suc k..<Suc k + length xs}" using that by auto
    ultimately show ?thesis using rest(5) written_other(1)[OF wr] by simp
  qed
  moreover have "write_one r bc be gen (k, x) outs0 st = (st1, Inr (outs0 @ [out]))"
    using run by (simp add: write_one_def x)
  ultimately show ?case
    using rest(1,2,3) u(2) at
    by (intro exI[of _ st'] exI[of _ "out # outs"]) (simp add: upt_conv_Cons del: upt_Suc)
qed (auto intro!: exI[of _ st])

text \<open>C21: a batch under new, distinct identifiers succeeds and writes every input, in order, each with its
  text and under its identifier; no other memory changes. With an embedder that keeps its contract
  (one vector per text) no input is lost when a chunk of ten texts fails to embed.\<close>

theorem write_batch_spec:
  assumes r: "redb_ok r" "bincode_ok bc" "fault_free r" and be: "ft_accepts be" "hash_order_ok be" "embed_per_text be"
    and ext: "\<And>c. be_extract be c \<noteq> None" and sync: "store_sync r bc (eg_db st)"
    and gen: "inj_on gen {0..<length inputs}"
      "\<And>j. j < length inputs \<Longrightarrow> db_get r (eg_db st) (C128 MEMORY_LOG (as_u128 (gen j))) = None"
  shows "\<exists>st' outs. write_batch r bc be gen inputs st = (st', Inr outs) \<and> store_sync r bc (eg_db st') \<and>
    map wo_memory_id outs = map gen [0..<length inputs] \<and>
    (\<forall>j < length inputs. \<exists>u. unit_at r bc (eg_db st') (as_u128 (gen j)) = Some u \<and>
      mc_raw (content u) = wi_content (inputs ! j)) \<and>
    (\<forall>i. MemoryId i \<notin> gen ` {0..<length inputs} \<longrightarrow> unit_at r bc (eg_db st') i = unit_at r bc (eg_db st) i)"
proof (cases "inputs = []")
  case False
  let ?xs = "zip inputs (concat (map (embed_chunk be) (chunks10 (map wi_content inputs))))"
  have len: "length ?xs = length inputs" using length_embeddings[OF be(3), of "map wi_content inputs"] by simp
  have "fst (?xs ! j) = inputs ! j" if "j < length inputs" for j using that len by simp
  with False write_loop_run[OF r be(1,2) ext sync, of gen 0 ?xs "[]"] gen show ?thesis
    unfolding write_batch_def Let_def len by (simp del: upt_Suc)
qed (simp add: write_batch_def sync)

theorem write_batch_spec_witness:
  "\<exists>st' outs. write_batch cells_redb cells_bincode demo_backends (\<lambda>j. MemoryId (of_nat j + 3))
      [demo_input ''one'', demo_input ''two''] demo_state = (st', Inr outs) \<and>
    map wo_memory_id outs = [MemoryId 3, MemoryId 4]"
proof -
  have inj: "inj_on (\<lambda>j. MemoryId (of_nat j + 3)) {0..<length [demo_input ''one'', demo_input ''two'']}"
    by (auto simp: inj_on_def less_Suc_eq)
  from write_batch_spec[OF cells_redb_ok cells_bincode_ok cells_fault_free demo_backends_ok(1,2) _ _ demo_state_ok(1) inj demo_state_ok(2)]
  show ?thesis by (auto simp: embed_per_text_def demo_backends_def)
qed

section \<open>The in-memory indexes mirror the store\<close>

definition vectors_sync :: "('d, 'b) redb \<Rightarrow> 'b bincode \<Rightarrow> ('d, 'f) engine_state \<Rightarrow> bool" where
  "vectors_sync r bc st \<longleftrightarrow>
     (\<forall>i. map_of (fv_entries (eg_dense st)) i =
        Option.bind (db_get r (eg_db st) (C128 DENSE_VECTORS i)) (\<lambda>b. result_ok (dec (c_vector bc) b))) \<and>
     (\<forall>i. map_of (bi_entries (eg_binary st)) i =
        map_option (\<lambda>u. binary_code_bytes (ak_semantic_signature (keys u))) (unit_at r bc (eg_db st) i))"

lemma length_binary_code_bytes [simp]: "length (binary_code_bytes s) = 16"
  by (simp add: binary_code_bytes_def to_le_bytes_def)

lemma map_of_insert_dense [simp]:
  "map_of (fv_entries (insert_dense i v ix)) = (map_of (fv_entries ix))(i \<mapsto> v)"
  by (simp add: insert_dense_def flat_index_insert_def map_of_entry_upsert split: option.split)

text \<open>Codes of signatures have one length, so their insertion is never rejected.\<close>

lemma map_of_insert_binary:
  assumes "\<And>j c. map_of (bi_entries ix) j = Some c \<Longrightarrow> length c = 16"
  shows "map_of (bi_entries (insert_binary i (binary_code_bytes s) ix)) = (map_of (bi_entries ix))(i \<mapsto> binary_code_bytes s)"
proof -
  have "length (snd (hd (bi_entries ix))) = 16" if "bi_entries ix \<noteq> []"
    using assms[of "fst (hd (bi_entries ix))"] that by (cases "bi_entries ix") auto
  then show ?thesis
    by (auto simp: insert_binary_def binary_index_insert_def map_of_entry_upsert split: option.split)
qed

lemma distinct_iter128:
  assumes "redb_ok r"
  shows "distinct (map fst (db_iter128 r t d))"
  by (rule conjunct2[OF strict_sorted_iff[THEN iffD1, OF redb_iter_sorted(1)[OF assms]]])

lemma map_of_iter128:
  assumes "redb_ok r"
  shows "map_of (db_iter128 r t d) k = db_get r d (C128 t k)"
proof -
  have "map_of (db_iter128 r t d) k = Some v \<longleftrightarrow> db_get r d (C128 t k) = Some v" for v
    unfolding map_of_eq_Some_iff[OF distinct_iter128[OF assms]] by (rule redb_iter(1)[OF assms])
  then show ?thesis by (metis (no_types) option.exhaust)
qed

lemma fold_insert_dense:
  "distinct (map fst xs) \<Longrightarrow>
   map_of (fv_entries (fold (\<lambda>(k, v) ix. case dec (c_vector bc) v of Inr vec \<Rightarrow> insert_dense k vec ix | Inl _ \<Rightarrow> ix) xs ix)) i =
     (case Option.bind (map_of xs i) (\<lambda>b. result_ok (dec (c_vector bc) b)) of
        Some v \<Rightarrow> Some v | None \<Rightarrow> map_of (fv_entries ix) i)"
proof (induction xs arbitrary: ix)
  case (Cons x xs)
  obtain k v where x: "x = (k, v)" by (cases x)
  have "map_of xs k = None" using Cons.prems by (simp add: x map_of_eq_None_iff)
  with Cons show ?case by (auto simp: x split: sum.split option.split)
qed simp

text \<open>The identifiers and codes of the stored units, read back in any order.\<close>

lemma fold_insert_binary:
  assumes "distinct (map fst xs)" "\<And>k v. (k, v) \<in> set xs \<Longrightarrow> dec (c_unit bc) v = Inr (un v) \<and> mem_id (un v) = MemoryId k"
    and "\<And>j c. map_of (bi_entries ix) j = Some c \<Longrightarrow> length c = 16"
  shows "\<exists>ix'. fold (\<lambda>(_, v) (ix, n). case dec (c_unit bc) v of
         Inr u \<Rightarrow> (insert_binary (as_u128 (mem_id u))
           (binary_code_bytes (ak_semantic_signature (keys u))) ix, n + 1)
       | Inl _ \<Rightarrow> (ix, n)) xs (ix, n) = (ix', n + of_nat (length xs)) \<and>
    (\<forall>i. map_of (bi_entries ix') i = (case map_of xs i of
        Some v \<Rightarrow> Some (binary_code_bytes (ak_semantic_signature (keys (un v)))) | None \<Rightarrow> map_of (bi_entries ix) i))"
  using assms
proof (induction xs arbitrary: ix n)
  case (Cons x xs)
  obtain k v where x: "x = (k, v)" by (cases x)
  let ?ix = "insert_binary k (binary_code_bytes (ak_semantic_signature (keys (un v)))) ix"
  have k: "map_of xs k = None" using Cons.prems(1) by (simp add: x map_of_eq_None_iff)
  have v: "dec (c_unit bc) v = Inr (un v)" "mem_id (un v) = MemoryId k" using Cons.prems(2)[of k v] by (simp_all add: x)
  have ins: "map_of (bi_entries ?ix) = (map_of (bi_entries ix))(k \<mapsto> binary_code_bytes (ak_semantic_signature (keys (un v))))"
    using Cons.prems(3) by (rule map_of_insert_binary)
  have len: "length c = 16" if "map_of (bi_entries ?ix) j = Some c" for j c
    using that Cons.prems(3) by (auto simp: ins split: if_splits)
  obtain ix' where ix': "fold (\<lambda>(_, v) (ix, n). case dec (c_unit bc) v of
         Inr u \<Rightarrow> (insert_binary (as_u128 (mem_id u))
           (binary_code_bytes (ak_semantic_signature (keys u))) ix, n + 1)
       | Inl _ \<Rightarrow> (ix, n)) xs (?ix, n + 1) = (ix', n + 1 + of_nat (length xs))"
    "\<forall>i. map_of (bi_entries ix') i = (case map_of xs i of
        Some v \<Rightarrow> Some (binary_code_bytes (ak_semantic_signature (keys (un v)))) | None \<Rightarrow> map_of (bi_entries ?ix) i)"
    using Cons.IH[of ?ix "n + 1"] Cons.prems(1,2) len by (fastforce simp: x)
  then show ?case using k by (intro exI[of _ ix']) (simp add: x v ins add.assoc split: option.split)
qed simp

lemma rebuild_indexes_sync:
  assumes r: "redb_ok r" "fault_free r" and sync: "store_sync r bc d"
  obtains dense binary degraded where "rebuild_indexes r bc d = Inr (dense, binary, degraded)"
    and "vectors_sync r bc \<lparr>eg_db = d, eg_dense = dense, eg_binary = binary, eg_fulltext = f\<rparr>"
proof -
  let ?kv = "db_iter128 r MEMORY_KV d" and ?un = "\<lambda>v. projr (dec (c_unit bc) v)"
  note distinct = distinct_iter128[OF r(1), of _ d]
  have kv: "dec (c_unit bc) v = Inr (?un v) \<and> mem_id (?un v) = MemoryId k" if "(k, v) \<in> set ?kv" for k v
    using that redb_iter(1)[OF r(1)] store_syncD[OF sync] by (metis sum.sel(2))
  have new0: "map_of (bi_entries binary_index_new) = Map.empty" by (simp add: binary_index_new_def)
  obtain ix where ix: "rebuild_binary r bc d = (ix, of_nat (length ?kv))"
    "\<forall>i. map_of (bi_entries ix) i = (case map_of ?kv i of
        Some v \<Rightarrow> Some (binary_code_bytes (ak_semantic_signature (keys (?un v)))) | None \<Rightarrow> None)"
    using fold_insert_binary[OF distinct[of MEMORY_KV] kv, where ix = binary_index_new and n = "0 :: u64"]
    unfolding rebuild_binary_def by (auto simp: new0 cong: option.case_cong)
  have "map_of (bi_entries ix) i = map_option (\<lambda>u. binary_code_bytes (ak_semantic_signature (keys u))) (unit_at r bc d i)" for i
  proof (cases "db_get r d (C128 MEMORY_KV i)")
    case (Some v)
    then obtain u where "dec (c_unit bc) v = Inr u" by (rule store_syncD[OF sync])
    with Some show ?thesis by (simp add: ix(2) map_of_iter128[OF r(1)] unit_at_def)
  qed (simp add: ix(2) map_of_iter128[OF r(1)] unit_at_def)
  moreover have "map_of (fv_entries (rebuild_dense r bc d)) i =
      Option.bind (db_get r d (C128 DENSE_VECTORS i)) (\<lambda>b. result_ok (dec (c_vector bc) b))" for i
    by (simp add: rebuild_dense_def fold_insert_dense[OF distinct] map_of_iter128[OF r(1)] flat_index_new_def
        split: option.split)
  ultimately have "vectors_sync r bc \<lparr>eg_db = d, eg_dense = rebuild_dense r bc d, eg_binary = ix, eg_fulltext = f\<rparr>"
    by (simp add: vectors_sync_def)
  moreover have "rebuild_indexes r bc d = Inr (rebuild_dense r bc d, ix,
      flat_index_len (rebuild_dense r bc d) = 0 \<and> 0 < (of_nat (length ?kv) :: u64))"
    using r(2) by (simp add: rebuild_indexes_def rebuild_read_def fault_free_def ix(1))
  ultimately show thesis using that by blast
qed

text \<open>C20: opening a store rebuilds the in-memory vector indexes to mirror it: the dense index holds the
  persisted vectors and the binary index the code of every stored memory. A write of a new memory
  keeps the mirror, so no restart is needed to find it by similarity.\<close>

theorem vectors_sync_spec:
  assumes r: "redb_ok r" "bincode_ok bc" "fault_free r" and be: "ft_accepts be" "hash_order_ok be"
    and ext: "be_extract be (write_content input) \<noteq> None"
    and sync: "store_sync r bc d"
    and new: "db_get r d (C128 MEMORY_LOG (as_u128 mid)) = None" "db_get r d (C128 DENSE_VECTORS (as_u128 mid)) = None"
  shows "\<exists>dense binary degraded st' out. rebuild_indexes r bc d = Inr (dense, binary, degraded) \<and>
    vectors_sync r bc \<lparr>eg_db = d, eg_dense = dense, eg_binary = binary, eg_fulltext = f\<rparr> \<and>
    write_memory r bc be mid input \<lparr>eg_db = d, eg_dense = dense, eg_binary = binary, eg_fulltext = f\<rparr> = (st', Inr out) \<and>
    vectors_sync r bc st' \<and> store_sync r bc (eg_db st')"
proof (rule rebuild_indexes_sync[OF r(1,3) sync, where f = f])
  fix dense binary degraded
  let ?st = "\<lparr>eg_db = d, eg_dense = dense, eg_binary = binary, eg_fulltext = f\<rparr>"
  assume rebuilt: "rebuild_indexes r bc d = Inr (dense, binary, degraded)" and vs: "vectors_sync r bc ?st"
  have pre: "store_sync r bc (eg_db ?st)" "False \<or> db_get r (eg_db ?st) (C128 MEMORY_LOG (as_u128 mid)) = None"
    using sync new by simp_all
  show ?thesis
  proof (rule write_internal_run[OF r be pre ext, where pre = None])
    fix st' :: "('a, 'c) engine_state" and out u v
    assume run: "write_internal r bc be mid input False None ?st = (st', Inr out)"
      and wr: "written r bc (be_text be) (as_u128 mid) (keys u) False v u (eg_db ?st) (eg_db st')"
      and ix: "eg_dense st' = eg_dense (vectors_added be (as_u128 mid) input None ?st)"
        "eg_binary st' = eg_binary (vectors_added be (as_u128 mid) input None ?st)"
      and v: "map_option (dec (c_vector bc)) v = map_option Inr (embedding_of be input None)"
      and sig: "ak_semantic_signature (keys u) = write_semantic be (as_u128 mid) input None"
    have at: "unit_at r bc (eg_db st') (as_u128 mid) = Some (run_enrich_sync u)"
      "db_get r (eg_db st') (C128 DENSE_VECTORS (as_u128 mid)) = v"
      using wr by (auto simp: written_def)
    have "vectors_sync r bc st'"
      unfolding vectors_sync_def
    proof (intro conjI allI)
      fix i
      show "map_of (fv_entries (eg_dense st')) i =
          Option.bind (db_get r (eg_db st') (C128 DENSE_VECTORS i)) (\<lambda>b. result_ok (dec (c_vector bc) b))"
        using vs new(2) v written_other(3)[OF wr, of i] at(2)
        by (cases "i = as_u128 mid"; cases "embedding_of be input None"; cases v)
          (auto simp: vectors_sync_def ix vectors_added_def)
      have "length c = 16" if "map_of (bi_entries binary) j = Some c" for j c
        using that vs by (auto simp: vectors_sync_def)
      then have "map_of (bi_entries (eg_binary st')) =
          (map_of (bi_entries binary))(as_u128 mid \<mapsto> binary_code_bytes (ak_semantic_signature (keys u)))"
        unfolding sig by (simp add: ix vectors_added_def) (rule map_of_insert_binary)
      then show "map_of (bi_entries (eg_binary st')) i =
          map_option (\<lambda>u. binary_code_bytes (ak_semantic_signature (keys u))) (unit_at r bc (eg_db st') i)"
        using vs written_other(1)[OF wr, of i] at(1) by (cases "i = as_u128 mid") (simp_all add: vectors_sync_def)
    qed
    then show ?thesis
      using rebuilt vs run wr unfolding write_memory_def written_def by blast
  qed
qed

theorem vectors_sync_spec_witness:
  "\<exists>dense binary degraded st' out. rebuild_indexes cells_redb cells_bincode demo_pair = Inr (dense, binary, degraded) \<and>
    write_memory cells_redb cells_bincode demo_backends (MemoryId 3) (demo_input ''note'')
      \<lparr>eg_db = demo_pair, eg_dense = dense, eg_binary = binary, eg_fulltext = ()\<rparr> = (st', Inr out) \<and>
    vectors_sync cells_redb cells_bincode st'"
proof -
  have sync: "store_sync cells_redb cells_bincode demo_pair"
    using demo_state_ok(1) by (simp add: demo_state_def)
  have new: "db_get cells_redb demo_pair (C128 t (as_u128 (MemoryId 3))) = None" if "t = MEMORY_LOG \<or> t = DENSE_VECTORS" for t
    using that by (auto simp: cells_redb_def demo_pair_def)
  have ext: "be_extract demo_backends (write_content (demo_input ''note'')) \<noteq> None" by (simp add: demo_backends_ok)
  from vectors_sync_spec[OF cells_redb_ok cells_bincode_ok cells_fault_free demo_backends_ok(1,2) ext sync new new]
  show ?thesis by blast
qed

end
