(* ===== verification/Engine_Consolidate.thy ===== *)
theory Engine_Consolidate
  imports Engine_Write Consolidation_Worker Consolidation_Summarize
begin

text \<open>
  Consolidation of the whole store (\<open>consolidate_api.rs\<close>): the incremental cycle (Hebbian learning,
  decay, compaction, summaries, redirection of edges to compressed memories) and the reconstruction
  of all secondary tables from the memory log. The clock, the elapsed time, the power function and
  the generated identifiers are inputs; the directory of the full-text index is a parameter.
\<close>

section \<open>Scopes and reports (lib.rs)\<close>

datatype consolidation_scope =
    CS_Full | CS_Incremental | CS_ByMemoryType content_type | CS_ByTimeRange timestamp timestamp
  | CS_Reindex | CS_EdgesOnly

record consolidation_report =
  cr_memories_processed :: u64
  cr_edges_decayed :: u64
  cr_edges_archived :: u64
  cr_edges_merged :: u64
  cr_observation_promoted :: u64
  cr_summaries_created :: u64
  cr_contradictions_found :: u64
  cr_reindexed :: bool
  cr_elapsed_ms :: u64

section \<open>Co-activations and rejections of the activation log\<close>

definition signal_weight :: "string \<Rightarrow> f32" where
  "signal_weight s =
     (if s = ''Referenced'' then f32_of_rat (5/10)
      else if s = ''TaskSucceeded'' then f32_of_rat (8/10)
      else 1)"

fun record_pairs :: "timestamp \<Rightarrow> f32 \<Rightarrow> u128 list \<Rightarrow> activation_log \<Rightarrow> activation_log" where
  "record_pairs ts w [] alog = alog"
| "record_pairs ts w (i # is) alog =
     record_pairs ts w is
       (fold (\<lambda>j l. log_record (log_record l (MemoryId i) ts w) (MemoryId j) ts w) is alog)"

definition collect_signal ::
    "activation_record \<Rightarrow> activation_log \<times> memory_id list \<Rightarrow> activation_log \<times> memory_id list" where
  "collect_signal rec acc =
     (case acc of (alog, rejected) \<Rightarrow>
        if is_positive_signal (signal rec)
        then (record_pairs (Timestamp (recorded_at_ms rec)) (signal_weight (signal rec)) (used_memory_ids rec) alog, rejected)
        else if signal rec = ''UserRejected'' \<and> used_memory_ids rec \<noteq> []
        then (alog, rejected @ map MemoryId (used_memory_ids rec))
        else (alog, rejected))"

definition collect_signals :: "('d, 'b) redb \<Rightarrow> 'b bincode \<Rightarrow> 'd \<Rightarrow> activation_log \<times> memory_id list" where
  "collect_signals r bc d =
     (case read_all_activations r bc d of
        Inr records \<Rightarrow> fold collect_signal records (\<lparr>entries = []\<rparr>, [])
      | Inl _ \<Rightarrow> (\<lparr>entries = []\<rparr>, []))"

section \<open>Summaries\<close>

definition cluster_members :: "memory_unit list \<Rightarrow> memory_id list \<Rightarrow> memory_unit list" where
  "cluster_members us cluster = List.map_filter (\<lambda>i. find_first (\<lambda>u. mem_id u = i) us) cluster"

text \<open>The summary of a cluster; \<open>generated j\<close> is the identifier generated for the cluster at position \<open>j\<close>.\<close>

definition summarize_cluster ::
    "text_env \<Rightarrow> (nat \<Rightarrow> memory_id) \<Rightarrow> memory_unit list \<Rightarrow> nat \<times> memory_id list \<Rightarrow> memory_unit list" where
  "summarize_cluster env generated us item =
     (case item of (j, cluster) \<Rightarrow>
        let members = cluster_members us cluster in
        if length members \<noteq> length cluster then []
        else let s = build_summary_unit env (generated j) members in
             if f32_of_rat (35/100) \<le> score_value (mu_confidence (understanding s)) then [s] else [])"

definition plan_summaries ::
    "text_env \<Rightarrow> algo_params \<Rightarrow> (nat \<Rightarrow> memory_id) \<Rightarrow> memory_unit list \<Rightarrow> memory_unit list" where
  "plan_summaries env ap generated us =
     concat (map (summarize_cluster env generated us)
       (enumerate 0 (plan_summary_clusters env us (summary_similarity_threshold ap) (summary_trigger_count ap)
         (summary_low_importance_threshold ap))))"

definition summary_sources :: "memory_unit \<Rightarrow> memory_id list" where
  "summary_sources s = preceding_memory_ids (mem_context s)"

definition mark_compressed :: "memory_unit list \<Rightarrow> memory_unit list \<Rightarrow> memory_unit list" where
  "mark_compressed summaries us =
     fold (\<lambda>s. map (\<lambda>u. if mem_id u \<in> set (summary_sources s)
         then u\<lparr>lifecycle := LC_Compressed (mem_id s)\<rparr> else u)) summaries us"

definition compressed_into :: "memory_unit list \<Rightarrow> memory_id \<rightharpoonup> memory_id" where
  "compressed_into summaries =
     fold (\<lambda>s. fold (\<lambda>i m. m(i \<mapsto> mem_id s)) (summary_sources s)) summaries Map.empty"

definition redirected_note :: "string option \<Rightarrow> string option" where
  "redirected_note note =
     (case note of
        Some n \<Rightarrow> Some (n @ '' [redirected to summary]'')
      | None \<Rightarrow> Some ''redirected to summary'')"

definition redirect_link :: "(memory_id \<rightharpoonup> memory_id) \<Rightarrow> association_link \<Rightarrow> association_link" where
  "redirect_link into l =
     (case into (target_id l) of
        Some s \<Rightarrow> l\<lparr>target_id := s, evidence := (evidence l)\<lparr>le_note := redirected_note (le_note (evidence l))\<rparr>\<rparr>
      | None \<Rightarrow> l)"

definition redirect_edges :: "(memory_id \<rightharpoonup> memory_id) \<Rightarrow> memory_unit list \<Rightarrow> memory_unit list" where
  "redirect_edges into us = map (\<lambda>u. u\<lparr>links := map (redirect_link into) (links u)\<rparr>) us"

section \<open>Writing the result back\<close>

definition persist_unit :: "('d, 'b) redb \<Rightarrow> 'b bincode \<Rightarrow> memory_unit \<Rightarrow> unit \<Rightarrow> ('d, unit) eng" where
  "persist_unit r bc u _ =
     eng_bind (eng_pure EE_Internal (enc (c_unit bc) u)) (\<lambda>data.
     eng_bind (eng_write engine_error_of (kv_put r (as_u128 (mem_id u)) data)) (\<lambda>_.
       eng_write EE_Store (put_outgoing r bc (mem_id u) (links u))))"

definition rewrite_input :: "memory_unit \<Rightarrow> write_memory_input" where
  "rewrite_input u =
     \<lparr>wi_content = mc_raw (content u), wi_content_type = Some (mc_content_type (content u)),
      wi_context = mem_context u, wi_importance_hint = Some (score_value (mu_importance (understanding u))),
      wi_source_refs = source_refs (mem_context u)\<rparr>"

definition patch_summary :: "memory_unit \<Rightarrow> association_link list \<Rightarrow> memory_unit \<Rightarrow> memory_unit" where
  "patch_summary s ls u =
     u\<lparr>links := ls, provenance_of := provenance_of s, stage := stage s,
       content := (content u)\<lparr>mc_summary := mc_summary (content s)\<rparr>\<rparr>"

definition persist_summary ::
    "('d, 'b) redb \<Rightarrow> 'b bincode \<Rightarrow> 'f backends \<Rightarrow> (memory_id \<rightharpoonup> memory_id) \<Rightarrow> memory_unit \<Rightarrow> unit
      \<Rightarrow> (('d, 'f) engine_state, unit) eng" where
  "persist_summary r bc be into s _ =
     eng_bind (write_internal r bc be (mem_id s) (rewrite_input s) False None) (\<lambda>_.
     let summary_links = filter (\<lambda>l. into (target_id l) = None) (links s) in
     eng_bind (on_db (eng_write EE_Store (put_outgoing r bc (mem_id s) summary_links))) (\<lambda>_.
     eng_bind (on_db (eng_read engine_error_of (kv_get r (as_u128 (mem_id s))))) (\<lambda>raw.
       case raw of
         None \<Rightarrow> eng_return ()
       | Some data \<Rightarrow>
           eng_bind (eng_pure EE_Internal (dec (c_unit bc) data)) (\<lambda>stored.
           eng_bind (eng_pure EE_Internal (enc (c_unit bc) (patch_summary s summary_links stored))) (\<lambda>re_bincode.
             on_db (eng_write engine_error_of (kv_put r (as_u128 (mem_id s)) re_bincode)))))))"

section \<open>The incremental cycle\<close>

definition consolidated_units ::
    "('d, 'b) redb \<Rightarrow> 'b bincode \<Rightarrow> (f64 \<Rightarrow> f64 \<Rightarrow> f64) \<Rightarrow> timestamp \<Rightarrow> memory_unit list \<Rightarrow> 'd
      \<Rightarrow> memory_unit list \<times> cycle_stats" where
  "consolidated_units r bc powf now us d =
     (case collect_signals r bc d of
        (alog, rejected) \<Rightarrow>
          snd (run_cycle powf \<lparr>cycle_count = 0\<rparr> us (co_activation_pairs alog 3600000) rejected now))"

definition consolidate_incremental ::
    "('d, 'b) redb \<Rightarrow> 'b bincode \<Rightarrow> 'f backends \<Rightarrow> (f64 \<Rightarrow> f64 \<Rightarrow> f64) \<Rightarrow> (nat \<Rightarrow> memory_id) \<Rightarrow> timestamp \<Rightarrow> u64
      \<Rightarrow> (('d, 'f) engine_state, consolidation_report) eng" where
  "consolidate_incremental r bc be powf generated now elapsed =
     eng_bind (on_db (eng_read (\<lambda>e. e) (load_all_units r bc))) (\<lambda>loaded.
     eng_bind (\<lambda>st. (st, Inr (consolidated_units r bc powf now loaded (eg_db st)))) (\<lambda>(cycled, stats).
     let summaries = plan_summaries (be_text be) (be_algo be) generated cycled;
         into = compressed_into summaries;
         units = redirect_edges into (mark_compressed summaries cycled) in
     eng_bind (on_db (eng_loop (persist_unit r bc) units ())) (\<lambda>_.
     eng_bind (eng_loop (persist_summary r bc be into) summaries ()) (\<lambda>_.
       eng_return
         \<lparr>cr_memories_processed = of_nat (length units) + of_nat (length summaries),
          cr_edges_decayed = edges_decayed stats, cr_edges_archived = edges_archived stats,
          cr_edges_merged = hebbian_applied stats, cr_observation_promoted = 0,
          cr_summaries_created = of_nat (length summaries), cr_contradictions_found = 0,
          cr_reindexed = False, cr_elapsed_ms = elapsed\<rparr>))))"

section \<open>Reconstruction from the memory log\<close>

text \<open>The full-text index on disk: committing, removing the directory, creating a new index.\<close>

record 'f fulltext_dir =
  fd_commit :: "'f \<Rightarrow> 'f"
  fd_remove :: "'f \<Rightarrow> string + 'f"
  fd_create :: "'f \<Rightarrow> string + 'f"

definition SECONDARY_U128 :: "u128_table list" where
  "SECONDARY_U128 = [MEMORY_KV, LINK_OVERLAY, SUMMARY_OVERLAY, CORRECTION_OVERLAY, ACTIVATION_LOG, CONSOLIDATION_QUEUE]"

definition SECONDARY_U64 :: "u64_table list" where
  "SECONDARY_U64 = [ENTITY_INDEX, TOPIC_INDEX, GOAL_INDEX, EVENT_INDEX, CAUSAL_INDEX]"

definition SECONDARY_U32 :: "u32_table list" where
  "SECONDARY_U32 = [TEMPORAL_INDEX]"

definition clear_tables :: "('d, 'b) redb \<Rightarrow> 'd \<Rightarrow> 'd" where
  "clear_tables r d =
     fold (\<lambda>t d. fold (\<lambda>(k, _). db_remove r (C32 t k)) (db_iter32 r t d) d) SECONDARY_U32
    (fold (\<lambda>t d. fold (\<lambda>(k, _). db_remove r (C64 t k)) (db_iter64 r t d) d) SECONDARY_U64
    (fold (\<lambda>t d. fold (\<lambda>(k, _). db_remove r (C128 t k)) (db_iter128 r t d) d) SECONDARY_U128 d))"

definition clear_all_secondary_tables :: "('d, 'b) redb \<Rightarrow> 'd \<Rightarrow> store_error + 'd" where
  "clear_all_secondary_tables r d = write_txn r store_error_of d (Inr (clear_tables r d))"

fun decode_log :: "'b bincode \<Rightarrow> (u128 \<times> 'b) list \<Rightarrow> engine_error + (u128 \<times> memory_unit) list" where
  "decode_log bc [] = Inr []"
| "decode_log bc ((i, data) # records) =
     and_then (map_err (\<lambda>e. EE_Internal (''failed to deserialize MemoryUnit: '' @ e)) (dec (c_unit bc) data)) (\<lambda>u.
     and_then (decode_log bc records) (\<lambda>units. Inr ((i, u) # units)))"

definition reset_fulltext :: "'f fulltext_dir \<Rightarrow> (('d, 'f) engine_state, unit) eng" where
  "reset_fulltext fd =
     eng_bind (on_state (\<lambda>st. st\<lparr>eg_fulltext := fd_commit fd (eg_fulltext st)\<rparr>)) (\<lambda>_.
     eng_bind (on_fulltext (\<lambda>e. EE_Store (''failed to delete fulltext directory: '' @ e)) (fd_remove fd)) (\<lambda>_.
       on_fulltext (\<lambda>e. EE_Store (''failed to rebuild Tantivy index: '' @ e)) (fd_create fd)))"

definition reindex_one ::
    "('d, 'b) redb \<Rightarrow> 'b bincode \<Rightarrow> 'f backends \<Rightarrow> u128 \<times> memory_unit \<Rightarrow> unit \<Rightarrow> (('d, 'f) engine_state, unit) eng" where
  "reindex_one r bc be item _ =
     eng_bind (write_internal r bc be (MemoryId (fst item)) (rewrite_input (snd item)) True None) (\<lambda>_. eng_return ())"

definition consolidate_reindex ::
    "('d, 'b) redb \<Rightarrow> 'b bincode \<Rightarrow> 'f backends \<Rightarrow> 'f fulltext_dir \<Rightarrow> u64
      \<Rightarrow> (('d, 'f) engine_state, consolidation_report) eng" where
  "consolidate_reindex r bc be fd elapsed =
     eng_bind (on_db (eng_read engine_error_of (memory_log_read_all r))) (\<lambda>raw_records.
     eng_bind (eng_pure (\<lambda>e. e) (decode_log bc raw_records)) (\<lambda>units.
     eng_bind (on_db (eng_write engine_error_of (clear_all_secondary_tables r))) (\<lambda>_.
     eng_bind (reset_fulltext fd) (\<lambda>_.
     eng_bind (on_state (\<lambda>st. st\<lparr>eg_binary := binary_index_new, eg_dense := flat_index_new\<rparr>)) (\<lambda>_.
     eng_bind (eng_loop (reindex_one r bc be) units ()) (\<lambda>_.
       eng_return
         \<lparr>cr_memories_processed = of_nat (length units), cr_edges_decayed = 0, cr_edges_archived = 0,
          cr_edges_merged = 0, cr_observation_promoted = 0, cr_summaries_created = 0,
          cr_contradictions_found = 0, cr_reindexed = True, cr_elapsed_ms = elapsed\<rparr>))))))"

definition consolidate ::
    "('d, 'b) redb \<Rightarrow> 'b bincode \<Rightarrow> 'f backends \<Rightarrow> 'f fulltext_dir \<Rightarrow> (f64 \<Rightarrow> f64 \<Rightarrow> f64) \<Rightarrow> (nat \<Rightarrow> memory_id)
      \<Rightarrow> timestamp \<Rightarrow> u64 \<Rightarrow> consolidation_scope \<Rightarrow> (('d, 'f) engine_state, consolidation_report) eng" where
  "consolidate r bc be fd powf generated now elapsed scope =
     (if scope = CS_Reindex then consolidate_reindex r bc be fd elapsed
      else consolidate_incremental r bc be powf generated now elapsed)"

section \<open>Clearing the secondary tables\<close>

fun secondary_cell :: "cell \<Rightarrow> bool" where
  "secondary_cell (C128 t _) \<longleftrightarrow> t \<in> set SECONDARY_U128"
| "secondary_cell (C64 t _) \<longleftrightarrow> t \<in> set SECONDARY_U64"
| "secondary_cell (C32 t _) \<longleftrightarrow> t \<in> set SECONDARY_U32"

lemma db_get_fold_remove:
  assumes "redb_ok r"
  shows "db_get r (fold (\<lambda>(k, _). db_remove r (mk k)) xs d) c =
    (if \<exists>k v. (k, v) \<in> set xs \<and> c = mk k then None else db_get r d c)"
proof (induction xs arbitrary: d)
  case (Cons x xs)
  then show ?case by (cases x) (auto simp: redb_get(2)[OF assms])
qed simp

text \<open>Clearing one table after the other, for the tables of one key type.\<close>

lemma db_get_clear:
  assumes r: "redb_ok r" and iter: "\<And>d t k v. (k, v) \<in> set (iter t d) \<longleftrightarrow> db_get r d (mk t k) = Some v"
    and inj: "\<And>t k t' k'. mk t k = mk t' k' \<longleftrightarrow> t = t' \<and> k = k'"
  shows "db_get r (fold (\<lambda>t d. fold (\<lambda>(k, _). db_remove r (mk t k)) (iter t d) d) ts d) c =
    (if \<exists>t k. t \<in> set ts \<and> c = mk t k then None else db_get r d c)"
proof (induction ts arbitrary: d)
  case (Cons t ts)
  have "db_get r (fold (\<lambda>(k, _). db_remove r (mk t k)) (iter t d) d) c =
      (if \<exists>k. c = mk t k then None else db_get r d c)"
    unfolding db_get_fold_remove[OF r] iter by (auto simp: not_Some_eq[symmetric] simp del: not_Some_eq)
  then show ?case by (auto simp: Cons.IH)
qed simp

lemma db_get_clear_tables:
  assumes r: "redb_ok r"
  shows "db_get r (clear_tables r d) c = (if secondary_cell c then None else db_get r d c)"
  unfolding clear_tables_def
    db_get_clear[OF r, where mk = C32 and iter = "db_iter32 r", OF redb_iter(3)[OF r] cell.inject(3)]
    db_get_clear[OF r, where mk = C64 and iter = "db_iter64 r", OF redb_iter(2)[OF r] cell.inject(2)]
    db_get_clear[OF r, where mk = C128 and iter = "db_iter128 r", OF redb_iter(1)[OF r] cell.inject(1)]
  by (cases c) auto

lemma clear_tables_empty:
  assumes r: "redb_ok r"
  shows "store_sync r bc (clear_tables r d)" "unit_at r bc (clear_tables r d) i = None"
    "db_get r (clear_tables r d) (C128 MEMORY_LOG i) = db_get r d (C128 MEMORY_LOG i)"
    "db_get r (clear_tables r d) (C128 ACTIVATION_LOG i) = None"
  by (simp_all add: store_sync_def unit_at_def db_get_clear_tables[OF r] SECONDARY_U128_def)

section \<open>Rebuilding from the log\<close>

lemma decode_log_ok:
  "(\<And>i b. (i, b) \<in> set xs \<Longrightarrow> \<exists>u. dec (c_unit bc) b = Inr u) \<Longrightarrow>
   decode_log bc xs = Inr (map (\<lambda>(i, b). (i, projr (dec (c_unit bc) b))) xs)"
proof (induction xs)
  case (Cons x xs)
  obtain i b where x: "x = (i, b)" by (cases x)
  obtain u where "dec (c_unit bc) b = Inr u" using Cons.prems[of i b] by (auto simp: x)
  moreover have "decode_log bc xs = Inr (map (\<lambda>(i, b). (i, projr (dec (c_unit bc) b))) xs)"
    by (intro Cons.IH Cons.prems) (rule list.set_intros(2))
  ultimately show ?case by (simp add: x)
qed simp

text \<open>A memory as the reconstruction leaves it: the text, type and context of the logged unit, and
  nothing of what happened to it since it was written.\<close>

definition rebuilt_from :: "memory_unit \<Rightarrow> memory_unit \<Rightarrow> bool" where
  "rebuilt_from u u' \<longleftrightarrow> mc_raw (content u') = mc_raw (content u) \<and>
     mc_content_type (content u') = mc_content_type (content u) \<and> mem_context u' = mem_context u \<and>
     lifecycle u' = LC_Active"

lemma reindex_loop:
  assumes r: "redb_ok r" "bincode_ok bc" "fault_free r" and be: "ft_accepts be" "hash_order_ok be"
    and ext: "\<And>c. be_extract be c \<noteq> None"
  shows "store_sync r bc (eg_db st) \<Longrightarrow> distinct (map fst xs) \<Longrightarrow>
    \<exists>st'. eng_loop (reindex_one r bc be) xs () st = (st', Inr ()) \<and> store_sync r bc (eg_db st') \<and>
      (\<forall>i. case map_of xs i of None \<Rightarrow> unit_at r bc (eg_db st') i = unit_at r bc (eg_db st) i
         | Some u \<Rightarrow> \<exists>u'. unit_at r bc (eg_db st') i = Some u' \<and> rebuilt_from u u') \<and>
      (\<forall>t i. t = MEMORY_LOG \<or> t = ACTIVATION_LOG \<longrightarrow> db_get r (eg_db st') (C128 t i) = db_get r (eg_db st) (C128 t i))"
proof (induction xs arbitrary: st)
  case (Cons x xs)
  obtain i u where x: "x = (i, u)" by (cases x)
  obtain st1 out u1 dense where run: "write_internal r bc be (MemoryId i) (rewrite_input u) True None st = (st1, Inr out)"
    and wr0: "written r bc (be_text be) (as_u128 (MemoryId i)) (keys u1) True dense u1 (eg_db st) (eg_db st1)"
    and u1: "content u1 = write_content (rewrite_input u)" "mem_context u1 = wi_context (rewrite_input u)" "lifecycle u1 = LC_Active"
    by (rule write_internal_run[OF r be Cons.prems(1) disjI1[OF TrueI] ext[of "write_content (rewrite_input u)"],
        where mid = "MemoryId i" and pre = None]) blast
  note wr = wr0[unfolded memory_id.sel]
  have one: "reindex_one r bc be x () st = (st1, Inr ())" using run by (simp add: reindex_one_def x)
  have sync1: "store_sync r bc (eg_db st1)" using wr by (simp add: written_def)
  then obtain st' where rest: "eng_loop (reindex_one r bc be) xs () st1 = (st', Inr ())" "store_sync r bc (eg_db st')"
    "\<forall>i. case map_of xs i of None \<Rightarrow> unit_at r bc (eg_db st') i = unit_at r bc (eg_db st1) i
         | Some u \<Rightarrow> \<exists>u'. unit_at r bc (eg_db st') i = Some u' \<and> rebuilt_from u u'"
    "\<forall>t i. t = MEMORY_LOG \<or> t = ACTIVATION_LOG \<longrightarrow> db_get r (eg_db st') (C128 t i) = db_get r (eg_db st1) (C128 t i)"
    using Cons.IH[OF sync1] Cons.prems(2) by auto
  have at1: "unit_at r bc (eg_db st1) i = Some (run_enrich_sync u1)" using wr by (simp add: written_def)
  have rebuilt: "rebuilt_from u (run_enrich_sync u1)"
    using u1 by (simp add: rebuilt_from_def write_content_def rewrite_input_def)
  have i: "map_of xs i = None" using Cons.prems(2) by (simp add: x map_of_eq_None_iff)
  have "case map_of (x # xs) j of None \<Rightarrow> unit_at r bc (eg_db st') j = unit_at r bc (eg_db st) j
      | Some u \<Rightarrow> \<exists>u'. unit_at r bc (eg_db st') j = Some u' \<and> rebuilt_from u u'" for j
    using rest(3)[rule_format, of j] at1 rebuilt i written_other(1)[OF wr, of j]
    by (cases "j = i") (auto simp: x split: option.splits)
  moreover have "db_get r (eg_db st1) (C128 t j) = db_get r (eg_db st) (C128 t j)" if "t = MEMORY_LOG \<or> t = ACTIVATION_LOG" for t j
    using wr that unfolding written_def by auto
  ultimately show ?case
    using one rest(1,2,4) by (intro exI[of _ st']) simp
qed simp

definition log_decodable :: "('d, 'b) redb \<Rightarrow> 'b bincode \<Rightarrow> 'd \<Rightarrow> bool" where
  "log_decodable r bc d \<longleftrightarrow> (\<forall>i b. db_get r d (C128 MEMORY_LOG i) = Some b \<longrightarrow> (\<exists>u. dec (c_unit bc) b = Inr u))"

definition fulltext_dir_ok :: "'f fulltext_dir \<Rightarrow> bool" where
  "fulltext_dir_ok fd \<longleftrightarrow> (\<forall>f. \<exists>f'. fd_remove fd f = Inr f') \<and> (\<forall>f. \<exists>f'. fd_create fd f = Inr f')"

lemma reset_fulltext_ok:
  assumes "fulltext_dir_ok fd"
  obtains f where "reset_fulltext fd st = (st\<lparr>eg_fulltext := f\<rparr>, Inr ())"
proof -
  obtain f1 where f1: "fd_remove fd (fd_commit fd (eg_fulltext st)) = Inr f1"
    using assms by (auto simp: fulltext_dir_ok_def)
  obtain f2 where "fd_create fd f1 = Inr f2" using assms by (auto simp: fulltext_dir_ok_def)
  with f1 show thesis by (intro that[of f2]) (simp add: reset_fulltext_def on_state_def on_fulltext_def eng_bind_def)
qed

section \<open>Writing units back\<close>

lemma store_sync_put:
  assumes sync: "store_sync r bc d"
    and get: "\<And>c. db_get r d' c = (if c = C128 MEMORY_KV j then Some b else if c = C128 LINK_OVERLAY j then Some bl
      else db_get r d c)"
    and b: "dec (c_unit bc) b = Inr u" "dec (c_links bc) bl = Inr (links u)" "mem_id u = MemoryId j"
  shows "store_sync r bc d'" "unit_at r bc d' k = (if k = j then Some u else unit_at r bc d k)"
proof -
  have "links_at r bc d' j = links u" using b by (simp add: links_at_def postings_def get)
  then show "store_sync r bc d'" by (intro store_sync_update[OF sync, of j]) (auto simp: get b)
  show "unit_at r bc d' k = (if k = j then Some u else unit_at r bc d k)" by (simp add: unit_at_def get b)
qed

lemma persist_unit_ok:
  assumes r: "redb_ok r" "bincode_ok bc" "fault_free r" and sync: "store_sync r bc d"
  obtains d' where "persist_unit r bc u x d = (d', Inr ())" "store_sync r bc d'"
    "\<And>k. unit_at r bc d' k = (if k = as_u128 (mem_id u) then Some u else unit_at r bc d k)"
    "\<And>c. \<not> graph_cell c \<Longrightarrow> db_get r d' c = db_get r d c"
proof -
  let ?j = "as_u128 (mem_id u)"
  obtain b where b: "enc (c_unit bc) u = Inr b" "dec (c_unit bc) b = Inr u"
    using bincode_okD(1)[OF r(2)] by (rule codec_okE)
  let ?d1 = "db_insert r (C128 MEMORY_KV ?j) b d"
  obtain bl where bl: "put_outgoing r bc (MemoryId ?j) (links u) ?d1 = Inr (db_insert r (C128 LINK_OVERLAY ?j) bl ?d1)"
    "dec (c_links bc) bl = Inr (links u)"
    by (rule put_outgoing_ok[OF r(2,3)])
  let ?d' = "db_insert r (C128 LINK_OVERLAY ?j) bl ?d1"
  have run: "persist_unit r bc u x d = (?d', Inr ())"
    using b(1) bl(1) r(3) by (simp add: persist_unit_def kv_put_def)
  have get: "db_get r ?d' c = (if c = C128 MEMORY_KV ?j then Some b else if c = C128 LINK_OVERLAY ?j then Some bl
      else db_get r d c)" for c
    by (simp add: redb_get[OF r(1)])
  show thesis
    using store_sync_put[OF sync get b(2) bl(2)] by (intro that[OF run]) (auto simp: get graph_cell_def)
qed

lemma persist_units_ok:
  assumes r: "redb_ok r" "bincode_ok bc" "fault_free r"
  shows "store_sync r bc d \<Longrightarrow> distinct (map mem_id us) \<Longrightarrow>
    \<exists>d'. eng_loop (persist_unit r bc) us () d = (d', Inr ()) \<and> store_sync r bc d' \<and>
      (\<forall>u \<in> set us. unit_at r bc d' (as_u128 (mem_id u)) = Some u) \<and>
      (\<forall>k. MemoryId k \<notin> mem_id ` set us \<longrightarrow> unit_at r bc d' k = unit_at r bc d k) \<and>
      (\<forall>c. \<not> graph_cell c \<longrightarrow> db_get r d' c = db_get r d c)"
proof (induction us arbitrary: d)
  case (Cons u us)
  obtain d1 where one: "persist_unit r bc u () d = (d1, Inr ())" "store_sync r bc d1"
    "\<And>k. unit_at r bc d1 k = (if k = as_u128 (mem_id u) then Some u else unit_at r bc d k)"
    "\<And>c. \<not> graph_cell c \<Longrightarrow> db_get r d1 c = db_get r d c"
    by (rule persist_unit_ok[OF r Cons.prems(1), where u = u and x = "()"]) (rule that)
  then obtain d' where rest: "eng_loop (persist_unit r bc) us () d1 = (d', Inr ())" "store_sync r bc d'"
    "\<forall>u \<in> set us. unit_at r bc d' (as_u128 (mem_id u)) = Some u"
    "\<forall>k. MemoryId k \<notin> mem_id ` set us \<longrightarrow> unit_at r bc d' k = unit_at r bc d1 k"
    "\<forall>c. \<not> graph_cell c \<longrightarrow> db_get r d' c = db_get r d1 c"
    using Cons.IH[OF one(2)] Cons.prems(2) by auto
  have "unit_at r bc d' (as_u128 (mem_id u)) = Some u"
    using rest(4) one(3) Cons.prems(2) by simp
  with one rest show ?case by (intro exI[of _ d']) auto
qed simp

section \<open>Summaries of a cycle\<close>

lemma cluster_membersD: "u \<in> set (cluster_members us cluster) \<Longrightarrow> u \<in> set us"
  unfolding cluster_members_def
  by (induction cluster) (auto simp: List.map_filter_simps split: option.splits dest: find_first_Some)

text \<open>Every planned summary is built from stored units, under an identifier generated for its cluster.\<close>

lemma plan_summariesE:
  assumes "s \<in> set (plan_summaries env ap gen us)"
  obtains j members where "s = build_summary_unit env (gen j) members" "set members \<subseteq> set us"
proof -
  obtain j cl where "s = build_summary_unit env (gen j) (cluster_members us cl)"
    using assms by (auto simp: plan_summaries_def summarize_cluster_def Let_def split: if_splits)
  then show thesis using cluster_membersD[of _ us cl] by (intro that) auto
qed

lemma length_clusters: "length (plan_summary_clusters env us th trigger low) \<le> length us"
proof -
  have "length (cluster_loop th trigger low cs) \<le> length cs" for cs
  proof (induction th trigger low cs rule: cluster_loop.induct)
    case (2 th trigger low pivot cs)
    have "length (cluster_loop th trigger low (filter (\<lambda>c. \<not> similar_to th pivot c) cs)) \<le> length cs"
      using 2[OF refl] by (rule order_trans) (rule length_filter_le)
    then show ?case by (simp add: Let_def)
  qed simp
  also have "length (summary_candidates env us) \<le> length us"
    unfolding summary_candidates_def length_sort_by
    by (rule order_trans[OF length_filter_le]) (simp add: order_trans[OF length_filter_le])
  finally show ?thesis by (simp add: plan_summary_clusters_def)
qed

text \<open>The identifiers of the summaries, in the order of generation.\<close>

lemma summary_ids:
  obtains js where "map mem_id (plan_summaries env ap gen us) = map gen js" "distinct js" "set js \<subseteq> {..<length us}"
proof -
  have one: "map mem_id (summarize_cluster env gen us (j, cl)) = (if summarize_cluster env gen us (j, cl) = [] then [] else [gen j])" for j cl
    by (simp add: summarize_cluster_def Let_def)
  have "\<exists>js. map mem_id (concat (map (summarize_cluster env gen us) (enumerate n cls))) = map gen js \<and>
      distinct js \<and> set js \<subseteq> {n..<n + length cls}" for n cls
  proof (induction cls arbitrary: n)
    case (Cons cl cls)
    obtain js where js: "map mem_id (concat (map (summarize_cluster env gen us) (enumerate (Suc n) cls))) = map gen js"
      "distinct js" "set js \<subseteq> {Suc n..<Suc n + length cls}" using Cons[of "Suc n"] by blast
    let ?js = "(if summarize_cluster env gen us (n, cl) = [] then [] else [n]) @ js"
    have "map mem_id (concat (map (summarize_cluster env gen us) (enumerate n (cl # cls)))) = map gen ?js"
      using one[of n cl] js(1) by simp
    moreover have "distinct ?js" "set ?js \<subseteq> {n..<n + length (cl # cls)}" using js(2,3) by auto
    ultimately show ?case by blast
  qed simp
  from this[of 0 "plan_summary_clusters env us (summary_similarity_threshold ap) (summary_trigger_count ap)
      (summary_low_importance_threshold ap)"]
  obtain js where js: "map mem_id (plan_summaries env ap gen us) = map gen js" "distinct js"
    "set js \<subseteq> {..<length (plan_summary_clusters env us (summary_similarity_threshold ap) (summary_trigger_count ap)
      (summary_low_importance_threshold ap))}"
    by (auto simp: plan_summaries_def atLeast0LessThan)
  then show thesis using that[OF js(1,2)] length_clusters order_trans[OF js(3)] by (simp add: lessThan_subset_iff)
qed

lemma plan_summaries_facts:
  shows "s \<in> set (plan_summaries env ap gen us) \<Longrightarrow> \<exists>j < length us. mem_id s = gen j"
    and "s \<in> set (plan_summaries env ap gen us) \<Longrightarrow> set (summary_sources s) \<subseteq> mem_id ` set us"
    and "s \<in> set (plan_summaries env ap gen us) \<Longrightarrow> target_id ` set (links s) = set (summary_sources s)"
    and "inj_on gen {..<length us} \<Longrightarrow> distinct (map mem_id (plan_summaries env ap gen us))"
proof -
  obtain js where js: "map mem_id (plan_summaries env ap gen us) = map gen js" "distinct js" "set js \<subseteq> {..<length us}"
    by (rule summary_ids)
  show "inj_on gen {..<length us} \<Longrightarrow> distinct (map mem_id (plan_summaries env ap gen us))"
    unfolding js(1) using js(2,3) by (auto simp: distinct_map intro: inj_on_subset)
  assume s: "s \<in> set (plan_summaries env ap gen us)"
  then have "mem_id s \<in> set (map gen js)" unfolding js(1)[symmetric] by simp
  then show "\<exists>j < length us. mem_id s = gen j" using js(3) by auto
  obtain j members where "s = build_summary_unit env (gen j) members" "set members \<subseteq> set us"
    using s by (rule plan_summariesE)
  then show "set (summary_sources s) \<subseteq> mem_id ` set us" "target_id ` set (links s) = set (summary_sources s)"
    by (auto simp: summary_sources_def covers_link_def image_image)
qed

lemma dom_compressed_into: "dom (compressed_into ss) = (\<Union>s \<in> set ss. set (summary_sources s))"
proof -
  have inner: "dom (fold (\<lambda>i m. m(i \<mapsto> t)) is m) = dom m \<union> set is" for "is" :: "memory_id list" and t :: memory_id and m
    by (induction "is" arbitrary: m) auto
  have "dom (fold (\<lambda>s. fold (\<lambda>i m. m(i \<mapsto> mem_id s)) (summary_sources s)) ss m) =
      dom m \<union> (\<Union>s \<in> set ss. set (summary_sources s))" for m
    by (induction ss arbitrary: m) (auto simp: inner)
  then show ?thesis by (simp add: compressed_into_def)
qed

lemma ran_compressed_into: "ran (compressed_into ss) \<subseteq> mem_id ` set ss"
proof -
  have inner: "ran (fold (\<lambda>i m. m(i \<mapsto> t)) is m) \<subseteq> insert t (ran m)" for "is" :: "memory_id list" and t :: memory_id and m
  proof (induction "is" arbitrary: m)
    case (Cons i "is")
    have "ran (m(i \<mapsto> t)) \<subseteq> insert t (ran m)" by (auto simp: ran_def)
    with Cons[of "m(i \<mapsto> t)"] show ?case unfolding fold_simps by blast
  qed auto
  have "ran (fold (\<lambda>s. fold (\<lambda>i m. m(i \<mapsto> mem_id s)) (summary_sources s)) ss m) \<subseteq> ran m \<union> mem_id ` set ss" for m
  proof (induction ss arbitrary: m)
    case (Cons s ss)
    from Cons[of "fold (\<lambda>i m. m(i \<mapsto> mem_id s)) (summary_sources s) m"] inner[of "mem_id s" "summary_sources s" m]
    show ?case unfolding fold_simps list.set image_insert by blast
  qed simp
  from this[of Map.empty] show ?thesis by (simp add: compressed_into_def)
qed

text \<open>A persisted summary has lost the edges to its sources, which are compressed, but names them in its
  context.\<close>

definition stored_summary :: "memory_unit \<Rightarrow> memory_unit \<Rightarrow> bool" where
  "stored_summary s u \<longleftrightarrow> mc_raw (content u) = mc_raw (content s) \<and> summary_sources u = summary_sources s \<and>
     provenance_of u = provenance_of s \<and> stage u = stage s \<and> links u = []"

lemma persist_summary_ok:
  assumes r: "redb_ok r" "bincode_ok bc" "fault_free r" and be: "ft_accepts be" "hash_order_ok be"
    and ext: "\<And>c. be_extract be c \<noteq> None" and sync: "store_sync r bc (eg_db st)"
    and new: "db_get r (eg_db st) (C128 MEMORY_LOG (as_u128 (mem_id s))) = None"
    and covered: "target_id ` set (links s) \<subseteq> dom into"
  obtains st' u where "persist_summary r bc be into s x st = (st', Inr ())" "store_sync r bc (eg_db st')"
    "unit_at r bc (eg_db st') (as_u128 (mem_id s)) = Some u" "stored_summary s u"
    "\<And>k. k \<noteq> as_u128 (mem_id s) \<Longrightarrow> unit_at r bc (eg_db st') k = unit_at r bc (eg_db st) k"
    "\<And>k. k \<noteq> as_u128 (mem_id s) \<Longrightarrow> db_get r (eg_db st') (C128 MEMORY_LOG k) = db_get r (eg_db st) (C128 MEMORY_LOG k)"
proof -
  let ?i = "as_u128 (mem_id s)"
  have no: "filter (\<lambda>l. into (target_id l) = None) (links s) = []"
    using covered by (force simp: filter_empty_conv)
  obtain st1 out u1 dense where run: "write_internal r bc be (mem_id s) (rewrite_input s) False None st = (st1, Inr out)"
    and wr: "written r bc (be_text be) ?i (keys u1) False dense u1 (eg_db st) (eg_db st1)"
    and u1: "mem_id u1 = mem_id s" "content u1 = write_content (rewrite_input s)" "mem_context u1 = wi_context (rewrite_input s)"
    by (rule write_internal_run[OF r be sync disjI2[OF new] ext, where input = "rewrite_input s" and pre = None]) blast
  have at1: "unit_at r bc (eg_db st1) ?i = Some (run_enrich_sync u1)" and sync1: "store_sync r bc (eg_db st1)"
    using wr by (simp_all add: written_def)
  then obtain v where v: "db_get r (eg_db st1) (C128 MEMORY_KV ?i) = Some v" "dec (c_unit bc) v = Inr (run_enrich_sync u1)"
    by (auto simp: unit_at_def split: option.splits elim!: store_syncD[OF sync1])
  obtain bl where bl: "put_outgoing r bc (MemoryId ?i) [] (eg_db st1) = Inr (db_insert r (C128 LINK_OVERLAY ?i) bl (eg_db st1))"
    "dec (c_links bc) bl = Inr []"
    by (rule put_outgoing_ok[OF r(2,3)])
  let ?u = "patch_summary s [] (run_enrich_sync u1)"
  obtain b where b: "enc (c_unit bc) ?u = Inr b" "dec (c_unit bc) b = Inr ?u"
    using bincode_okD(1)[OF r(2)] by (rule codec_okE)
  let ?d2 = "db_insert r (C128 MEMORY_KV ?i) b (db_insert r (C128 LINK_OVERLAY ?i) bl (eg_db st1))"
  have id: "mem_id ?u = MemoryId ?i" "links ?u = []" using u1(1) by (simp_all add: patch_summary_def)
  have get: "db_get r ?d2 c = (if c = C128 MEMORY_KV ?i then Some b else if c = C128 LINK_OVERLAY ?i then Some bl
      else db_get r (eg_db st1) c)" for c
    by (simp add: redb_get[OF r(1)])
  have bl': "dec (c_links bc) bl = Inr (links ?u)" using bl(2) id(2) by simp
  note put = store_sync_put[OF sync1 get b(2) bl' id(1)]
  have persisted: "persist_summary r bc be into s x st = (st1\<lparr>eg_db := ?d2\<rparr>, Inr ())"
    using run bl(1) v b(1) r(3)
    by (simp add: persist_summary_def no kv_get_def kv_put_def redb_get[OF r(1)])
  have summary: "stored_summary s ?u"
    using u1 by (simp add: stored_summary_def patch_summary_def summary_sources_def write_content_def rewrite_input_def)
  show thesis
    by (rule that[OF persisted, of ?u]) (use put summary written_other(1,2)[OF wr] in \<open>simp_all add: get\<close>)
qed

lemma persist_summaries_ok:
  assumes r: "redb_ok r" "bincode_ok bc" "fault_free r" and be: "ft_accepts be" "hash_order_ok be"
    and ext: "\<And>c. be_extract be c \<noteq> None"
  shows "store_sync r bc (eg_db st) \<Longrightarrow> distinct (map mem_id ss) \<Longrightarrow>
    (\<And>s. s \<in> set ss \<Longrightarrow> db_get r (eg_db st) (C128 MEMORY_LOG (as_u128 (mem_id s))) = None \<and>
      target_id ` set (links s) \<subseteq> dom into) \<Longrightarrow>
    \<exists>st'. eng_loop (persist_summary r bc be into) ss () st = (st', Inr ()) \<and> store_sync r bc (eg_db st') \<and>
      (\<forall>s \<in> set ss. \<exists>u. unit_at r bc (eg_db st') (as_u128 (mem_id s)) = Some u \<and> stored_summary s u) \<and>
      (\<forall>k. MemoryId k \<notin> mem_id ` set ss \<longrightarrow> unit_at r bc (eg_db st') k = unit_at r bc (eg_db st) k \<and>
        db_get r (eg_db st') (C128 MEMORY_LOG k) = db_get r (eg_db st) (C128 MEMORY_LOG k))"
proof (induction ss arbitrary: st)
  case (Cons s ss)
  obtain st1 u where one: "persist_summary r bc be into s () st = (st1, Inr ())" "store_sync r bc (eg_db st1)"
    "unit_at r bc (eg_db st1) (as_u128 (mem_id s)) = Some u" "stored_summary s u"
    "\<And>k. k \<noteq> as_u128 (mem_id s) \<Longrightarrow> unit_at r bc (eg_db st1) k = unit_at r bc (eg_db st) k"
    "\<And>k. k \<noteq> as_u128 (mem_id s) \<Longrightarrow> db_get r (eg_db st1) (C128 MEMORY_LOG k) = db_get r (eg_db st) (C128 MEMORY_LOG k)"
    by (rule persist_summary_ok[OF r be ext Cons.prems(1), where s = s and into = into and x = "()"])
      (use Cons.prems(3)[of s] in \<open>auto intro: that\<close>)
  have other: "as_u128 (mem_id s') \<noteq> as_u128 (mem_id s)" if "s' \<in> set ss" for s'
    using that Cons.prems(2) memory_id.expand by (metis distinct.simps(2) image_eqI list.set_map list.simps(9))
  then obtain st' where rest: "eng_loop (persist_summary r bc be into) ss () st1 = (st', Inr ())" "store_sync r bc (eg_db st')"
    "\<forall>s \<in> set ss. \<exists>u. unit_at r bc (eg_db st') (as_u128 (mem_id s)) = Some u \<and> stored_summary s u"
    "\<forall>k. MemoryId k \<notin> mem_id ` set ss \<longrightarrow> unit_at r bc (eg_db st') k = unit_at r bc (eg_db st1) k \<and>
        db_get r (eg_db st') (C128 MEMORY_LOG k) = db_get r (eg_db st1) (C128 MEMORY_LOG k)"
    using Cons.IH[OF one(2)] Cons.prems(2,3) one(6) by (auto simp del: distinct_map)
  have "unit_at r bc (eg_db st') (as_u128 (mem_id s)) = Some u"
    using rest(4) one(3) Cons.prems(2) by simp
  moreover have "unit_at r bc (eg_db st') k = unit_at r bc (eg_db st) k \<and>
      db_get r (eg_db st') (C128 MEMORY_LOG k) = db_get r (eg_db st) (C128 MEMORY_LOG k)"
    if "MemoryId k \<notin> mem_id ` set (s # ss)" for k
  proof -
    have "k \<noteq> as_u128 (mem_id s)" using that by auto
    then show ?thesis using rest(4) that one(5,6) by simp
  qed
  ultimately show ?case using one(1,4) rest(1,2,3) by (intro exI[of _ st']) auto
qed simp

section \<open>The units of a cycle\<close>

definition mark_unit :: "memory_unit list \<Rightarrow> memory_unit \<Rightarrow> memory_unit" where
  "mark_unit ss = fold (\<lambda>s u. if mem_id u \<in> set (summary_sources s) then u\<lparr>lifecycle := LC_Compressed (mem_id s)\<rparr> else u) ss"

lemma mark_compressed_map: "mark_compressed ss us = map (mark_unit ss) us"
proof (induction ss arbitrary: us)
  case (Cons s ss)
  then show ?case by (simp add: mark_compressed_def mark_unit_def)
qed (simp add: mark_compressed_def mark_unit_def)

lemma mark_unit_frame:
  "\<exists>lc. mark_unit ss u = u\<lparr>lifecycle := lc\<rparr> \<and>
    (lc = lifecycle u \<or> (\<exists>s \<in> set ss. lc = LC_Compressed (mem_id s) \<and> mem_id u \<in> set (summary_sources s)))"
proof (induction ss arbitrary: u)
  case Nil
  show ?case by (auto simp: mark_unit_def intro: exI[of _ "lifecycle u"])
next
  case (Cons s ss)
  let ?u = "if mem_id u \<in> set (summary_sources s) then u\<lparr>lifecycle := LC_Compressed (mem_id s)\<rparr> else u"
  have "mark_unit (s # ss) u = mark_unit ss ?u" by (simp add: mark_unit_def)
  with Cons[of ?u] show ?case by (auto split: if_splits)
qed

lemma redirect_link_simps [simp]:
  "link_wf (redirect_link into l) = link_wf l" "strength (redirect_link into l) = strength l"
  "link_type (redirect_link into l) = link_type l"
  "target_id (redirect_link into l) = (case into (target_id l) of Some s \<Rightarrow> s | None \<Rightarrow> target_id l)"
  by (simp_all add: redirect_link_def link_wf_def split: option.split)

text \<open>What a cycle may do to a stored unit: its edges are those of the worker's cycle, well formed and at
  most 64, none of them points to a memory compressed in this cycle; the lifecycle changes only by
  compression; everything else is kept.\<close>

definition cycled :: "memory_unit list \<Rightarrow> memory_unit \<Rightarrow> memory_unit \<Rightarrow> bool" where
  "cycled ss u u' \<longleftrightarrow> u'\<lparr>links := links u, lifecycle := lifecycle u\<rparr> = u \<and>
     (lifecycle u' = lifecycle u \<or> (\<exists>s \<in> set ss. lifecycle u' = LC_Compressed (mem_id s) \<and> mem_id u \<in> set (summary_sources s))) \<and>
     length (links u') \<le> 64 \<and> (edges_ok u \<longrightarrow> links_wf (links u')) \<and>
     (\<forall>l \<in> set (links u'). \<forall>s \<in> set ss. target_id l \<notin> set (summary_sources s))"

lemma cycled_unit:
  assumes powf: "powf_half_ok powf" and fresh: "\<And>s s'. s \<in> set ss \<Longrightarrow> s' \<in> set ss \<Longrightarrow> mem_id s \<notin> set (summary_sources s')"
    and u1: "u1 = cycle_unit powf coact rejected now u"
    and u': "u' = (mark_unit ss u1)\<lparr>links := map (redirect_link (compressed_into ss)) (links (mark_unit ss u1))\<rparr>"
  shows "cycled ss u u'" "mem_id u' = mem_id u"
proof -
  note step = cycle_unit_step[OF powf, of coact rejected now]
  obtain ls where ls: "u1 = u\<lparr>links := ls\<rparr>" using unit_step.step_links_only[OF step] u1 by blast
  obtain lc where lc: "mark_unit ss u1 = u1\<lparr>lifecycle := lc\<rparr>"
    "lc = lifecycle u1 \<or> (\<exists>s \<in> set ss. lc = LC_Compressed (mem_id s) \<and> mem_id u1 \<in> set (summary_sources s))"
    using mark_unit_frame[of ss u1] by blast
  have eq: "u' = u\<lparr>links := map (redirect_link (compressed_into ss)) ls, lifecycle := lc\<rparr>"
    unfolding u' lc(1) by (simp add: ls)
  have len: "length ls \<le> 64" using cycle_unit_degree[of powf coact rejected now u] by (simp add: u1[symmetric] ls)
  have wf: "links_wf ls" if "edges_ok u"
    using unit_step.step_edges_ok[OF step that] by (simp add: u1[symmetric] ls edges_ok_def)
  have "target_id (redirect_link (compressed_into ss) l) \<notin> set (summary_sources s)" if "s \<in> set ss" for l s
  proof (cases "compressed_into ss (target_id l)")
    case None
    then have "target_id l \<notin> dom (compressed_into ss)" by auto
    with None that show ?thesis by (auto simp: dom_compressed_into)
  next
    case (Some t)
    then have "t \<in> mem_id ` set ss" using ran_compressed_into[of ss] by (auto simp: ran_def)
    with Some fresh that show ?thesis by auto
  qed
  then show "cycled ss u u'"
    using lc(2) len wf by (auto simp: cycled_def eq ls links_wf_def list_all_iff)
  show "mem_id u' = mem_id u" by (simp add: eq)
qed

text \<open>Writing back the units of a cycle and its summaries.\<close>

definition final_unit :: "memory_unit list \<Rightarrow> memory_unit \<Rightarrow> memory_unit" where
  "final_unit ss u = (mark_unit ss u)\<lparr>links := map (redirect_link (compressed_into ss)) (links (mark_unit ss u))\<rparr>"

lemma final_units: "redirect_edges (compressed_into ss) (mark_compressed ss us) = map (final_unit ss) us"
  by (simp add: redirect_edges_def mark_compressed_map final_unit_def)

definition consolidated ::
    "('d, 'b) redb \<Rightarrow> 'b bincode \<Rightarrow> memory_unit list \<Rightarrow> 'd \<Rightarrow> 'd \<Rightarrow> bool" where
  "consolidated r bc ss d d' \<longleftrightarrow> store_sync r bc d' \<and>
     (\<forall>i u. unit_at r bc d i = Some u \<longrightarrow> (\<exists>u'. unit_at r bc d' i = Some u' \<and> cycled ss u u')) \<and>
     (\<forall>s \<in> set ss. \<exists>u. unit_at r bc d' (as_u128 (mem_id s)) = Some u \<and> stored_summary s u) \<and>
     (\<forall>i. unit_at r bc d' i \<noteq> None \<longrightarrow> unit_at r bc d i \<noteq> None \<or> MemoryId i \<in> mem_id ` set ss) \<and>
     (\<forall>i b. db_get r d (C128 MEMORY_LOG i) = Some b \<longrightarrow> db_get r d' (C128 MEMORY_LOG i) = Some b)"

lemma persist_cycle_ok:
  assumes r: "redb_ok r" "bincode_ok bc" "fault_free r" and be: "ft_accepts be" "hash_order_ok be"
    and ext: "\<And>c. be_extract be c \<noteq> None" and sync: "store_sync r bc (eg_db st)"
    and us: "distinct (map mem_id us)" "\<And>u. u \<in> set us \<longleftrightarrow> unit_at r bc (eg_db st) (as_u128 (mem_id u)) = Some u"
    and final: "\<And>u. mem_id (f u) = mem_id u" "\<And>u. cycled ss u (f u)"
    and ss: "distinct (map mem_id ss)" "\<And>s. s \<in> set ss \<Longrightarrow> target_id ` set (links s) = set (summary_sources s)"
      "\<And>s. s \<in> set ss \<Longrightarrow> db_get r (eg_db st) (C128 MEMORY_LOG (as_u128 (mem_id s))) = None"
      "\<And>s. s \<in> set ss \<Longrightarrow> unit_at r bc (eg_db st) (as_u128 (mem_id s)) = None"
  shows "\<exists>d1 st'. eng_loop (persist_unit r bc) (map f us) () (eg_db st) = (d1, Inr ()) \<and>
    eng_loop (persist_summary r bc be (compressed_into ss)) ss () (st\<lparr>eg_db := d1\<rparr>) = (st', Inr ()) \<and>
    consolidated r bc ss (eg_db st) (eg_db st')"
proof -
  have fids: "mem_id ` set (map f us) = mem_id ` set us" by (simp add: image_image final(1))
  have "distinct (map mem_id (map f us))" using us(1) by (simp add: comp_def final(1))
  from persist_units_ok[OF r sync this] obtain d1 where d1:
      "eng_loop (persist_unit r bc) (map f us) () (eg_db st) = (d1, Inr ())" "store_sync r bc d1"
      "\<forall>u \<in> set (map f us). unit_at r bc d1 (as_u128 (mem_id u)) = Some u"
      "\<forall>k. MemoryId k \<notin> mem_id ` set us \<longrightarrow> unit_at r bc d1 k = unit_at r bc (eg_db st) k"
      "\<forall>c. \<not> graph_cell c \<longrightarrow> db_get r d1 c = db_get r (eg_db st) c"
    unfolding fids by blast
  have log1: "db_get r d1 (C128 MEMORY_LOG k) = db_get r (eg_db st) (C128 MEMORY_LOG k)" for k
    using d1(5) by (simp add: graph_cell_def)
  have pre: "store_sync r bc (eg_db (st\<lparr>eg_db := d1\<rparr>))"
    "\<And>s. s \<in> set ss \<Longrightarrow> db_get r (eg_db (st\<lparr>eg_db := d1\<rparr>)) (C128 MEMORY_LOG (as_u128 (mem_id s))) = None \<and>
      target_id ` set (links s) \<subseteq> dom (compressed_into ss)"
    using d1(2) ss(2,3) by (auto simp: log1 dom_compressed_into)
  from persist_summaries_ok[OF r be ext pre(1) ss(1) pre(2)] obtain st' where st':
      "eng_loop (persist_summary r bc be (compressed_into ss)) ss () (st\<lparr>eg_db := d1\<rparr>) = (st', Inr ())"
      "store_sync r bc (eg_db st')"
      "\<forall>s \<in> set ss. \<exists>u. unit_at r bc (eg_db st') (as_u128 (mem_id s)) = Some u \<and> stored_summary s u"
      "\<forall>k. MemoryId k \<notin> mem_id ` set ss \<longrightarrow> unit_at r bc (eg_db st') k = unit_at r bc (eg_db (st\<lparr>eg_db := d1\<rparr>)) k \<and>
        db_get r (eg_db st') (C128 MEMORY_LOG k) = db_get r (eg_db (st\<lparr>eg_db := d1\<rparr>)) (C128 MEMORY_LOG k)"
    by blast
  have old: "MemoryId i \<notin> mem_id ` set ss" if "unit_at r bc (eg_db st) i \<noteq> None \<or> db_get r (eg_db st) (C128 MEMORY_LOG i) \<noteq> None" for i
  proof
    assume "MemoryId i \<in> mem_id ` set ss"
    then obtain s where "s \<in> set ss" "as_u128 (mem_id s) = i" by (metis imageE memory_id.sel)
    then show False using that ss(3,4)[of s] by simp
  qed
  have "\<exists>u'. unit_at r bc (eg_db st') i = Some u' \<and> cycled ss u u'" if u: "unit_at r bc (eg_db st) i = Some u" for i u
  proof -
    have i: "mem_id u = MemoryId i" by (rule unit_at_mem_id[OF sync u])
    then have "f u \<in> set (map f us)" using u us(2) by simp
    then have "unit_at r bc d1 i = Some (f u)" using bspec[OF d1(3), of "f u"] final(1)[of u] i by simp
    then show ?thesis using st'(4) old[of i] u final(2) by auto
  qed
  moreover have "unit_at r bc (eg_db st) i \<noteq> None \<or> MemoryId i \<in> mem_id ` set ss" if "unit_at r bc (eg_db st') i \<noteq> None" for i
  proof (cases "MemoryId i \<in> mem_id ` set us")
    case True
    then obtain u where "u \<in> set us" "mem_id u = MemoryId i" by auto
    then show ?thesis using us(2)[of u] by simp
  next
    case False
    then show ?thesis using that st'(4) d1(4) by auto
  qed
  moreover have "db_get r (eg_db st') (C128 MEMORY_LOG i) = Some b" if "db_get r (eg_db st) (C128 MEMORY_LOG i) = Some b" for i b
    using that st'(4) old[of i] log1 by auto
  ultimately have "consolidated r bc ss (eg_db st) (eg_db st')"
    using st'(2,3) unfolding consolidated_def by blast
  with d1(1) st'(1) show ?thesis by blast
qed

section \<open>Properties\<close>


text \<open>The number of stored memories bounds the number of summaries.\<close>

definition stored_count :: "('d, 'b) redb \<Rightarrow> 'd \<Rightarrow> nat" where
  "stored_count r d = length (db_iter128 r MEMORY_KV d)"

lemma load_all_units_count:
  assumes "fault_free r" "load_all_units r bc d = Inr us"
  shows "length us \<le> stored_count r d"
  using assms by (auto simp: load_all_units_def stored_count_def List.map_filter_def)


text \<open>Witnesses: the store of two memories is consolidated; a logged but deleted memory is rebuilt.\<close>

definition demo_fulltext :: "unit fulltext_dir" where
  "demo_fulltext = \<lparr>fd_commit = (\<lambda>f. f), fd_remove = Inr, fd_create = Inr\<rparr>"



text \<open>The redirection does not check for duplicates. A memory with edges of one type to two
  memories that are compressed into the same summary is left with two edges of that type to the
  summary, so the edges of a unit are no longer unique.\<close>

theorem redirect_duplicates:
  assumes "into a = Some s" "into b = Some s" "link_type la = link_type lb" "target_id la = a" "target_id lb = b"
    and "{la, lb} \<subseteq> set (links u)" "la \<noteq> lb" "u' \<in> set (redirect_edges into [u])"
  shows "\<not> links_unique (links u')"
proof -
  from assms(6,7) obtain i j where ij: "i < length (links u)" "j < length (links u)" "i \<noteq> j"
    "links u ! i = la" "links u ! j = lb"
    by (metis in_set_conv_nth insert_subset)
  have "map link_key (links u') ! i = map link_key (links u') ! j"
    using assms ij by (simp add: redirect_edges_def link_key_def)
  with ij assms(8) show ?thesis
    by (auto simp: links_unique_def redirect_edges_def distinct_conv_nth)
qed

theorem redirect_duplicates_witness:
  "\<not> links_unique (links (hd (redirect_edges [MemoryId 1 \<mapsto> MemoryId 9, MemoryId 2 \<mapsto> MemoryId 9]
      [demo_unit 3 ''m'' [demo_link 1 LT_Causal (1/2), demo_link 2 LT_Causal (1/2)]])))"
  by (rule redirect_duplicates[where a = "MemoryId 1" and b = "MemoryId 2" and s = "MemoryId 9"
        and la = "demo_link 1 LT_Causal (1/2)" and lb = "demo_link 2 LT_Causal (1/2)"
        and u = "demo_unit 3 ''m'' [demo_link 1 LT_Causal (1/2), demo_link 2 LT_Causal (1/2)]"])
    (simp_all add: demo_link_def redirect_edges_def)

end
