(* ===== verification/Model_Time_Query.thy ===== *)
theory Model_Time_Query
  imports Core_Time Model_Lang
begin

text \<open>
  Temporal expressions in queries (\<open>time_query.rs\<close>): ranges, absolute dates in Chinese, ISO and
  English form, and the relative terms of the word lists. Days are counted from 1970-01-01. The
  theorems bound what a query can ask for and show that the relative terms denote the calendar
  periods they name.
\<close>

section \<open>Numbers and trimming\<close>

definition is_digit :: "nat \<Rightarrow> bool" where
  "is_digit c \<longleftrightarrow> 48 \<le> c \<and> c \<le> 57"

definition digits_value :: "nat list \<Rightarrow> nat" where
  "digits_value ds = foldl (\<lambda>n c. 10 * n + (c - 48)) 0 ds"

definition parse_digits :: "nat list \<Rightarrow> nat option" where
  "parse_digits cs = (if cs \<noteq> [] \<and> list_all is_digit cs then Some (digits_value cs) else None)"

text \<open>\<open>str::parse\<close> for \<open>u32\<close> and \<open>i64\<close>: an optional sign (only \<open>+\<close> for \<open>u32\<close>), digits, no overflow.\<close>

definition parse_u32 :: "string \<Rightarrow> nat option" where
  "parse_u32 s =
     (case parse_digits (case chars s of c # cs \<Rightarrow> if c = 43 then cs else c # cs | [] \<Rightarrow> []) of
        Some n \<Rightarrow> if n < 2 ^ 32 then Some n else None
      | None \<Rightarrow> None)"

definition parse_i64 :: "string \<Rightarrow> i64 option" where
  "parse_i64 s =
     (case chars s of
        [] \<Rightarrow> None
      | c # cs \<Rightarrow>
          (case parse_digits (if c = 43 \<or> c = 45 then cs else c # cs) of
             Some n \<Rightarrow> let v = (if c = 45 then - int n else int n) in if i64_range v then Some v else None
           | None \<Rightarrow> None))"

definition trim_start :: "string \<Rightarrow> string" where
  "trim_start s = of_chars (dropWhile is_whitespace (chars s))"

definition trim_end :: "string \<Rightarrow> string" where
  "trim_end s = of_chars (rev (dropWhile is_whitespace (rev (chars s))))"

definition ends_with :: "string \<Rightarrow> string \<Rightarrow> bool" where
  "ends_with s pat \<longleftrightarrow> starts_with (rev s) (rev pat)"

text \<open>The text before and after the first occurrence of a marker.\<close>

definition split_at :: "string \<Rightarrow> string \<Rightarrow> (string \<times> string) option" where
  "split_at s pat = map_option (\<lambda>i. (take i s, drop (i + length pat) s)) (str_find s pat)"

definition year_mark :: string where "year_mark = of_chars [0x5E74]"

definition month_mark :: string where "month_mark = of_chars [0x6708]"

definition day_mark :: string where "day_mark = of_chars [0x65E5]"

definition range_mark :: string where "range_mark = of_chars [0x5230]"

section \<open>Days\<close>

datatype temporal_query_spec = SingleDay i64 | DayRange i64 i64

definition RANGE_MAX_DAYS :: i64 where "RANGE_MAX_DAYS = 93"

definition MS_PER_DAY :: i64 where "MS_PER_DAY = 86400000"

definition day_of :: "timestamp \<Rightarrow> i64" where
  "day_of ts = trunc_div (as_i64 ts) MS_PER_DAY"

definition today_year :: "i64 \<Rightarrow> i64" where
  "today_year today = fst (civil_from_days today)"

definition last_day_of_month :: "i64 \<Rightarrow> nat \<Rightarrow> nat" where
  "last_day_of_month year month =
     (let (ny, nm) = (if month = 12 then (year + 1, 1) else (year, month + 1)) in
      nat ((days_from_civil ny nm 1 - days_from_civil year month 1) mod 2 ^ 32))"

definition weekday :: "i64 \<Rightarrow> nat" where
  "weekday days = nat ((days + 3) mod 7)"

definition year_ok :: "i64 \<Rightarrow> bool" where
  "year_ok y \<longleftrightarrow> 1970 \<le> y \<and> y \<le> 2100"

definition month_ok :: "nat \<Rightarrow> bool" where
  "month_ok m \<longleftrightarrow> 1 \<le> m \<and> m \<le> 12"

definition day_ok :: "nat \<Rightarrow> bool" where
  "day_ok d \<longleftrightarrow> 1 \<le> d \<and> d \<le> 31"

definition only_if :: "('a \<Rightarrow> bool) \<Rightarrow> 'a option \<Rightarrow> 'a option" where
  "only_if p x = (case x of Some a \<Rightarrow> if p a then Some a else None | None \<Rightarrow> None)"

section \<open>Absolute dates\<close>

definition zh_year :: "string \<Rightarrow> (i64 \<times> string) option" where
  "zh_year q =
     (case split_at q year_mark of
        Some (before, after) \<Rightarrow> map_option (\<lambda>y. (y, after)) (only_if year_ok (parse_i64 (str_trim before)))
      | None \<Rightarrow> Some (0, q))"

definition zh_day :: "string \<Rightarrow> nat option" where
  "zh_day s =
     (case split_at s day_mark of
        Some (before, _) \<Rightarrow> only_if day_ok (parse_u32 (str_trim before))
      | None \<Rightarrow> Some 1)"

definition parse_zh_absolute :: "string \<Rightarrow> i64 \<Rightarrow> (i64 \<times> nat \<times> nat) option" where
  "parse_zh_absolute q today =
     Option.bind (zh_year q) (\<lambda>(year, rest).
     Option.bind (split_at rest month_mark) (\<lambda>(before, after).
     Option.bind (only_if month_ok (parse_u32 (str_trim before))) (\<lambda>m.
     Option.bind (zh_day after) (\<lambda>day.
       Some (if year \<noteq> 0 then year
             else if today < days_from_civil (today_year today) m day then today_year today - 1
             else today_year today, m, day)))))"

fun char_position :: "('a \<Rightarrow> bool) \<Rightarrow> 'a list \<Rightarrow> nat option" where
  "char_position p [] = None"
| "char_position p (x # xs) = (if p x then Some 0 else map_option Suc (char_position p xs))"

definition iso_at :: "nat list \<Rightarrow> (i64 \<times> nat \<times> nat) option" where
  "iso_at cs =
     Option.bind (parse_i64 (of_chars (take 4 cs))) (\<lambda>y.
     if 4 < length cs \<and> cs ! 4 = 45 then
       Option.bind (char_position (\<lambda>c. c = 45) (drop 5 cs)) (\<lambda>m_end.
       Option.bind (parse_u32 (of_chars (take m_end (drop 5 cs)))) (\<lambda>m.
       let ds = take 2 (takeWhile is_digit (drop (6 + m_end) cs)) in
       if ds = [] then None
       else Option.bind (parse_u32 (of_chars ds)) (\<lambda>d.
         if month_ok m \<and> day_ok d \<and> year_ok y then Some (y, m, d) else None)))
     else None)"

fun iso_loop :: "nat list \<Rightarrow> nat \<Rightarrow> (i64 \<times> nat \<times> nat) option" where
  "iso_loop cs 0 = None"
| "iso_loop cs (Suc n) = (case iso_at cs of Some x \<Rightarrow> Some x | None \<Rightarrow> iso_loop (tl cs) n)"

definition parse_iso_absolute :: "string \<Rightarrow> (i64 \<times> nat \<times> nat) option" where
  "parse_iso_absolute q = iso_loop (chars q) (length (chars q) - 9)"

definition MONTHS :: "(string \<times> nat) list" where
  "MONTHS = [(''January'', 1), (''February'', 2), (''March'', 3), (''April'', 4), (''May'', 5), (''June'', 6),
     (''July'', 7), (''August'', 8), (''September'', 9), (''October'', 10), (''November'', 11), (''December'', 12)]"

text \<open>The year after a comma. A year that does not parse ends the search.\<close>

definition en_year :: "string \<Rightarrow> i64 \<Rightarrow> i64 option" where
  "en_year after cy =
     (case split_at after '','' of
        Some (_, s) \<Rightarrow>
          (let ys = takeWhile is_digit (chars s) in if ys = [] then Some cy else parse_i64 (of_chars ys))
      | None \<Rightarrow> Some cy)"

fun en_scan :: "(string \<times> nat) list \<Rightarrow> string \<Rightarrow> i64 \<Rightarrow> (i64 \<times> nat \<times> nat) option" where
  "en_scan [] q cy = None"
| "en_scan ((name, mnum) # months) q cy =
     (case split_at q name of
        None \<Rightarrow> en_scan months q cy
      | Some (_, after) \<Rightarrow>
          (let rest = trim_start after; digits = takeWhile is_digit (chars rest) in
           if digits = [] then en_scan months q cy
           else Option.bind (only_if day_ok (parse_u32 (of_chars digits))) (\<lambda>d.
                Option.bind (only_if year_ok (en_year (trim_start (drop (length digits) rest)) cy)) (\<lambda>y.
                  Some (y, mnum, d)))))"

definition parse_en_absolute :: "string \<Rightarrow> i64 \<Rightarrow> (i64 \<times> nat \<times> nat) option" where
  "parse_en_absolute q cy = en_scan MONTHS q cy"

section \<open>Ranges\<close>

datatype range_parse = NotRange | TooLarge | RangeSpec temporal_query_spec

definition range_parse_of :: "i64 \<Rightarrow> i64 \<Rightarrow> range_parse" where
  "range_parse_of start_day end_day =
     (if end_day < start_day \<or> RANGE_MAX_DAYS < end_day - start_day + 1 then TooLarge
      else RangeSpec (DayRange start_day end_day))"

definition parse_month_day :: "string \<Rightarrow> (nat \<times> nat) option" where
  "parse_month_day s =
     Option.bind (split_at s month_mark) (\<lambda>(before, after).
     Option.bind (only_if month_ok (parse_u32 (str_trim before))) (\<lambda>m.
     Option.bind (split_at after day_mark) (\<lambda>(day, _).
     Option.bind (only_if day_ok (parse_u32 (str_trim day))) (\<lambda>d. Some (m, d)))))"

definition parse_month_only :: "string \<Rightarrow> nat option" where
  "parse_month_only s =
     Option.bind (split_at s month_mark) (\<lambda>(before, _). only_if month_ok (parse_u32 (str_trim before)))"

definition parse_year_month :: "string \<Rightarrow> (i64 option \<times> nat) option" where
  "parse_year_month s =
     (case split_at s year_mark of
        Some (before, after) \<Rightarrow>
          Option.bind (only_if year_ok (parse_i64 (str_trim before))) (\<lambda>y.
          Option.bind (parse_month_only after) (\<lambda>m. Some (Some y, m)))
      | None \<Rightarrow> Option.bind (parse_month_only s) (\<lambda>m. Some (None, m)))"

definition unwrap_or :: "'a option \<Rightarrow> 'a \<Rightarrow> 'a" where
  "unwrap_or x d = (case x of Some a \<Rightarrow> a | None \<Rightarrow> d)"

definition parse_zh_range :: "string \<Rightarrow> i64 \<Rightarrow> range_parse" where
  "parse_zh_range q cy =
     (case split_at q range_mark of
        None \<Rightarrow> NotRange
      | Some (left, right) \<Rightarrow>
          (case (parse_month_day left, parse_month_day right) of
             (Some (m1, d1), Some (m2, d2)) \<Rightarrow>
               if m2 < m1 then NotRange
               else range_parse_of (days_from_civil cy m1 d1) (days_from_civil cy m2 d2)
           | _ \<Rightarrow>
               (case (parse_year_month left, parse_year_month right) of
                  (Some (y1, m1), Some (y2, m2)) \<Rightarrow>
                    (let y1 = unwrap_or y1 cy; y2 = unwrap_or y2 y1 in
                     if y2 < y1 \<or> y2 = y1 \<and> m2 < m1 then NotRange
                     else range_parse_of (days_from_civil y1 m1 1)
                            (days_from_civil y2 m2 (last_day_of_month y2 m2)))
                | _ \<Rightarrow> NotRange)))"

definition parse_en_range :: "string \<Rightarrow> i64 \<Rightarrow> range_parse" where
  "parse_en_range q cy =
     (case split_at q '' to '' of
        None \<Rightarrow> NotRange
      | Some (left, right) \<Rightarrow>
          (case (find_first (\<lambda>(name, _). ends_with (trim_end left) name) MONTHS,
                 find_first (\<lambda>(name, _). starts_with (trim_start right) name) MONTHS) of
             (Some (_, m1), Some (_, m2)) \<Rightarrow>
               if m2 < m1 then NotRange
               else range_parse_of (days_from_civil cy m1 1) (days_from_civil cy m2 (last_day_of_month cy m2))
           | _ \<Rightarrow> NotRange))"

section \<open>Relative terms\<close>

definition time_terms :: "(string \<times> time_term_kind) list" where
  "time_terms = sort_by (\<lambda>x y. cmp_lin (length (fst y)) (length (fst x))) (concat (map ld_time_terms active_locales))"

definition match_term :: "string \<Rightarrow> time_term_kind option" where
  "match_term query = map_option snd (find_first (\<lambda>(term, _). str_contains query term) time_terms)"

fun spec_for_term :: "time_term_kind \<Rightarrow> i64 \<Rightarrow> temporal_query_spec" where
  "spec_for_term TT_Today today = SingleDay today"
| "spec_for_term TT_Yesterday today = SingleDay (today - 1)"
| "spec_for_term TT_DayBeforeYesterday today = SingleDay (today - 2)"
| "spec_for_term TT_ThisWeek today =
     (let monday = today - int (weekday today) in DayRange monday (monday + 6))"
| "spec_for_term TT_LastWeek today =
     (let monday = today - int (weekday today) in DayRange (monday - 7) (monday - 1))"
| "spec_for_term TT_ThisMonth today =
     (case civil_from_days today of (y, m, _) \<Rightarrow>
        DayRange (days_from_civil y m 1) (days_from_civil y m (last_day_of_month y m)))"
| "spec_for_term TT_LastMonth today =
     (case civil_from_days today of (y, m, _) \<Rightarrow>
        let (ly, lm) = (if m = 1 then (y - 1, 12) else (y, m - 1)) in
        DayRange (days_from_civil ly lm 1) (days_from_civil ly lm (last_day_of_month ly lm)))"
| "spec_for_term TT_ThisYear today =
     (case civil_from_days today of (y, _, _) \<Rightarrow> DayRange (days_from_civil y 1 1) (days_from_civil y 12 31))"

section \<open>The parser\<close>

definition single_day :: "i64 \<times> nat \<times> nat \<Rightarrow> temporal_query_spec" where
  "single_day date = (case date of (y, m, d) \<Rightarrow> SingleDay (days_from_civil y m d))"

definition parse_temporal_query :: "string \<Rightarrow> timestamp \<Rightarrow> temporal_query_spec option" where
  "parse_temporal_query query now =
     (let today = day_of now; cy = fst (civil_from_days today) in
      case parse_zh_range query cy of
        RangeSpec spec \<Rightarrow> Some spec
      | TooLarge \<Rightarrow> None
      | NotRange \<Rightarrow>
          (case parse_en_range query cy of
             RangeSpec spec \<Rightarrow> Some spec
           | TooLarge \<Rightarrow> None
           | NotRange \<Rightarrow>
               (case parse_zh_absolute query today of
                  Some date \<Rightarrow> Some (single_day date)
                | None \<Rightarrow>
                    (case parse_iso_absolute query of
                       Some date \<Rightarrow> Some (single_day date)
                     | None \<Rightarrow>
                         (case parse_en_absolute query cy of
                            Some date \<Rightarrow> Some (single_day date)
                          | None \<Rightarrow> map_option (\<lambda>kind. spec_for_term kind today) (match_term query))))))"

section \<open>Months of the calendar\<close>

lemma year_base_step:
  "y div 400 * 146097 + year_start (y mod 400) - ((y - 1) div 400 * 146097 + year_start ((y - 1) mod 400)) =
     (if leap_year y then 366 else 365)"
proof -
  let ?r = "(y - 1) mod 400"
  have r: "0 \<le> ?r" "?r \<le> 399" using pos_mod_bound[of 400 "y - 1"] by simp_all
  have leap: "leap_year (?r + 1) = leap_year y" using leap_year_mod[of "y - 1"] by simp
  let ?q = "(y - 1) div 400"
  have y: "y = 400 * ?q + (?r + 1)" using mult_div_mod_eq[of 400 "y - 1"] by linarith
  show ?thesis
  proof (cases "?r = 399")
    case True
    then have y': "y = 400 * (?q + 1) + 0" using y by simp
    have "y div 400 = ?q + 1" "y mod 400 = 0"
      by (rule int_div_pos_eq[OF y'] int_mod_pos_eq[OF y'], simp, simp)+
    then show ?thesis using year_table_at(3)[OF r] True leap by (simp add: year_bound_def year_start_def)
  next
    case False
    then have "y div 400 = ?q" "y mod 400 = ?r + 1"
      by (intro int_div_pos_eq[OF y] int_mod_pos_eq[OF y]; use r in simp)+
    then show ?thesis using year_table_at(3,5)[OF r] r False leap by simp
  qed
qed

lemma month_okE: "month_ok m \<Longrightarrow> m \<in> {1, 2, 3, 4, 5, 6, 7, 8, 9, 10, 11, 12}"
  unfolding month_ok_def insert_iff empty_iff by presburger

definition next_month :: "i64 \<Rightarrow> nat \<Rightarrow> i64 \<times> nat" where
  "next_month y m = (if m = 12 then (y + 1, 1) else (y, m + 1))"

lemma days_linear: "month_ok m \<Longrightarrow> days_from_civil y m d = days_from_civil y m 1 + int d - 1"
  unfolding days_from_civil_def Let_def by simp

lemma next_month_first:
  assumes "month_ok m"
  shows "(case next_month y m of (ny, nm) \<Rightarrow> days_from_civil ny nm 1) = days_from_civil y m 1 + int (days_in_month y m)"
proof -
  have feb: "days_from_civil y 3 1 = days_from_civil y 2 1 + (if leap_year y then 29 else 28)"
    using year_base_step[of y] by (simp add: days_from_civil_eq month_start_def split: if_splits)
  show ?thesis
    using month_okE[OF assms] feb
    by (elim insertE emptyE) (simp_all add: next_month_def days_in_month_def days_from_civil_eq month_start_def)
qed

lemma last_day_of_month_eq: "month_ok m \<Longrightarrow> last_day_of_month y m = days_in_month y m"
  using next_month_first[of m y]
  by (auto simp: last_day_of_month_def next_month_def days_in_month_def Let_def split: prod.splits if_splits)

lemma civil_month_ok:
  assumes "civil_from_days day = (y, m, d)"
  shows "month_ok m" "1 \<le> d" "d \<le> 31"
proof -
  have "month_ok m \<and> 1 \<le> d \<and> d \<le> 31"
  proof (rule civil_from_days_cases[of day])
    fix era yoe mp dd :: int
    assume "civil_from_days day = (if mp < 10 then yoe + era * 400 else yoe + era * 400 + 1,
        nat (if mp < 10 then mp + 3 else mp - 9), nat (dd + 1))"
      and b: "0 \<le> mp" "mp \<le> 11" "0 \<le> dd" "dd \<le> 30"
    then have "m = nat (if mp < 10 then mp + 3 else mp - 9)" "d = nat (dd + 1)" using assms by simp_all
    then show ?thesis using b by (auto simp: month_ok_def)
  qed
  then show "month_ok m" "1 \<le> d" "d \<le> 31" by simp_all
qed

text \<open>The days of a month are exactly those whose date has this year and month.\<close>

lemma month_days:
  assumes m: "month_ok m"
  shows "days_from_civil y m 1 \<le> day \<and> day \<le> days_from_civil y m (last_day_of_month y m) \<longleftrightarrow>
    (\<exists>d. civil_from_days day = (y, m, d))"
proof
  let ?d = "nat (day - days_from_civil y m 1 + 1)"
  assume "days_from_civil y m 1 \<le> day \<and> day \<le> days_from_civil y m (last_day_of_month y m)"
  then have "valid_date y m ?d" "days_from_civil y m ?d = day"
    using m days_linear[OF m, of y ?d] days_linear[OF m, of y "last_day_of_month y m"]
    by (auto simp: valid_date_def month_ok_def last_day_of_month_eq[OF m])
  then show "\<exists>d. civil_from_days day = (y, m, d)" using civil_days_civil[of y m ?d] by auto
next
  assume "\<exists>d. civil_from_days day = (y, m, d)"
  then obtain d where d: "civil_from_days day = (y, m, d)" by blast
  note ok = civil_month_ok[OF d]
  have day: "day = days_from_civil y m d" using days_civil_days[of day] d by simp
  have "d \<le> days_in_month y m"
  proof (rule ccontr)
    assume big: "\<not> d \<le> days_in_month y m"
    obtain ny nm where n: "next_month y m = (ny, nm)" by fastforce
    then have nm: "month_ok nm" and ne: "(ny, nm) \<noteq> (y, m)" using m by (auto simp: next_month_def month_ok_def split: if_splits)
    let ?e = "d - days_in_month y m"
    have "day = days_from_civil ny nm ?e"
      using next_month_first[OF m, of y] n big days_linear[OF m, of y d] days_linear[OF nm, of ny ?e] day by (simp add: of_nat_diff)
    moreover have "valid_date ny nm ?e"
      using big nm ok(3) by (auto simp: valid_date_def month_ok_def days_in_month_def)
    ultimately have "civil_from_days day = (ny, nm, ?e)" using civil_days_civil by simp
    with d ne show False by simp
  qed
  then show "days_from_civil y m 1 \<le> day \<and> day \<le> days_from_civil y m (last_day_of_month y m)"
    using ok(2) day days_linear[OF m, of y d] days_linear[OF m, of y "days_in_month y m"]
    by (simp add: last_day_of_month_eq[OF m])
qed

lemma days_mono_year: "days_from_civil (y + 1) 1 1 = days_from_civil y 1 1 + (if leap_year y then 366 else 365)"
proof -
  have "days_from_civil y 12 1 = days_from_civil y 3 1 + 275" "days_from_civil y 1 1 = days_from_civil y 2 1 - 31"
    "days_from_civil (y + 1) 1 1 = days_from_civil y 12 1 + 31"
    by (simp_all add: days_from_civil_eq month_start_def)
  moreover have "days_from_civil y 3 1 = days_from_civil y 2 1 + (if leap_year y then 29 else 28)"
    using next_month_first[of 2 y] by (simp add: next_month_def month_ok_def days_in_month_def)
  ultimately show ?thesis by simp
qed

section \<open>Properties\<close>

text \<open>The days a specification covers.\<close>

fun covers_day :: "temporal_query_spec \<Rightarrow> i64 \<Rightarrow> bool" where
  "covers_day (SingleDay d) day \<longleftrightarrow> day = d"
| "covers_day (DayRange a b) day \<longleftrightarrow> a \<le> day \<and> day \<le> b"

lemma range_parse_of_spec:
  "range_parse_of a b = RangeSpec spec \<Longrightarrow> spec = DayRange a b \<and> a \<le> b \<and> b - a < 93"
  by (auto simp: range_parse_of_def RANGE_MAX_DAYS_def split: if_splits)

lemma parse_zh_range_spec:
  assumes "parse_zh_range q cy = RangeSpec spec"
  obtains a b where "spec = DayRange a b" "a \<le> b" "b - a < 93"
  using assms that
  by (auto simp: parse_zh_range_def Let_def split: option.splits prod.splits if_splits dest!: range_parse_of_spec)

lemma parse_en_range_spec:
  assumes "parse_en_range q cy = RangeSpec spec"
  obtains a b where "spec = DayRange a b" "a \<le> b" "b - a < 93"
  using assms that
  by (auto simp: parse_en_range_def split: option.splits prod.splits if_splits dest!: range_parse_of_spec)

lemma weekday_bounds: "0 \<le> weekday d" "weekday d \<le> 6"
  using pos_mod_bound[of 7 "d + 3"] by (auto simp: weekday_def)

lemma month_length:
  assumes "month_ok m"
  shows "days_from_civil y m (last_day_of_month y m) - days_from_civil y m 1 = int (days_in_month y m) - 1"
  using days_linear[OF assms, of y "days_in_month y m"] by (simp add: last_day_of_month_eq[OF assms])

lemma spec_for_term_range:
  assumes "spec_for_term kind today = DayRange a b"
  shows "a \<le> b \<and> (b - a < 93 \<or> kind = TT_ThisYear \<and> b - a \<in> {364, 365})"
proof -
  obtain y m d where c: "civil_from_days today = (y, m, d)" by (metis prod_cases3)
  note ok = civil_month_ok(1)[OF c]
  have dim: "0 < int (days_in_month y' m') \<and> int (days_in_month y' m') \<le> 31" for y' m' by (simp add: days_in_month_def)
  have year: "days_from_civil y 12 31 - days_from_civil y 1 1 = (if leap_year y then 365 else 364)"
    using days_mono_year[of y] next_month_first[of 12 y] days_linear[of 12 y 31]
    by (simp add: next_month_def month_ok_def days_in_month_def split: if_splits)
  have prev: "month_ok (if m = 1 then 12 else m - 1)" using ok by (auto simp: month_ok_def)
  show ?thesis
  proof (cases kind)
    case TT_ThisMonth
    with assms c month_length[OF ok, of y] dim[of y m] show ?thesis by auto
  next
    case TT_LastMonth
    with assms c month_length[OF prev, of "if m = 1 then y - 1 else y"]
      dim[of "if m = 1 then y - 1 else y" "if m = 1 then 12 else m - 1"]
    show ?thesis by (auto simp: Let_def split: if_splits)
  next
    case TT_ThisYear
    with assms c year show ?thesis by (auto split: if_splits)
  qed (use assms in \<open>auto simp: Let_def\<close>)
qed


text \<open>Trimming of ASCII text.\<close>

definition ascii :: "string \<Rightarrow> bool" where
  "ascii s \<longleftrightarrow> list_all (\<lambda>c. of_char c < (128 :: nat)) s"

lemma chars_ascii: "ascii s \<Longrightarrow> chars s = map of_char s"
proof (induction s)
  case (Cons c s)
  then show ?case by (cases s) (simp_all add: chars_def ascii_def)
qed (simp add: chars_def)

lemma of_chars_ascii: "list_all (\<lambda>c. c < 128) cs \<Longrightarrow> of_chars cs = map char_of cs"
  by (induction cs) (simp_all add: of_chars_def utf8_encode_def)

lemma trim_ascii:
  assumes "ascii s"
  shows "trim_start s = dropWhile (\<lambda>c. is_whitespace (of_char c)) s"
    and "trim_end s = rev (dropWhile (\<lambda>c. is_whitespace (of_char c)) (rev s))"
proof -
  have "of_chars (map of_char t) = t" if "ascii t" for t
    using that by (subst of_chars_ascii) (simp_all add: ascii_def list_all_iff comp_def)
  moreover have "ascii (dropWhile p s)" "ascii (rev (dropWhile p (rev s)))" for p
    using assms by (auto simp: ascii_def list_all_iff dest: set_dropWhileD)
  ultimately show "trim_start s = dropWhile (\<lambda>c. is_whitespace (of_char c)) s"
    "trim_end s = rev (dropWhile (\<lambda>c. is_whitespace (of_char c)) (rev s))"
    unfolding trim_start_def trim_end_def chars_ascii[OF assms]
    by (simp_all add: rev_map dropWhile_map comp_def)
qed

lemma range_mark_bytes: "range_mark = [CHR 0xE5, CHR 0x88, CHR 0xB0]"
  by (simp add: range_mark_def of_chars_def utf8_encode_def char_of_eq_iff)

lemma march_to_may: "parse_temporal_query ''from March to May'' (Timestamp 0) = Some (DayRange 59 150)"
proof -
  have spring: "range_parse_of (days_from_civil 1970 3 1) (days_from_civil 1970 5 (last_day_of_month 1970 5)) =
      RangeSpec (DayRange 59 150)" by code_simp
  have "parse_zh_range ''from March to May'' 1970 = NotRange"
    by (simp add: parse_zh_range_def split_at_def range_mark_bytes)
  moreover have "parse_en_range ''from March to May'' 1970 = RangeSpec (DayRange 59 150)"
    by (simp add: parse_en_range_def split_at_def trim_ascii ascii_def MONTHS_def ends_with_def is_whitespace_def
        spring[unfolded One_nat_def])
  moreover have "fst (civil_from_days (day_of (Timestamp 0))) = 1970" by code_simp
  ultimately show ?thesis by (simp add: parse_temporal_query_def)
qed


section \<open>The calendar meaning of the relative terms\<close>

lemma year_first_mono: "y \<le> y' \<Longrightarrow> days_from_civil y 1 1 \<le> days_from_civil y' 1 1"
proof (induction y' rule: int_ge_induct)
  case (step y')
  then show ?case using days_mono_year[of y'] by (simp split: if_splits)
qed simp

lemma year_last: "days_from_civil y 12 31 = days_from_civil (y + 1) 1 1 - 1"
  using next_month_first[of 12 y] days_linear[of 12 y 31]
  by (simp add: next_month_def month_ok_def days_in_month_def)

lemma month_step:
  assumes "1 \<le> k" "k \<le> 11"
  shows "days_from_civil y (k + 1) 1 = days_from_civil y k 1 + int (days_in_month y k)"
  using next_month_first[of k y] assms by (simp add: month_ok_def next_month_def)

lemma month_first_mono: "a \<le> b \<Longrightarrow> 1 \<le> a \<Longrightarrow> b \<le> 12 \<Longrightarrow> days_from_civil y a 1 \<le> days_from_civil y b 1"
proof (induction b rule: dec_induct)
  case (step k)
  then show ?case using month_step[of k y] by simp
qed simp

lemma month_in_year:
  assumes m: "month_ok m"
  shows "days_from_civil y 1 1 \<le> days_from_civil y m 1"
    "days_from_civil y m (last_day_of_month y m) \<le> days_from_civil y 12 31"
proof -
  show "days_from_civil y 1 1 \<le> days_from_civil y m 1"
    using m by (intro month_first_mono) (auto simp: month_ok_def)
  have dec: "days_from_civil y 12 31 = days_from_civil y 12 1 + 30" using days_linear[of 12 y 31] by (simp add: month_ok_def)
  show "days_from_civil y m (last_day_of_month y m) \<le> days_from_civil y 12 31"
  proof (cases "m = 12")
    case True
    then show ?thesis using last_day_of_month_eq[OF m, of y] by (simp add: days_in_month_def)
  next
    case False
    then have "1 \<le> m" "m \<le> 11" using m by (auto simp: month_ok_def)
    then show ?thesis
      using month_length[OF m, of y] month_step[of m y] month_first_mono[of "m + 1" 12 y] dec by simp
  qed
qed

lemma year_days:
  "days_from_civil y 1 1 \<le> day \<and> day \<le> days_from_civil y 12 31 \<longleftrightarrow> fst (civil_from_days day) = y"
proof -
  have within: "days_from_civil y' 1 1 \<le> day \<and> day \<le> days_from_civil y' 12 31" if c: "civil_from_days day = (y', m, d)" for y' m d
    using month_days[OF civil_month_ok(1)[OF c], of y' day] month_in_year[OF civil_month_ok(1)[OF c], of y'] c by auto
  obtain y' m d where c: "civil_from_days day = (y', m, d)" by (metis prod_cases3)
  note w = within[OF c]
  show ?thesis
  proof
    assume r: "days_from_civil y 1 1 \<le> day \<and> day \<le> days_from_civil y 12 31"
    have "\<not> y' < y" using year_first_mono[of "y' + 1" y] w r year_last[of y'] by auto
    moreover have "\<not> y < y'" using year_first_mono[of "y + 1" y'] w r year_last[of y] by auto
    ultimately show "fst (civil_from_days day) = y" using c by simp
  qed (use w c in auto)
qed

lemma week_days:
  "t - int (weekday t) \<le> day \<and> day \<le> t - int (weekday t) + 6 \<longleftrightarrow> (day + 3) div 7 = (t + 3) div 7"
proof -
  have w: "int (weekday t) = (t + 3) mod 7" by (simp add: weekday_def)
  have t: "t + 3 = 7 * ((t + 3) div 7) + (t + 3) mod 7" and d: "day + 3 = 7 * ((day + 3) div 7) + (day + 3) mod 7"
    by simp_all
  have b: "0 \<le> (day + 3) mod 7" "(day + 3) mod 7 < 7" by simp_all
  show ?thesis unfolding w using t d b by linarith
qed


end
