(* ===== verification/Engine_Query.thy ===== *)
theory Engine_Query
  imports Model_Time_Query Write_Staged Retrieval_Results Store_Semantic
begin

text \<open>
  The understanding of a query in \<open>hippmem-engine\<close> (\<open>retrieve_api.rs\<close>, the helpers after \<open>retrieve\<close>): the
  type of a question, the energy boosts that depend on it, the keywords and the subject of a query,
  the keys of the goal, event and temporal channels, and the binary code of the query. The Unicode
  table of upper-case letters is a parameter; lower-casing, hashing and the alphanumeric class come
  from \<open>text_env\<close>.
\<close>

section \<open>Constants and scores\<close>

definition CONTEXT_BOOST_ALPHA :: f32 where "CONTEXT_BOOST_ALPHA = f32_of_rat (5/10)"

definition ENTITY_COVERAGE_BETA :: f32 where "ENTITY_COVERAGE_BETA = f32_of_rat (2/10)"

definition entity_coverage_score :: "u32 \<Rightarrow> f32" where
  "entity_coverage_score k =
     (if k = 0 \<or> k = 1 then f32_of_rat (2/10) else if k = 2 then f32_of_rat (35/100) else f32_of_rat (5/10))"

section \<open>Question types\<close>

datatype question_type = QT_Why | QT_How | QT_What | QT_Correction | QT_Preference | QT_None

definition change_signal :: "string \<Rightarrow> lang_data \<Rightarrow> bool" where
  "change_signal q lang =
     (case ld_change_pair lang of Some (b, a) \<Rightarrow> str_contains q b \<and> str_contains q a | None \<Rightarrow> False)"

definition mentions :: "string \<Rightarrow> (lang_data \<Rightarrow> string list) \<Rightarrow> bool" where
  "mentions q words = list_ex (\<lambda>lang. list_ex (str_contains q) (words lang)) active_locales"

definition detect_question_type :: "text_env \<Rightarrow> string \<Rightarrow> question_type" where
  "detect_question_type env query =
     (let q = str_to_lowercase env query in
      if list_ex (change_signal q) active_locales then QT_Correction
      else if mentions q ld_q_correction then QT_Correction
      else if mentions q ld_q_preference then QT_Preference
      else if mentions q ld_q_why then QT_Why
      else if mentions q ld_q_how then QT_How
      else if mentions q ld_q_what then QT_What
      else QT_None)"

text \<open>The strength of explanatory patterns in a text.\<close>

definition explanatory_pattern_score :: "string \<Rightarrow> f32" where
  "explanatory_pattern_score s =
     f32_min (fold (\<lambda>(pat, boost) score. if str_contains s pat then score + boost else score)
       (concat (map ld_explanatory active_locales)) (F32 0)) (f32_of_rat (20/100))"

definition has_correction_signal :: "string \<Rightarrow> bool" where
  "has_correction_signal q =
     list_ex (\<lambda>lang. list_ex (str_contains q) (ld_q_correction lang) \<or> change_signal q lang) active_locales"

fun type_boosts :: "question_type \<Rightarrow> (content_type \<times> f32) list" where
  "type_boosts QT_Correction = [(CT_Correction, f32_of_rat (12/100))]"
| "type_boosts QT_Preference = [(CT_Preference, f32_of_rat (8/100)), (CT_Decision, f32_of_rat (4/100))]"
| "type_boosts QT_Why = [(CT_Decision, f32_of_rat (8/100)), (CT_TaskState, f32_of_rat (8/100))]"
| "type_boosts QT_How = [(CT_TaskState, f32_of_rat (8/100))]"
| "type_boosts QT_What = [(CT_ProjectKnowledge, f32_of_rat (15/100))]"
| "type_boosts QT_None = []"

definition content_type_boost :: "text_env \<Rightarrow> string \<Rightarrow> (content_type \<times> f32) list" where
  "content_type_boost env query =
     (let qt = detect_question_type env query in
      type_boosts qt @
      (if qt \<noteq> QT_Correction \<and> has_correction_signal (str_to_lowercase env query)
       then [(CT_Correction, f32_of_rat (10/100))] else []))"

section \<open>Subject and keywords of a query\<close>

text \<open>\<open>rsplit(..).next()\<close>: the text after the last character of a class.\<close>

definition after_last :: "(nat \<Rightarrow> bool) \<Rightarrow> string \<Rightarrow> string" where
  "after_last p s = of_chars (rev (takeWhile (\<lambda>c. \<not> p c) (rev (chars s))))"

definition is_word_end :: "nat \<Rightarrow> bool" where
  "is_word_end c \<longleftrightarrow> is_whitespace c \<or> c = 0xFF1F \<or> c = 63"

definition subject_before :: "lang_data \<Rightarrow> string \<Rightarrow> string" where
  "subject_before lang prefix =
     (case ld_possessive_particle lang of
        Some particle \<Rightarrow> str_trim (after_last is_word_end (after_last (\<lambda>c. c = particle) prefix))
      | None \<Rightarrow> str_trim (after_last is_word_end prefix))"

fun subject_scan :: "(lang_data \<times> string) list \<Rightarrow> string \<Rightarrow> string option" where
  "subject_scan [] q = None"
| "subject_scan ((lang, delimiter) # ds) q =
     (case str_find q delimiter of
        None \<Rightarrow> subject_scan ds q
      | Some i \<Rightarrow>
          let subject = subject_before lang (take i q)
          in if 2 \<le> length subject then Some subject else None)"

definition extract_subject_for_what_query :: "text_env \<Rightarrow> string \<Rightarrow> string option" where
  "extract_subject_for_what_query env query =
     subject_scan (concat (map (\<lambda>lang. map (Pair lang) (ld_what_delimiters lang)) active_locales))
       (str_to_lowercase env query)"

definition is_ascii_alphabetic :: "nat \<Rightarrow> bool" where
  "is_ascii_alphabetic c \<longleftrightarrow> (65 \<le> c \<and> c \<le> 90) \<or> (97 \<le> c \<and> c \<le> 122)"

definition stop_words :: "string list" where
  "stop_words = concat (map ld_stop_words active_locales)"

text \<open>The set of the words seen is the set of the keywords collected.\<close>

definition push_keyword :: "(string \<Rightarrow> bool) \<Rightarrow> string \<Rightarrow> string list \<Rightarrow> string list" where
  "push_keyword ok w kws = (if ok w \<and> w \<notin> set kws then kws @ [w] else kws)"

definition is_term :: "text_env \<Rightarrow> (nat \<Rightarrow> bool) \<Rightarrow> string \<Rightarrow> bool" where
  "is_term env upper w \<longleftrightarrow>
     ((2 \<le> length w \<and> list_ex upper (chars w)) \<or> (list_all is_ascii_alphabetic (chars w) \<and> 3 \<le> length w)) \<and>
     str_to_lowercase env w \<notin> set stop_words"

definition is_cjk_keyword :: "string \<Rightarrow> bool" where
  "is_cjk_keyword w \<longleftrightarrow>
     2 \<le> length (chars w) \<and> list_all (\<lambda>c. 0x2E80 < c) (chars w) \<and> w \<notin> set stop_words"

definition extract_discriminative_keywords :: "text_env \<Rightarrow> (nat \<Rightarrow> bool) \<Rightarrow> string \<Rightarrow> string list" where
  "extract_discriminative_keywords env upper query =
     (let words = map of_chars (split_on (\<lambda>c. \<not> char_is_alphanumeric env c) (chars query));
          kws = fold (push_keyword (is_term env upper)) words [];
          parts = map (\<lambda>w. str_trim (of_chars w))
            (split_on (\<lambda>c. is_whitespace c \<or> is_ascii_punctuation c \<or> c = 0xFF1F \<or> c = 63) (chars query))
      in take 5 (fold (push_keyword is_cjk_keyword) parts kws))"

section \<open>The boosts\<close>

definition raise_energy :: "f32 \<Rightarrow> f32 \<Rightarrow> f32 \<Rightarrow> f32" where
  "raise_energy cap e boost = f32_min (e + boost) cap"

definition why_boost :: "question_type \<Rightarrow> f32 \<Rightarrow> memory_unit \<Rightarrow> f32 \<Rightarrow> f32" where
  "why_boost qt cap u e =
     (if qt = QT_Why then
        let boost = explanatory_pattern_score (mc_raw (content u))
        in if 0 < boost then raise_energy cap e boost else e
      else e)"

fun content_boost ::
    "text_env \<Rightarrow> question_type \<Rightarrow> string option \<Rightarrow> f32 \<Rightarrow> (content_type \<times> f32) list \<Rightarrow> memory_unit \<Rightarrow> f32 \<Rightarrow> f32" where
  "content_boost env qt subject cap [] u e = e"
| "content_boost env qt subject cap ((ct, boost) # bs) u e =
     (if mc_content_type (content u) \<noteq> ct then content_boost env qt subject cap bs u e
      else if qt = QT_What \<and> ct = CT_ProjectKnowledge \<and>
          (case subject of
             Some s \<Rightarrow> \<not> str_contains (str_to_lowercase env (mc_raw (content u))) (str_to_lowercase env s)
           | None \<Rightarrow> False)
      then e
      else raise_energy cap e boost)"

definition keyword_boost :: "text_env \<Rightarrow> string list \<Rightarrow> f32 \<Rightarrow> memory_unit \<Rightarrow> f32 \<Rightarrow> f32" where
  "keyword_boost env keywords cap u e =
     (let content_lower = str_to_lowercase env (mc_raw (content u));
          bonus = fold (\<lambda>kw b. if str_contains content_lower (str_to_lowercase env kw)
            then b + f32_of_rat (4/100) else b) keywords (F32 0)
      in if 0 < bonus then raise_energy cap e (f32_min bonus (f32_of_rat (8/100))) else e)"

definition definition_boost :: "text_env \<Rightarrow> string option \<Rightarrow> f32 \<Rightarrow> memory_unit \<Rightarrow> f32 \<Rightarrow> f32" where
  "definition_boost env subject cap u e =
     (case subject of
        None \<Rightarrow> e
      | Some s \<Rightarrow>
          let subject_lower = str_to_lowercase env s;
              content_lower = str_to_lowercase env (mc_raw (content u));
              has_definition = list_ex (\<lambda>lang. list_ex (\<lambda>pat. str_contains content_lower
                (subject_lower @ '' '' @ pat)) (ld_definition_patterns lang)) active_locales
          in if has_definition then raise_energy cap e (f32_of_rat (5/100)) else e)"

definition map_energy :: "(memory_unit \<Rightarrow> f32 \<Rightarrow> f32) \<Rightarrow> scored list \<Rightarrow> scored list" where
  "map_energy f = map (\<lambda>(i, e, tr, u). (i, f u e, tr, u))"

definition apply_question_aware_boost ::
    "text_env \<Rightarrow> (nat \<Rightarrow> bool) \<Rightarrow> string \<Rightarrow> scored list \<Rightarrow> algo_params \<Rightarrow> scored list" where
  "apply_question_aware_boost env upper query reranked p =
     (let qt = detect_question_type env query;
          ct_boosts = content_type_boost env query;
          cap = seed_energy_cap p;
          what_subject = (if qt = QT_What then extract_subject_for_what_query env query else None);
          stage1 = map_energy (why_boost qt cap) reranked;
          stage2 = map_energy (content_boost env qt what_subject cap ct_boosts) stage1;
          stage3 = map_energy (keyword_boost env (extract_discriminative_keywords env upper query) cap) stage2;
          stage4 = map_energy (definition_boost env what_subject cap) stage3
      in sort_by (cmp_f32_desc (\<lambda>(_, e, _, _). e)) stage4)"

section \<open>Keys of a query\<close>

definition query_binary_code :: "text_env \<Rightarrow> string \<Rightarrow> u8 list" where
  "query_binary_code env s =
     to_le_bytes (stable_hash64 env (''bc_0_'' @ s)) @ to_le_bytes (stable_hash64 env (''bc_1_'' @ s))"

fun temporal_keys_for_spec :: "temporal_query_spec \<Rightarrow> u32 list" where
  "temporal_keys_for_spec (SingleDay day) = [of_int (day - 1), of_int day, of_int (day + 1)]"
| "temporal_keys_for_spec (DayRange start_day end_day) = map of_int [start_day..end_day]"

definition temporal_bucket_keys :: "timestamp \<Rightarrow> u32 list" where
  "temporal_bucket_keys ts =
     (let ms = as_i64 ts in
      [of_int (trunc_div ms 3600000), of_int (trunc_div ms 86400000), of_int (trunc_div ms 604800000)])"

definition extract_query_goals :: "string \<Rightarrow> string list" where
  "extract_query_goals s =
     map (\<lambda>m. ''goal_marker:'' @ m)
       (filter (str_contains s) (concat (map ld_goal_markers active_locales)))"

definition extract_query_events :: "string \<Rightarrow> string list" where
  "extract_query_events s =
     map (\<lambda>m. ''event_marker:'' @ m)
       (filter (str_contains s) (concat (map ld_event_markers active_locales)))"

definition is_retrieval_seed_excluded :: "memory_unit \<Rightarrow> bool" where
  "is_retrieval_seed_excluded u \<longleftrightarrow>
     (case lifecycle u of LC_Compressed _ \<Rightarrow> True | _ \<Rightarrow> False) \<or>
     pv_generated_by (provenance_of u) = GB_Consolidation"

section \<open>Bounds of the boosts\<close>

definition rounding_step :: rat where "rounding_step = 1 / 2 ^ 24"

lemma round32_err:
  assumes "0 \<le> q" "q \<le> 1"
  shows "round32 q \<le> q + rounding_step"
proof (cases "q = 0")
  case False
  with assms have "bexp q < 1" by (intro bexp_less) simp_all
  then have "ulp_exp 24 (- 126) q \<le> - 23" using assms by (simp add: ulp_exp_def)
  then have "(2::rat) powi ulp_exp 24 (- 126) q \<le> 2 powi (- 23)" using powi2_le_iff by blast
  also have "\<dots> = 1 / 2 ^ 23" by (simp add: power_int_def power_one_over)
  finally show ?thesis
    using round_bin_err[of 24 "- 126" q] abs_ge_self[of "round_bin 24 (- 126) q - q"]
    by (simp add: round32_def rounding_step_def)
qed (simp add: rounding_step_def)

text \<open>A stage that raises energies: below the cap it adds at most \<open>b\<close> and stays below the cap; above
  the cap it changes nothing or puts the energy down to the cap.\<close>

definition raises :: "f32 \<Rightarrow> rat \<Rightarrow> (f32 \<Rightarrow> f32) \<Rightarrow> bool" where
  "raises cap b f \<longleftrightarrow>
     (\<forall>e. bounded_energy e \<longrightarrow> bounded_energy (f e) \<and>
        (e \<le> cap \<longrightarrow> e \<le> f e \<and> f e \<le> cap \<and> (\<forall>q q'. e = F32 q \<and> f e = F32 q' \<longrightarrow> q' \<le> q + b)) \<and>
        (\<not> e \<le> cap \<longrightarrow> f e = e \<or> f e = cap))"

lemma raises_id: "0 \<le> b \<Longrightarrow> raises cap b (\<lambda>e. e)"
  by (auto simp: raises_def f32_le_refl elim!: bounded_energyE)

lemma raises_raise:
  assumes cap: "unit_f32 cap" and b: "F32 0 \<le> boost" "boost \<le> F32 b"
  shows "raises cap (b + rounding_step) (\<lambda>e. raise_energy cap e boost)"
  unfolding raises_def raise_energy_def
proof (intro allI impI)
  fix e assume e: "bounded_energy e"
  obtain q where q: "e = F32 q" "0 \<le> q" "q \<le> 16777216" "f32_valid (F32 q)" using e by (rule bounded_energyE)
  obtain c where c: "cap = F32 c" "0 \<le> c" "c \<le> 1" "f32_valid (F32 c)"
    using unit_f32E[OF cap] unit_f32_valid[OF cap] by metis
  obtain x where x: "boost = F32 x" "0 \<le> x" "x \<le> b" using b by (cases boost) auto
  define v where "v = f32_min (e + boost) cap"
  have ge: "e \<le> e + boost" unfolding q(1) by (rule f32_add_ge[OF q(4) b(1)])
  have nn: "e + boost \<noteq> F32_NaN" using ge f32_le_not_nan by blast
  have v: "v \<le> cap" "v \<le> e + boost" using nn c(1) by (auto simp: v_def intro: f32_min_le)
  have cases: "v = e + boost \<or> v = cap" unfolding v_def by (rule f32_min_cases)
  have "F32 0 \<le> e + boost" using f32_le_trans[OF _ ge] q by simp
  with cases c have "F32 0 \<le> v" by auto
  moreover have "f32_valid v" unfolding v_def using c by (auto intro!: f32_valid_minmax f32_valid_ops)
  moreover have "v \<le> F32 16777216" using f32_le_trans[OF v(1)] c by simp
  ultimately have bv: "bounded_energy v" by (simp add: bounded_energy_def)
  have up: "e \<le> v" if "e \<le> cap" using that cases ge by auto
  have "q' \<le> q + (b + rounding_step)" if "v = F32 q'" for q'
  proof (cases "q + x \<le> 1")
    case True
    have "round32 (q + x) \<le> q + x + rounding_step" using True q x by (intro round32_err) simp_all
    moreover have "e + boost = F32 (round32 (q + x))"
    proof -
      have "0 \<le> round32 (q + x)" "round32 (q + x) \<le> 1" using r32.R_unit True q x by simp_all
      then have "\<not> f32_max_finite < round32 (q + x)" "\<not> round32 (q + x) < - f32_max_finite"
        using f32_max_finite_ge(2,3) by linarith+
      then show ?thesis by (simp add: q x f32_of_rat_def)
    qed
    ultimately have "q' \<le> q + x + rounding_step" using v(2) that by (auto simp: order_trans)
    then show ?thesis using x by linarith
  next
    case False
    have "q' \<le> c" using v(1) that c by simp
    with False c x show ?thesis unfolding rounding_step_def by simp
  qed
  moreover have "v = e \<or> v = cap" if "\<not> e \<le> cap"
  proof -
    have "cap \<le> e" using that f32_linear[of e cap] q c by auto
    then have "cap \<le> e + boost" using ge f32_le_trans by blast
    with cases v(1,2) show ?thesis by (auto simp: v_def f32_min_def split: if_splits intro: f32_le_antisym)
  qed
  ultimately show "bounded_energy (f32_min (e + boost) cap) \<and>
      (e \<le> cap \<longrightarrow> e \<le> f32_min (e + boost) cap \<and> f32_min (e + boost) cap \<le> cap \<and>
        (\<forall>r r'. e = F32 r \<and> f32_min (e + boost) cap = F32 r' \<longrightarrow> r' \<le> r + (b + rounding_step))) \<and>
      (\<not> e \<le> cap \<longrightarrow> f32_min (e + boost) cap = e \<or> f32_min (e + boost) cap = cap)"
    using bv up v q unfolding v_def by auto
qed

lemma raises_if:
  assumes "raises cap b f" "0 \<le> b"
  shows "raises cap b (\<lambda>e. if P then f e else e)" and "raises cap b (\<lambda>e. if P then e else f e)"
  using assms raises_id[of b cap] by (cases P; simp)+

lemma rounding_step_pos: "0 \<le> rounding_step"
  by (simp add: rounding_step_def)

lemma raises_mono: "raises cap b f \<Longrightarrow> b \<le> c \<Longrightarrow> raises cap c f"
  unfolding raises_def by fastforce

lemma raises_comp:
  assumes f: "raises cap b f" and g: "raises cap c g"
  shows "raises cap (b + c) (\<lambda>e. g (f e))"
  unfolding raises_def
proof (intro allI impI)
  fix e assume e: "bounded_energy e"
  have F: "bounded_energy (f e)" and G: "bounded_energy (g (f e))" using f g e by (auto simp: raises_def)
  have low: "e \<le> g (f e) \<and> g (f e) \<le> cap \<and> (\<forall>q q'. e = F32 q \<and> g (f e) = F32 q' \<longrightarrow> q' \<le> q + (b + c))"
    if "e \<le> cap"
  proof -
    have 1: "e \<le> f e" "f e \<le> cap" "\<And>q q'. e = F32 q \<Longrightarrow> f e = F32 q' \<Longrightarrow> q' \<le> q + b"
      using f e that by (auto simp: raises_def)
    have 2: "f e \<le> g (f e)" "g (f e) \<le> cap" "\<And>q q'. f e = F32 q \<Longrightarrow> g (f e) = F32 q' \<Longrightarrow> q' \<le> q + c"
      using g F 1(2) by (auto simp: raises_def)
    obtain m where m: "f e = F32 m" using F by (rule bounded_energyE)
    show ?thesis using f32_le_trans[OF 1(1) 2(1)] 2(2) 1(3)[OF _ m] 2(3)[OF m] by fastforce
  qed
  have high: "g (f e) = e \<or> g (f e) = cap" if h: "\<not> e \<le> cap"
  proof (cases "f e = e")
    case True
    then show ?thesis using g e h by (auto simp: raises_def)
  next
    case False
    then have fc: "f e = cap" using f e h by (auto simp: raises_def)
    then have "cap \<le> cap" using F by (auto simp: f32_le_refl elim!: bounded_energyE)
    then have "cap \<le> g cap" "g cap \<le> cap" using g F fc by (auto simp: raises_def)
    then show ?thesis using fc f32_le_antisym by auto
  qed
  show "bounded_energy (g (f e)) \<and>
      (e \<le> cap \<longrightarrow> e \<le> g (f e) \<and> g (f e) \<le> cap \<and> (\<forall>q q'. e = F32 q \<and> g (f e) = F32 q' \<longrightarrow> q' \<le> q + (b + c))) \<and>
      (\<not> e \<le> cap \<longrightarrow> g (f e) = e \<or> g (f e) = cap)"
    using G low high by blast
qed

lemma boost_values:
  "F32 0 \<le> f32_of_rat (20/100)" "f32_of_rat (20/100) \<le> F32 (13/64)"
  "F32 0 \<le> f32_of_rat (8/100)" "f32_of_rat (8/100) \<le> F32 (11/128)"
  "F32 0 \<le> f32_of_rat (5/100)" "f32_of_rat (5/100) \<le> F32 (13/256)"
proof -
  have "f32_valid (F32 (13/64)) \<and> f32_valid (F32 (11/128)) \<and> f32_valid (F32 (13/256))" by code_simp
  then show "f32_of_rat (20/100) \<le> F32 (13/64)" "f32_of_rat (8/100) \<le> F32 (11/128)"
    "f32_of_rat (5/100) \<le> F32 (13/256)"
    by (simp_all add: f32_of_rat_le del: f32_valid.simps)
qed (simp_all add: f32_of_rat_nonneg)

lemma type_boost_values:
  "list_all (\<lambda>(ct, b). F32 0 \<le> b \<and> b \<le> F32 (5/32)) (content_type_boost env query)"
proof -
  have v: "f32_valid (F32 (5/32))" by code_simp
  have b: "F32 0 \<le> f32_of_rat x \<and> f32_of_rat x \<le> F32 (5/32)" if "0 \<le> x" "x \<le> 5/32" for x
    using that by (simp add: f32_of_rat_nonneg f32_of_rat_le[OF v])
  have "list_all (\<lambda>(ct, b). F32 0 \<le> b \<and> b \<le> F32 (5/32)) (type_boosts qt)" for qt
    by (cases qt) (simp_all add: b)
  then show ?thesis by (simp add: content_type_boost_def Let_def b)
qed

lemma why_boost_raises:
  assumes "unit_f32 cap"
  shows "raises cap (13/64 + rounding_step) (why_boost qt cap u)"
proof (cases "qt = QT_Why \<and> 0 < explanatory_pattern_score (mc_raw (content u))")
  case True
  let ?b = "explanatory_pattern_score (mc_raw (content u))"
  have "?b \<le> f32_of_rat (20/100)" unfolding explanatory_pattern_score_def by (rule f32_min_le) simp
  then have "?b \<le> F32 (13/64)" using boost_values(2) f32_le_trans by blast
  moreover have "F32 0 \<le> ?b" using True f32_less_le by auto
  ultimately show ?thesis
    using raises_raise[OF assms, of ?b "13/64"] True by (simp add: why_boost_def[abs_def])
next
  case False
  then have "why_boost qt cap u = (\<lambda>e. e)" by (auto simp: fun_eq_iff why_boost_def Let_def)
  then show ?thesis by (simp add: rounding_step_pos raises_id)
qed

lemma content_boost_raises:
  assumes "unit_f32 cap" "list_all (\<lambda>(ct, b). F32 0 \<le> b \<and> b \<le> F32 (5/32)) bs"
  shows "raises cap (5/32 + rounding_step) (content_boost env qt subject cap bs u)"
  using assms(2)
proof (induction bs)
  case (Cons b bs)
  obtain ct x where b: "b = (ct, x)" by (cases b)
  have "raises cap (5/32 + rounding_step) (\<lambda>e. raise_energy cap e x)"
    using Cons.prems raises_raise[OF assms(1), of x "5/32"] by (simp add: b)
  moreover have "raises cap (5/32 + rounding_step) (content_boost env qt subject cap bs u)" using Cons by simp
  ultimately show ?case
    unfolding b content_boost.simps by (cases "mc_content_type (content u) = ct")
      (simp_all add: raises_if(2) rounding_step_pos)
next
  case Nil
  have "content_boost env qt subject cap [] u = (\<lambda>e. e)" by (simp add: fun_eq_iff)
  then show ?case by (simp add: rounding_step_pos raises_id)
qed

lemma keyword_boost_raises:
  assumes "unit_f32 cap"
  shows "raises cap (11/128 + rounding_step) (keyword_boost env kws cap u)"
proof -
  have *: "raises cap (11/128 + rounding_step)
      (\<lambda>e. if 0 < b then raise_energy cap e (f32_min b (f32_of_rat (8/100))) else e)" for b
  proof (cases "0 < b")
    case True
    have "f32_min b (f32_of_rat (8/100)) \<le> f32_of_rat (8/100)" by (rule f32_min_le) simp
    then have "f32_min b (f32_of_rat (8/100)) \<le> F32 (11/128)" using boost_values(4) f32_le_trans by blast
    moreover have "F32 0 \<le> f32_min b (f32_of_rat (8/100))"
      using True boost_values(3) f32_min_cases[of b "f32_of_rat (8/100)"] f32_less_le[of 0 b] by auto
    ultimately show ?thesis
      using True raises_raise[OF assms, of "f32_min b (f32_of_rat (8/100))" "11/128"] by simp
  qed (auto simp: rounding_step_pos intro: raises_id)
  show ?thesis unfolding keyword_boost_def[abs_def] Let_def by (rule *)
qed

lemma definition_boost_raises:
  assumes "unit_f32 cap"
  shows "raises cap (13/256 + rounding_step) (definition_boost env subject cap u)"
proof (cases subject)
  case None
  then show ?thesis by (simp add: definition_boost_def[abs_def] raises_id rounding_step_pos)
next
  case (Some s)
  show ?thesis
    unfolding definition_boost_def[abs_def] Let_def Some option.case
    by (intro raises_if raises_raise assms boost_values) (simp add: rounding_step_pos)
qed

lemma mset_map_sort_by: "mset (map f (sort_by cmp xs)) = mset (map f xs)"
  by simp

lemma map_energy_simps:
  "map_energy g (map_energy f xs) = map_energy (\<lambda>u e. g u (f u e)) xs"
  "map (\<lambda>(i, e, tr, u). (i, tr, u)) (map_energy f xs) = map (\<lambda>(i, e, tr, u). (i, tr, u)) xs"
  "(i, e', tr, u) \<in> set (map_energy f xs) \<longleftrightarrow> (\<exists>e. (i, e, tr, u) \<in> set xs \<and> e' = f u e)"
  by (auto simp: map_energy_def case_prod_unfold comp_def image_iff) force

text \<open>The composition of the four stages.\<close>

definition boosted_energy :: "text_env \<Rightarrow> (nat \<Rightarrow> bool) \<Rightarrow> string \<Rightarrow> f32 \<Rightarrow> memory_unit \<Rightarrow> f32 \<Rightarrow> f32" where
  "boosted_energy env upper query cap u e =
     (let qt = detect_question_type env query;
          what_subject = (if qt = QT_What then extract_subject_for_what_query env query else None)
      in definition_boost env what_subject cap u
           (keyword_boost env (extract_discriminative_keywords env upper query) cap u
             (content_boost env qt what_subject cap (content_type_boost env query) u (why_boost qt cap u e))))"

lemma question_boost_eq:
  "apply_question_aware_boost env upper query reranked p =
     sort_by (cmp_f32_desc (\<lambda>(_, e, _, _). e))
       (map_energy (boosted_energy env upper query (seed_energy_cap p)) reranked)"
  by (simp add: apply_question_aware_boost_def Let_def map_energy_simps(1) boosted_energy_def[abs_def])

lemma boosted_energy_raises:
  assumes "unit_f32 cap"
  shows "raises cap (1/2) (boosted_energy env upper query cap u)"
proof -
  have "raises cap (13/64 + rounding_step + (5/32 + rounding_step) + (11/128 + rounding_step) + (13/256 + rounding_step))
      (boosted_energy env upper query cap u)"
    unfolding boosted_energy_def[abs_def] Let_def
    by (intro raises_comp why_boost_raises content_boost_raises keyword_boost_raises definition_boost_raises
        assms type_boost_values)
  then show ?thesis by (rule raises_mono) (simp add: rounding_step_def)
qed

section \<open>Properties\<close>

text \<open>C38: the question-aware boosts keep the candidates with their traces and units and sort them by energy.
  An energy up to the cap does not fall, gains at most one half and stays up to the cap; an energy
  above the cap, which merged paths can have, is kept or put down to the cap.\<close>

theorem question_boost_bounds:
  assumes cap: "unit_f32 (seed_energy_cap p)"
    and bounded: "\<forall>(i, e, tr, u) \<in> set reranked. bounded_energy e"
    and res: "res = apply_question_aware_boost env upper query reranked p"
  shows "mset (map (\<lambda>(i, e, tr, u). (i, tr, u)) res) = mset (map (\<lambda>(i, e, tr, u). (i, tr, u)) reranked) \<and>
    sorted_wrt (\<lambda>x y. fst (snd y) \<le> fst (snd x)) res \<and>
    (\<forall>(i, e', tr, u) \<in> set res. \<exists>e. (i, e, tr, u) \<in> set reranked \<and> bounded_energy e' \<and>
       (e \<le> seed_energy_cap p \<longrightarrow> e \<le> e' \<and> e' \<le> seed_energy_cap p \<and>
          (\<forall>q q'. e = F32 q \<and> e' = F32 q' \<longrightarrow> q' \<le> q + 1/2)) \<and>
       (\<not> e \<le> seed_energy_cap p \<longrightarrow> e' = e \<or> e' = seed_energy_cap p))"
proof -
  let ?f = "boosted_energy env upper query (seed_energy_cap p)"
  have r: "raises (seed_energy_cap p) (1/2) (?f u)" for u by (rule boosted_energy_raises[OF cap])
  have b: "bounded_energy (?f u e)" if "(i, e, tr, u) \<in> set reranked" for i e tr u
    using bounded that r[of u] by (auto simp: raises_def)
  have "list_all (\<lambda>x. (\<lambda>(_, e, _, _). e) x \<noteq> F32_NaN) (map_energy ?f reranked)"
    unfolding list_all_iff
  proof
    fix x assume x: "x \<in> set (map_energy ?f reranked)"
    obtain i e' tr u where y: "x = (i, e', tr, u)" by (cases x) blast
    from x obtain e where "(i, e, tr, u) \<in> set reranked" "e' = ?f u e" by (auto simp: y map_energy_simps(3))
    then have "bounded_energy e'" using b by blast
    then show "(\<lambda>(_, e, _, _). e) x \<noteq> F32_NaN" by (auto simp: y elim: bounded_energyE)
  qed
  from sorted_desc_by[OF this] have "sorted_wrt (\<lambda>x y. (\<lambda>(_, e, _, _). e) y \<le> (\<lambda>(_, e, _, _). e) x) res"
    unfolding res question_boost_eq .
  then have "sorted_wrt (\<lambda>x y. fst (snd y) \<le> fst (snd x)) res"
    by (rule sorted_wrt_mono_rel[rotated]) auto
  moreover have "mset (map (\<lambda>(i, e, tr, u). (i, tr, u)) res) = mset (map (\<lambda>(i, e, tr, u). (i, tr, u)) reranked)"
    unfolding res question_boost_eq mset_map_sort_by map_energy_simps(2) ..
  moreover have "\<exists>e. (i, e, tr, u) \<in> set reranked \<and> bounded_energy e' \<and>
       (e \<le> seed_energy_cap p \<longrightarrow> e \<le> e' \<and> e' \<le> seed_energy_cap p \<and>
          (\<forall>q q'. e = F32 q \<and> e' = F32 q' \<longrightarrow> q' \<le> q + 1/2)) \<and>
       (\<not> e \<le> seed_energy_cap p \<longrightarrow> e' = e \<or> e' = seed_energy_cap p)"
    if m: "(i, e', tr, u) \<in> set res" for i e' tr u
  proof -
    obtain e where e: "(i, e, tr, u) \<in> set reranked" "e' = ?f u e"
      using m by (auto simp: res question_boost_eq map_energy_simps(3))
    with bounded have be: "bounded_energy e" by auto
    note all = r[of u, unfolded raises_def, THEN spec, THEN mp, OF be, folded e(2)]
    show ?thesis by (rule exI[of _ e], rule conjI[OF e(1) all])
  qed
  ultimately show ?thesis by blast
qed

lemma question_boost_bounds_witness:
  "\<exists>res. res = apply_question_aware_boost demo_env (\<lambda>_. False) ''why'' [(MemoryId 1, F32 1, [], demo_unit 1 ''a'' [])]
      algo_params_default \<and> map fst res = [MemoryId 1]"
proof -
  have "unit_f32 (seed_energy_cap algo_params_default)"
    by (rule energy_params_ok_default[unfolded energy_params_ok_def, THEN conjunct2, THEN conjunct2,
          THEN conjunct2, THEN conjunct2, THEN conjunct2])
  note b = question_boost_bounds[OF this _ refl, of "[(MemoryId 1, F32 1, [], demo_unit 1 ''a'' [])]"
      demo_env "\<lambda>_. False" "''why''"]
  have "bounded_energy (F32 1)" by (rule bounded_energy_unit) simp
  then have "mset (map (\<lambda>(i, e, tr, u). (i, tr, u)) (apply_question_aware_boost demo_env (\<lambda>_. False) ''why''
      [(MemoryId 1, F32 1, [], demo_unit 1 ''a'' [])] algo_params_default)) = {#(MemoryId 1, [], demo_unit 1 ''a'' [])#}"
    using b by simp
  then have "map (\<lambda>(i, e, tr, u). (i, tr, u)) (apply_question_aware_boost demo_env (\<lambda>_. False) ''why''
      [(MemoryId 1, F32 1, [], demo_unit 1 ''a'' [])] algo_params_default) = [(MemoryId 1, [], demo_unit 1 ''a'' [])]"
    by (rule mset_single_iff[THEN iffD1])
  then show ?thesis by auto
qed

text \<open>The days a query asks for.\<close>

fun spec_days :: "temporal_query_spec \<Rightarrow> int set" where
  "spec_days (SingleDay day) = {day - 1..day + 1}"
| "spec_days (DayRange a b) = {a..b}"

lemma u32_of_int_eq:
  assumes "0 \<le> a" "a < 2 ^ 32" "0 \<le> b" "b < 2 ^ 32"
  shows "(of_int a :: u32) = of_int b \<longleftrightarrow> a = b"
proof
  assume "(of_int a :: u32) = of_int b"
  then have "uint (of_int a :: u32) = uint (of_int b :: u32)" by simp
  then show "a = b" using assms by (simp add: uint_word_of_int)
qed simp

lemma temporal_keys_set: "set (temporal_keys_for_spec spec) = of_int ` spec_days spec"
proof (cases spec)
  case (SingleDay d)
  have "{d - 1..d + 1} = {d - 1, d, d + 1}" by auto
  then show ?thesis by (simp add: SingleDay)
qed simp

text \<open>C39: a memory is found in the temporal channel of a query exactly when one of the days the query asks for
  is the day of the memory, or is equal to the number of its hour or of its week: the three kinds of
  buckets share one key space.\<close>

theorem temporal_keys_spec:
  assumes ts: "0 \<le> as_i64 ts" "as_i64 ts < 3600000 * 2 ^ 32" and days: "spec_days spec \<subseteq> {0..<2 ^ 32}"
  shows "set (temporal_keys_for_spec spec) \<inter> set (temporal_keys_from ts) \<noteq> {} \<longleftrightarrow>
    day_of ts \<in> spec_days spec \<or> as_i64 ts div 3600000 \<in> spec_days spec \<or> as_i64 ts div 604800000 \<in> spec_days spec"
proof -
  let ?n = "as_i64 ts"
  have i: "i64_div ?n k = ?n div k" for k using ts by (cases "?n = 0") (simp_all add: i64_div_def)
  have d: "day_of ts = ?n div 86400000" using ts by (cases "?n = 0") (simp_all add: day_of_def trunc_div_def MS_PER_DAY_def)
  have r: "0 \<le> ?n div k \<and> ?n div k < 2 ^ 32" if "3600000 \<le> k" for k
  proof -
    have "?n div k \<le> ?n div 3600000" using ts that by (intro zdiv_mono2) simp_all
    also have "\<dots> < 2 ^ 32" using ts by (simp add: div_less_iff_less_mult)
    finally show ?thesis using ts that by (simp add: pos_imp_zdiv_nonneg_iff)
  qed
  have m: "(of_int (?n div k) :: u32) \<in> of_int ` spec_days spec \<longleftrightarrow> ?n div k \<in> spec_days spec" if "3600000 \<le> k" for k
  proof
    assume "(of_int (?n div k) :: u32) \<in> of_int ` spec_days spec"
    then obtain x where x: "x \<in> spec_days spec" "(of_int (?n div k) :: u32) = of_int x" by auto
    then have "?n div k = x" using days r[OF that] by (subst (asm) u32_of_int_eq) auto
    with x show "?n div k \<in> spec_days spec" by simp
  qed simp
  show ?thesis
    using m[of 3600000] m[of 86400000] m[of 604800000]
    unfolding temporal_keys_set temporal_keys_from_def Let_def i d by auto
qed

text \<open>A query for 29 January 1978 finds a memory of July 2026.\<close>

lemma temporal_keys_spec_witness:
  "days_from_civil 1978 1 29 = 2950 \<and> civil_from_days (day_of (Timestamp 1784246400000)) = (2026, 7, 17) \<and>
   set (temporal_keys_for_spec (SingleDay 2950)) \<inter> set (temporal_keys_from (Timestamp 1784246400000)) \<noteq> {}"
proof -
  have "days_from_civil 1978 1 29 = 2950 \<and> civil_from_days (day_of (Timestamp 1784246400000)) = (2026, 7, 17)"
    by code_simp
  moreover have "set (temporal_keys_for_spec (SingleDay 2950)) \<inter> set (temporal_keys_from (Timestamp 1784246400000)) \<noteq> {}"
    by (subst temporal_keys_spec) auto
  ultimately show ?thesis by blast
qed

lemma temporal_bucket_keys_eq: "temporal_bucket_keys ts = temporal_keys_from ts"
  by (simp add: temporal_bucket_keys_def temporal_keys_from_def trunc_div_def i64_div_def)

text \<open>The words a query asks the goal index for, and the words a memory is enriched with.\<close>

definition goal_words :: "string list" where
  "goal_words = concat (map ld_goal_markers active_locales)"

definition goal_key_texts :: "string list" where
  "goal_key_texts = map (\<lambda>m. ''goal_marker:'' @ m) goal_words @ map (\<lambda>m. ''marker:'' @ m) goal_words"

lemma first_marker_in:
  assumes "first_marker rules word s = Some m"
  shows "m \<in> set (concat (map rules active_locales))"
  using assms find_first_Some unfolding first_marker_def by fast

text \<open>C40: the goal channel and the event channel of a query cannot find a memory that was understood by the
  rules: enrichment describes a goal by the prefix \<open>marker:\<close> and a goal word, the query asks for the
  prefix \<open>goal_marker:\<close> and a goal word, and events are not produced at all.\<close>

theorem goal_channel_disjoint:
  assumes hash: "inj_on (stable_hash64 env) (set goal_key_texts)"
    and raw: "mu_goals (understanding u) = []" "mu_events (understanding u) = []"
  shows "set (map (stable_hash64 env) (extract_query_goals q)) \<inter>
      set (goal_keys_from env (understanding (enrich_unit u))) = {} \<and>
    event_keys_from env (understanding (enrich_unit u)) = []"
proof -
  have "stable_hash64 env (''goal_marker:'' @ x) \<noteq> stable_hash64 env (''marker:'' @ y)"
    if "x \<in> set goal_words" "y \<in> set goal_words" for x y
  proof
    assume "stable_hash64 env (''goal_marker:'' @ x) = stable_hash64 env (''marker:'' @ y)"
    moreover have "''goal_marker:'' @ x \<in> set goal_key_texts" "''marker:'' @ y \<in> set goal_key_texts"
      using that by (auto simp: goal_key_texts_def)
    ultimately have "''goal_marker:'' @ x = ''marker:'' @ y" using hash by (auto dest: inj_onD)
    then show False by simp
  qed
  moreover have "\<exists>x \<in> set goal_words. k = stable_hash64 env (''goal_marker:'' @ x)"
    if "k \<in> set (map (stable_hash64 env) (extract_query_goals q))" for k
    using that by (auto simp: extract_query_goals_def goal_words_def)
  moreover have "\<exists>y \<in> set goal_words. k = stable_hash64 env (''marker:'' @ y)"
    if k: "k \<in> set (goal_keys_from env (understanding (enrich_unit u)))" for k
  proof -
    note defs = goal_keys_from_def enrich_unit_def enrich_understanding_def extract_goals_enrich_def Let_def
    show ?thesis
    proof (cases "first_marker ld_goal_markers (\<lambda>w. w) (mc_raw (content u))")
      case None
      then show ?thesis using k raw by (simp add: defs)
    next
      case (Some m)
      then have "k = stable_hash64 env (''marker:'' @ m)" using k raw by (simp add: defs stable_hash64_def)
      then show ?thesis using first_marker_in[OF Some] unfolding goal_words_def by blast
    qed
  qed
  ultimately have "set (map (stable_hash64 env) (extract_query_goals q)) \<inter>
      set (goal_keys_from env (understanding (enrich_unit u))) = {}" by blast
  then show ?thesis
    using raw by (simp add: event_keys_from_def enrich_unit_def enrich_understanding_def Let_def)
qed

text \<open>A hash that numbers the texts.\<close>

definition numbering_env :: "text_env" where
  "numbering_env = demo_env\<lparr>xxh3_64 := (\<lambda>s. of_nat (position (\<lambda>t. t = s) goal_key_texts))\<rparr>"

lemma u64_of_nat_inj:
  assumes "a < 2 ^ 64" "b < 2 ^ 64" "(of_nat a :: u64) = of_nat b"
  shows "a = b"
proof -
  have "unat (of_nat a :: u64) = unat (of_nat b :: u64)" using assms(3) by simp
  then show ?thesis using assms(1,2) by (simp add: unat_of_nat)
qed

lemma numbering_env_inj: "inj_on (stable_hash64 numbering_env) (set goal_key_texts)"
proof (rule inj_onI)
  fix s t
  assume st: "s \<in> set goal_key_texts" "t \<in> set goal_key_texts" "stable_hash64 numbering_env s = stable_hash64 numbering_env t"
  let ?p = "\<lambda>s. position (\<lambda>t. t = s) goal_key_texts"
  have "length goal_key_texts = 16"
    by (simp add: goal_key_texts_def goal_words_def active_locales_def lang_zh_def lang_en_def)
  then have "?p s < 2 ^ 64" "?p t < 2 ^ 64"
    using position_less[OF st(1), of "\<lambda>x. x = s"] position_less[OF st(2), of "\<lambda>x. x = t"] by simp_all
  moreover have "(of_nat (?p s) :: u64) = of_nat (?p t)"
    using st(3) by (simp add: numbering_env_def stable_hash64_def)
  ultimately have "?p s = ?p t" by (rule u64_of_nat_inj)
  moreover have "goal_key_texts ! ?p s = s" using nth_position[OF st(1), of "\<lambda>x. x = s"] by blast
  moreover have "goal_key_texts ! ?p t = t" using nth_position[OF st(2), of "\<lambda>x. x = t"] by blast
  ultimately show "s = t" by argo
qed

lemma goal_channel_disjoint_witness:
  "set (map (stable_hash64 numbering_env) (extract_query_goals ''my goal'')) \<inter>
     set (goal_keys_from numbering_env (understanding (enrich_unit (demo_unit 1 ''my goal'' [])))) = {}"
proof -
  have "mu_goals (understanding (demo_unit 1 ''my goal'' [])) = []" "mu_events (understanding (demo_unit 1 ''my goal'' [])) = []"
    by (simp_all add: demo_unit_def)
  from goal_channel_disjoint[OF numbering_env_inj this] show ?thesis by blast
qed

text \<open>The subject of a query is looked for before the words \<open>what is\<close>, also in English, where it follows
  them: a query that begins with them has none.\<close>

theorem english_what_subject:
  assumes "str_to_lowercase env query = ''what is'' @ rest"
    and "\<forall>d \<in> set (ld_what_delimiters lang_zh). \<not> str_contains (''what is'' @ rest) d"
  shows "extract_subject_for_what_query env query = None"
proof -
  have skip: "subject_scan (map (Pair lang) ds @ more) q = subject_scan more q"
    if "\<forall>d \<in> set ds. \<not> str_contains q d" for lang ds more q
    using that by (induction ds) (auto simp: str_contains_def)
  have "subject_before lang_en [] = []"
    by (simp add: subject_before_def lang_en_def after_last_def str_trim_def trim_chars_def chars_def of_chars_def)
  then have "subject_scan (map (Pair lang_en) (ld_what_delimiters lang_en)) (''what is'' @ rest) = None"
    by (simp add: lang_en_def)
  then show ?thesis
    using skip[OF assms(2), of lang_zh "map (Pair lang_en) (ld_what_delimiters lang_en)"]
    by (simp add: extract_subject_for_what_query_def active_locales_def assms(1))
qed

end
