(* ===== verification/Engine_Retrieve.thy ===== *)
theory Engine_Retrieve
  imports Engine_Query Engine_Write Engine_Feedback
begin

text \<open>
  Retrieval (\<open>retrieve\<close> in \<open>hippmem-engine/src/retrieve_api.rs\<close>): the hits of the ten recall channels,
  fusion, the loading of units and edges around the seeds, spreading, reranking with its corrections,
  the results, the records of the retrieval and the update of the activation states. The full-text
  search, \<open>tanh\<close>, the power function, the Unicode table of upper-case letters and the name of the embedder
  are parameters in addition to those of the write path. The clock is read three times.
\<close>

section \<open>Input and output (lib.rs)\<close>

record retrieve_context =
  rx_conversation_id :: "u64 option"
  rx_session_id :: "u64 option"
  rx_project_id :: "u64 option"
  rx_task_id :: "u64 option"
  rx_user_id :: "u64 option"
  rx_recent_memory_ids :: "memory_id list"

record retrieve_input =
  ri_query :: string
  ri_context :: retrieve_context
  ri_top_k :: usize
  ri_max_hops :: "usize option"
  ri_retrieval_mode :: retrieval_mode

record seed_record =
  sc_id :: memory_id
  sc_channel :: recall_channel
  sc_initial_energy :: f32
  sc_rank_in_channel :: "usize option"

record retrieval_trace =
  tc_seeds :: "seed_record list"
  tc_steps :: "activation_step list"
  tc_hops_used :: u8
  tc_merged_count :: usize

record backend_usage =
  bu_embedder :: string
  bu_reranker :: "string option"

record retrieval_diagnostics =
  rd_channel_contributions :: "(recall_channel \<times> u32) list"
  rd_reranked :: bool
  rd_pruned_branches :: u32
  rd_backend_used :: backend_usage
  rd_latency_ms :: u32

record retrieve_output =
  ro_retrieval_id :: u64
  ro_results :: "retrieval_result list"
  ro_trace :: retrieval_trace
  ro_diagnostics :: retrieval_diagnostics

section \<open>Parameters\<close>

record 'f search_backends =
  sb_is_uppercase :: "nat \<Rightarrow> bool"
  sb_ft_search :: "'f \<Rightarrow> string \<Rightarrow> nat \<Rightarrow> string + (u128 \<times> f32) list"
  sb_tanh :: "f32 \<Rightarrow> f32"
  sb_powf :: "f64 \<Rightarrow> f64 \<Rightarrow> f64"
  sb_embedder_id :: string

record query_clock =
  qc_now :: timestamp
  qc_context_ms :: i64
  qc_record_ms :: i64
  qc_latency_ms :: u32

section \<open>Understanding the query\<close>

definition query_content :: "string \<Rightarrow> memory_content" where
  "query_content q =
     \<lparr>mc_raw = q, mc_summary = None, mc_normalized = None, mc_language = Lang_Zh,
      mc_content_type = CT_UserStatement\<rparr>"

definition no_extraction :: immediate_extraction where
  "no_extraction =
     \<lparr>ie_entities = [], ie_topics = [], ie_explicit_causals = [], ie_language = Lang_Zh,
      ie_content_type = None, ie_importance = unit_score_new (F32 0)\<rparr>"

definition query_understanding :: "'f backends \<Rightarrow> string \<Rightarrow> immediate_extraction option" where
  "query_understanding be q =
     map_option (\<lambda>res. case res of Inr imm \<Rightarrow> imm | Inl _ \<Rightarrow> no_extraction) (be_extract be (query_content q))"

definition fingerprint :: "text_env \<Rightarrow> immediate_extraction \<Rightarrow> query_context" where
  "fingerprint env imm =
     \<lparr>entity_hashes = map (\<lambda>em. stable_hash64 env (em_canonical em)) (ie_entities imm),
      topic_hashes = map (\<lambda>t. stable_hash64 env (tt_label t)) (ie_topics imm)\<rparr>"

section \<open>The recall channels\<close>

definition cmp_hit_id :: "memory_id \<times> 'a \<Rightarrow> memory_id \<times> 'a \<Rightarrow> ordering" where
  "cmp_hit_id a b = cmp_lin (fst a) (fst b)"

definition entity_channel ::
    "('d, 'b) redb \<Rightarrow> 'b bincode \<Rightarrow> text_env \<Rightarrow> entity_mention list \<Rightarrow> 'd \<Rightarrow> (memory_id \<times> f32) list" where
  "entity_channel r bc env ems d =
     (let covered = fold (\<lambda>em m. fold (\<lambda>i. entry_upsert i (\<lambda>k. k + 1) (1 :: u32))
            (hits (get_entity r bc (stable_hash64 env (em_canonical em)) d)) m) ems []
      in sort_by cmp_f32_desc_id (map (\<lambda>(i, k). (i, entity_coverage_score k)) covered))"

definition topic_channel ::
    "('d, 'b) redb \<Rightarrow> 'b bincode \<Rightarrow> text_env \<Rightarrow> topic_tag list \<Rightarrow> 'd \<Rightarrow> (memory_id \<times> f32) list" where
  "topic_channel r bc env ts d =
     concat (map (\<lambda>t. map (\<lambda>i. (i, f32_of_rat (15/100)))
       (hits (get_topic r bc (stable_hash64 env (tt_label t)) d))) ts)"

definition query_temporal_keys :: "string \<Rightarrow> timestamp \<Rightarrow> u32 list" where
  "query_temporal_keys q now =
     (case parse_temporal_query q now of
        Some spec \<Rightarrow> temporal_keys_for_spec spec
      | None \<Rightarrow> temporal_bucket_keys now)"

definition temporal_channel ::
    "('d, 'b) redb \<Rightarrow> 'b bincode \<Rightarrow> u32 list \<Rightarrow> 'd \<Rightarrow> (memory_id \<times> bool) list" where
  "temporal_channel r bc ks d =
     map (\<lambda>i. (i, True)) (sort (remdups (concat (map (\<lambda>k. hits (get_temporal r bc k d)) ks))))"

definition bm25_channel ::
    "'f search_backends \<Rightarrow> algo_params \<Rightarrow> string \<Rightarrow> 'f \<Rightarrow> (memory_id \<times> f32) list" where
  "bm25_channel sb p q ft =
     sort_by cmp_f32_desc_id
       (map (\<lambda>(i, s). (MemoryId i, sb_tanh sb (s / bm25_norm_factor p)))
         (case sb_ft_search sb ft q (unat (seed_per_channel p)) of Inr xs \<Rightarrow> xs | Inl _ \<Rightarrow> []))"

definition positive_hits :: "(memory_id \<times> f32) list \<Rightarrow> (memory_id \<times> f32) list" where
  "positive_hits = filter (\<lambda>(_, s). 0 < s)"

definition dense_channel ::
    "'f backends \<Rightarrow> string \<Rightarrow> flat_vector_index \<Rightarrow> (memory_id \<times> f32) list" where
  "dense_channel be q ix =
     (case be_embed be [q] of
        Inr (v # _) \<Rightarrow>
          positive_hits (map (\<lambda>(i, l2). (MemoryId i, 1 / (1 + l2)))
            (case flat_index_search ix v (unat (seed_per_channel (be_algo be))) of Inr xs \<Rightarrow> xs | Inl _ \<Rightarrow> []))
      | _ \<Rightarrow> [])"

definition binary_channel ::
    "'f backends \<Rightarrow> string \<Rightarrow> binary_code_index \<Rightarrow> (memory_id \<times> f32) list" where
  "binary_channel be q ix =
     positive_hits (map (\<lambda>(i, h). (MemoryId i, f32_max (1 - f32_of_u32 h / f32_of_rat 128) 0))
       (case binary_index_search ix (query_binary_code (be_text be) q)
          (unat (seed_per_channel (be_algo be))) of Inr xs \<Rightarrow> xs | Inl _ \<Rightarrow> []))"

definition overlap_channel :: "(u64 \<Rightarrow> store_error + u128 list) \<Rightarrow> text_env \<Rightarrow> string list \<Rightarrow> (memory_id \<times> usize) list" where
  "overlap_channel get env words =
     concat (map (\<lambda>w. map (\<lambda>i. (i, 1)) (hits (get (stable_hash64 env w)))) words)"

definition recent_channel ::
    "('d, 'b) redb \<Rightarrow> 'b bincode \<Rightarrow> algo_params \<Rightarrow> memory_id list \<Rightarrow> 'd \<Rightarrow> (memory_id \<times> f32) list" where
  "recent_channel r bc p recent d =
     (let direct = fold (\<lambda>i. entry_upsert i (\<lambda>s. f32_min (s + f32_of_rat (3/10)) 1) (f32_of_rat (3/10))) recent [];
          all = fold (\<lambda>i m. case get_outgoing r bc i d of
                Inl _ \<Rightarrow> m
              | Inr ls \<Rightarrow> fold (\<lambda>l. entry_upsert (target_id l)
                  (\<lambda>s. f32_min (s + f32_of_rat (15/100)) 1) (f32_of_rat (15/100))) (take 8 ls) m) recent direct
      in take (unat (seed_per_channel p)) (sort_by (cmp_f32_desc snd) (sort_by cmp_hit_id all)))"

definition query_hits ::
    "('d, 'b) redb \<Rightarrow> 'b bincode \<Rightarrow> 'f backends \<Rightarrow> 'f search_backends \<Rightarrow> timestamp \<Rightarrow> retrieve_input
      \<Rightarrow> immediate_extraction \<Rightarrow> ('d, 'f) engine_state \<Rightarrow> channel_hits" where
  "query_hits r bc be sb now input imm st =
     (let env = be_text be; p = be_algo be; q = ri_query input; d = eg_db st in
      \<lparr>entity_hits = entity_channel r bc env (ie_entities imm) d,
       temporal_hits = temporal_channel r bc (query_temporal_keys q now) d,
       semantic_hits = dense_channel be q (eg_dense st),
       topic_hits = topic_channel r bc env (ie_topics imm) d,
       bm25_hits = bm25_channel sb p q (eg_fulltext st),
       binary_hits = binary_channel be q (eg_binary st),
       goal_hits = overlap_channel (\<lambda>k. get_goal r bc k d) env (extract_query_goals q),
       event_hits = overlap_channel (\<lambda>k. get_event r bc k d) env (extract_query_events q),
       causal_hits = overlap_channel (\<lambda>k. get_causal r bc k d) env
         (map (\<lambda>c. cc_cause c @ '' -> '' @ cc_effect c) (ie_explicit_causals imm)),
       recent_hits = recent_channel r bc p (rx_recent_memory_ids (ri_context input)) d\<rparr>)"

section \<open>Loading units\<close>

definition load_units_by_ids ::
    "('d, 'b) redb \<Rightarrow> 'b bincode \<Rightarrow> memory_id list \<Rightarrow> 'd \<Rightarrow> engine_error + memory_unit list" where
  "load_units_by_ids r bc ids d =
     (if ids = [] then Inr []
      else read_txn r (\<lambda>f. EE_Panic (fault_text f)) d (T128 MEMORY_KV)
        (Inr (List.map_filter (\<lambda>i. case db_get r d (C128 MEMORY_KV (as_u128 i)) of
            Some v \<Rightarrow> result_ok (dec (c_unit bc) v) | None \<Rightarrow> None) ids)))"

definition load_limited_units ::
    "('d, 'b) redb \<Rightarrow> 'b bincode \<Rightarrow> nat \<Rightarrow> 'd \<Rightarrow> engine_error + memory_unit list" where
  "load_limited_units r bc limit d =
     read_txn r (\<lambda>f. EE_Panic (fault_text f)) d (T128 MEMORY_KV)
       (Inr (List.map_filter (\<lambda>(_, v). result_ok (dec (c_unit bc) v)) (take limit (db_iter128 r MEMORY_KV d))))"

type_synonym unit_map = "memory_id \<Rightarrow> memory_unit option"

definition insert_units :: "memory_unit list \<Rightarrow> unit_map \<Rightarrow> unit_map" where
  "insert_units us m = fold (\<lambda>u m. m(mem_id u \<mapsto> u)) us m"

definition insert_new_units :: "memory_unit list \<Rightarrow> unit_map \<Rightarrow> unit_map" where
  "insert_new_units us m = fold (\<lambda>u m. if m (mem_id u) = None then m(mem_id u \<mapsto> u) else m) us m"

definition excluded_in :: "unit_map \<Rightarrow> memory_id \<Rightarrow> bool" where
  "excluded_in m i = (case m i of Some u \<Rightarrow> is_retrieval_seed_excluded u | None \<Rightarrow> False)"

section \<open>Spreading around the seeds\<close>

definition fused_seeds ::
    "('d, 'b) redb \<Rightarrow> 'b bincode \<Rightarrow> algo_params \<Rightarrow> seed list \<Rightarrow> 'd \<Rightarrow> engine_error + fused_scores" where
  "fused_seeds r bc p seeds d =
     (if seeds = [] then
        and_then (load_limited_units r bc 50 d) (\<lambda>us.
          let v = (f32_of_rat (3/10), RC_RecentActivation) in
          Inr (fold (\<lambda>u. entry_upsert (mem_id u) (\<lambda>_. v) v) (filter (\<lambda>u. \<not> is_retrieval_seed_excluded u) us) []))
      else Inr (rrf_fuse seeds p))"

definition add_links ::
    "('d, 'b) redb \<Rightarrow> 'b bincode \<Rightarrow> 'd \<Rightarrow> memory_id list \<Rightarrow> links_map \<Rightarrow> links_map" where
  "add_links r bc d ids lm =
     fold (\<lambda>i lm. case get_outgoing r bc i d of Inr ls \<Rightarrow> lm(i \<mapsto> ls) | Inl _ \<Rightarrow> lm) ids lm"

definition neighbour_ids :: "memory_id list \<Rightarrow> links_map \<Rightarrow> memory_id list" where
  "neighbour_ids seeds lm =
     filter (\<lambda>t. lm t = None)
       (concat (map (\<lambda>i. case lm i of Some ls \<Rightarrow> map target_id ls | None \<Rightarrow> []) seeds))"

record gathered =
  ga_units :: unit_map
  ga_activated :: "activated list"
  ga_merged :: usize

text \<open>The maps of units and edges are only looked up, so the order in which the hash maps of the code are
  iterated for filling them does not matter.\<close>

definition gather ::
    "('d, 'b) redb \<Rightarrow> 'b bincode \<Rightarrow> algo_params \<Rightarrow> usize option \<Rightarrow> fused_scores \<Rightarrow> 'd \<Rightarrow> engine_error + gathered" where
  "gather r bc p max_hops fused0 d =
     and_then (load_units_by_ids r bc (map fst fused0) d) (\<lambda>seed_units.
     let m1 = insert_units seed_units (\<lambda>_. None);
         fused = filter (\<lambda>(i, _). \<not> excluded_in m1 i) fused0;
         importance = (\<lambda>i. map_option (\<lambda>u. score_value (mu_importance (understanding u))) (m1 i));
         lm1 = add_links r bc d (map fst fused) (\<lambda>_. None);
         ids = neighbour_ids (map fst fused) lm1 in
     and_then (load_units_by_ids r bc ids d) (\<lambda>neighbours.
     let m2 = insert_new_units neighbours m1;
         lm2 = add_links r bc d (filter (\<lambda>i. \<not> excluded_in m2 i) ids) lm1;
         (activated, merged) = spread_multi_hop_fused fused lm2 p importance (map_option of_nat max_hops) in
     and_then (load_units_by_ids r bc (filter (\<lambda>i. m2 i = None) (map fst activated)) d) (\<lambda>extra.
       Inr \<lparr>ga_units = insert_units extra m2, ga_activated = activated, ga_merged = merged\<rparr>)))"

section \<open>Ranking\<close>

text \<open>Sorting by identifier and then, stably, by energy.\<close>

definition by_energy :: "scored list \<Rightarrow> scored list" where
  "by_energy xs = sort_by (cmp_f32_desc (\<lambda>(_, e, _, _). e)) (sort_by cmp_hit_id xs)"

definition compressed_unit :: "memory_unit \<Rightarrow> bool" where
  "compressed_unit u \<longleftrightarrow> is_compressed (lifecycle u)"

definition context_correction :: "(u128 \<times> f32) list \<Rightarrow> scored list \<Rightarrow> scored list" where
  "context_correction strengths ranked =
     (if strengths = [] then ranked
      else by_energy (map (\<lambda>(i, e, tr, u).
        (i, case map_of strengths (as_u128 i) of Some s \<Rightarrow> e * (1 + CONTEXT_BOOST_ALPHA * s) | None \<Rightarrow> e, tr, u)) ranked))"

definition covered_entities :: "entity_mention list \<Rightarrow> memory_unit \<Rightarrow> nat" where
  "covered_entities ems u =
     length (filter (\<lambda>em. em_canonical em \<in> set (map em_canonical ems)) (mu_entities (understanding u)))"

definition coverage_correction :: "entity_mention list \<Rightarrow> scored list \<Rightarrow> scored list" where
  "coverage_correction ems ranked =
     (if length ems < 2 then ranked
      else by_energy (map_energy (\<lambda>u e.
        let covered = covered_entities ems u
        in if 0 < covered then e * (1 + ENTITY_COVERAGE_BETA * (f32_of_nat covered / f32_of_nat (length ems))) else e)
          ranked))"

definition rank_candidates ::
    "text_env \<Rightarrow> (nat \<Rightarrow> bool) \<Rightarrow> algo_params \<Rightarrow> string \<Rightarrow> immediate_extraction \<Rightarrow> (u128 \<times> f32) list \<Rightarrow> gathered
      \<Rightarrow> scored list" where
  "rank_candidates env upper p q imm strengths ga =
     (let loaded = List.map_filter (\<lambda>(i, _, _). ga_units ga i) (ga_activated ga);
          reranked = rerank_by_energy (ga_activated ga) loaded;
          boosted = apply_question_aware_boost env upper q reranked p;
          visible = filter (\<lambda>(_, _, _, u). \<not> compressed_unit u) boosted
      in coverage_correction (ie_entities imm) (context_correction strengths visible))"

definition result_of :: "scored \<Rightarrow> retrieval_result" where
  "result_of x =
     (case x of (i, e, tr, u) \<Rightarrow>
        \<lparr>rr_memory = u, rr_final_score = e, rr_activation_trace = tr,
         rr_matched_dimensions = deduce_dimensions tr, rr_warnings = check_warnings u e\<rparr>)"

section \<open>Records of a retrieval\<close>

definition retrieval_record :: "i64 \<Rightarrow> retrieval_result list \<Rightarrow> activation_record" where
  "retrieval_record now_ms results =
     \<lparr>retrieval_id = of_int now_ms, used_memory_ids = map (\<lambda>x. as_u128 (mem_id (rr_memory x))) results,
      signal = ''retrieve'', recorded_at_ms = now_ms\<rparr>"

text \<open>The first step of a trace that follows an edge.\<close>

definition result_path :: "activation_step list \<Rightarrow> retrieval_path option" where
  "result_path steps =
     (case find_first (\<lambda>s. step_from s \<noteq> None) steps of
        None \<Rightarrow> None
      | Some s \<Rightarrow> map_option (\<lambda>f. \<lparr>path_from = as_u128 f, path_to = as_u128 (step_to s)\<rparr>) (step_from s))"

definition result_paths :: "activated list \<Rightarrow> retrieval_path list" where
  "result_paths act = List.map_filter (\<lambda>(_, _, steps). result_path steps) act"

definition record_retrieval ::
    "('d, 'b) redb \<Rightarrow> 'b bincode \<Rightarrow> activation_record \<Rightarrow> query_context \<Rightarrow> retrieval_path list \<Rightarrow> ('d, unit) eng" where
  "record_retrieval r bc rec ctx paths =
     eng_bind (eng_ignore (eng_write EE_Internal (record_activation r bc rec))) (\<lambda>_.
     eng_bind (eng_ignore (eng_write EE_Internal (write_query_context r bc (retrieval_id rec) ctx))) (\<lambda>_.
       eng_ignore (eng_write EE_Internal (write_retrieval_paths r bc (retrieval_id rec) paths))))"

fun bump_co :: "timestamp \<Rightarrow> memory_id \<Rightarrow> co_activation_count list \<Rightarrow> co_activation_count list" where
  "bump_co now i [] = [\<lparr>ca_with = i, ca_count = 1, ca_last_at = now\<rparr>]"
| "bump_co now i (c # cs) =
     (if ca_with c = i
      then c\<lparr>ca_count := u32_saturating_add (ca_count c) 1, ca_last_at := now\<rparr> # cs
      else c # bump_co now i cs)"

definition co_activate ::
    "timestamp \<Rightarrow> nat \<Rightarrow> memory_id list \<Rightarrow> memory_id \<Rightarrow> co_activation_count list \<Rightarrow> co_activation_count list" where
  "co_activate now max_co ids i co =
     (let all = fold (\<lambda>j co. if j = i then co else bump_co now j co) ids co
      in if max_co < length all
         then take max_co (sort_by (\<lambda>a b. cmp_lin (as_i64 (ca_last_at b)) (as_i64 (ca_last_at a))) all)
         else all)"

definition touch_unit :: "timestamp \<Rightarrow> nat \<Rightarrow> memory_id list \<Rightarrow> memory_id \<Rightarrow> memory_unit \<Rightarrow> memory_unit" where
  "touch_unit now max_co ids i u =
     u\<lparr>activation := (activation u)
         \<lparr>retrieval_count := u32_saturating_add (retrieval_count (activation u)) 1,
          last_retrieved_at := Some now,
          co_activations := co_activate now max_co ids i (co_activations (activation u))\<rparr>\<rparr>"

definition touch_one ::
    "('d, 'b) redb \<Rightarrow> 'b bincode \<Rightarrow> timestamp \<Rightarrow> nat \<Rightarrow> memory_id list \<Rightarrow> memory_id \<Rightarrow> unit \<Rightarrow> ('d, unit) eng" where
  "touch_one r bc now max_co ids i _ =
     eng_bind (eng_read engine_error_of (kv_get r (as_u128 i))) (\<lambda>raw.
       case raw of
         None \<Rightarrow> eng_return ()
       | Some raw \<Rightarrow>
           eng_bind (eng_pure EE_Internal (dec (c_unit bc) raw)) (\<lambda>u.
           eng_bind (eng_pure EE_Internal (enc (c_unit bc) (touch_unit now max_co ids i u))) (\<lambda>encoded.
             eng_write engine_error_of (kv_put r (as_u128 i) encoded))))"

section \<open>The retrieval\<close>

definition channel_counts :: "seed list \<Rightarrow> (recall_channel \<times> u32) list" where
  "channel_counts ss = fold (\<lambda>s. entry_upsert (sd_channel s) (\<lambda>n. n + 1) 1) ss []"

definition max_hop :: "activation_step list \<Rightarrow> u8" where
  "max_hop steps = fold (\<lambda>s m. max m (step_hop s)) steps 0"

definition retrieval_output ::
    "'f search_backends \<Rightarrow> query_clock \<Rightarrow> seed list \<Rightarrow> gathered \<Rightarrow> retrieval_result list \<Rightarrow> retrieve_output" where
  "retrieval_output sb clock seeds ga results =
     (let used = filter (\<lambda>s. \<not> excluded_in (ga_units ga) (sd_id s)) seeds;
          steps = concat (map (\<lambda>(_, _, tr). tr) (ga_activated ga)) in
      \<lparr>ro_retrieval_id = of_int (qc_record_ms clock), ro_results = results,
       ro_trace = \<lparr>tc_seeds = map (\<lambda>s. \<lparr>sc_id = sd_id s, sc_channel = sd_channel s,
           sc_initial_energy = sd_score s, sc_rank_in_channel = sd_rank_in_channel s\<rparr>) used,
         tc_steps = steps, tc_hops_used = max_hop steps, tc_merged_count = ga_merged ga\<rparr>,
       ro_diagnostics = \<lparr>rd_channel_contributions = channel_counts used, rd_reranked = True,
         rd_pruned_branches = 0,
         rd_backend_used = \<lparr>bu_embedder = sb_embedder_id sb, bu_reranker = Some ''rule''\<rparr>,
         rd_latency_ms = qc_latency_ms clock\<rparr>\<rparr>)"

definition query_seeds ::
    "('d, 'b) redb \<Rightarrow> 'b bincode \<Rightarrow> 'f backends \<Rightarrow> 'f search_backends \<Rightarrow> query_clock \<Rightarrow> retrieve_input
      \<Rightarrow> immediate_extraction \<Rightarrow> ('d, 'f) engine_state \<Rightarrow> seed list" where
  "query_seeds r bc be sb clock input imm st =
     sr_seeds (multi_channel_seeds (query_hits r bc be sb (qc_now clock) input imm st)
       (unat (seed_per_channel (be_algo be))))"

text \<open>The reading half: the candidates in their final order, cut to the number asked for.\<close>

definition search ::
    "('d, 'b) redb \<Rightarrow> 'b bincode \<Rightarrow> 'f backends \<Rightarrow> 'f search_backends \<Rightarrow> query_clock \<Rightarrow> retrieve_input
      \<Rightarrow> immediate_extraction \<Rightarrow> ('d, 'f) engine_state \<Rightarrow> engine_error + (gathered \<times> retrieval_result list)" where
  "search r bc be sb clock input imm st =
     (let env = be_text be; p = be_algo be; d = eg_db st in
      and_then (fused_seeds r bc p (query_seeds r bc be sb clock input imm st) d) (\<lambda>fused.
      and_then (gather r bc p (ri_max_hops input) fused d) (\<lambda>ga.
        let max_k = min (ri_top_k input) (length (ga_activated ga));
            strengths = collect_link_strengths r bc (sb_powf sb) (fingerprint env imm) (qc_context_ms clock) d
        in Inr (ga, map result_of (take max_k
             (rank_candidates env (sb_is_uppercase sb) p (ri_query input) imm strengths ga))))))"

definition retrieve ::
    "('d, 'b) redb \<Rightarrow> 'b bincode \<Rightarrow> 'f backends \<Rightarrow> 'f search_backends \<Rightarrow> query_clock \<Rightarrow> retrieve_input
      \<Rightarrow> (('d, 'f) engine_state, retrieve_output) eng" where
  "retrieve r bc be sb clock input st =
     (case query_understanding be (ri_query input) of
        None \<Rightarrow> (st, Inl (EE_Panic ''extractor''))
      | Some imm \<Rightarrow>
          (case search r bc be sb clock input imm st of
             Inl e \<Rightarrow> (st, Inl e)
           | Inr (ga, results) \<Rightarrow>
               (let rec = retrieval_record (qc_record_ms clock) results;
                    ids = map (\<lambda>x. mem_id (rr_memory x)) results;
                    now = Timestamp (sint (retrieval_id rec)) in
                eng_bind (on_db (record_retrieval r bc rec (fingerprint (be_text be) imm)
                  (result_paths (ga_activated ga)))) (\<lambda>_.
                eng_bind (on_db (eng_loop (touch_one r bc now (unat (co_activation_keep (be_algo be))) ids) ids ()))
                  (\<lambda>_. eng_return (retrieval_output sb clock
                     (query_seeds r bc be sb clock input imm st) ga results))) st)))"

end
