(* ===== verification/Engine_Recall.thy ===== *)
theory Engine_Recall
  imports Engine_Retrieve
begin

text \<open>
  What a retrieval guarantees: the reading half of \<open>retrieve\<close> (seeds, loaded units and edges, spreading,
  ranking) and the writing half (the records of the retrieval and the activation states).
\<close>

section \<open>Inputs\<close>

definition rrf_params_ok :: "algo_params \<Rightarrow> bool" where
  "rrf_params_ok p \<longleftrightarrow> (\<forall>ch. unit_f32 (rrf_channel_weight p ch)) \<and> (\<exists>k. rrf_k p = F32 k \<and> 1 \<le> k)"

definition units_ok :: "('d, 'b) redb \<Rightarrow> 'b bincode \<Rightarrow> 'd \<Rightarrow> bool" where
  "units_ok r bc d \<longleftrightarrow>
     (\<forall>j u. unit_at r bc d j = Some u \<longrightarrow> score_wf (mu_importance (understanding u)) \<and>
        length (mu_entities (understanding u)) < 2 ^ 64) \<and>
     (\<forall>j. links_wf (links_at r bc d j))"

definition query_params_ok :: "algo_params \<Rightarrow> usize option \<Rightarrow> bool" where
  "query_params_ok p max_hops \<longleftrightarrow>
     energy_params_ok p \<and> rrf_params_ok p \<and> hop_limit p (map_option of_nat max_hops) < 2 ^ 31"

section \<open>Fused scores\<close>

lemma unit_div_ge_one:
  assumes "unit_f32 w" "F32 1 \<le> y"
  shows "unit_f32 (w / y)"
proof -
  obtain a where a: "w = F32 a" "0 \<le> a" "a \<le> 1" using assms(1) by (rule unit_f32E)
  show ?thesis
  proof (cases y)
    case (F32 b)
    then have "1 \<le> b" using assms(2) by simp
    then have "0 \<le> a / b" "a / b \<le> 1" using a by (simp_all add: divide_le_eq)
    then show ?thesis using \<open>1 \<le> b\<close> by (simp add: a F32 f32_div_simp unit_f32_of_rat)
  next
    case F32_Inf
    then show ?thesis by (simp add: a divide_f32_def)
  qed (use assms(2) in auto)
qed

lemma rrf_contrib_unit:
  assumes "rrf_params_ok p"
  shows "unit_f32 (rrf_contrib p s)"
proof -
  obtain k where k: "rrf_k p = F32 k" "1 \<le> k" using assms by (auto simp: rrf_params_ok_def)
  define rank where "rank = f32_of_nat (case sd_rank_in_channel s of Some r \<Rightarrow> r | None \<Rightarrow> 99)"
  have "F32 0 \<le> rank" by (simp add: rank_def f32_of_nat_def f32_of_rat_nonneg)
  then have "F32 1 \<le> F32 k + rank"
    using k(2) by (cases rank) (auto simp: plus_f32_def intro!: f32_of_rat_ge)
  then show ?thesis
    using assms unit_div_ge_one by (simp add: rrf_contrib_def Let_def k rank_def rrf_params_ok_def)
qed

lemma entry_upsert_subset: "set (entry_upsert k f v m) \<subseteq> insert (k, v) (set m \<union> (\<lambda>(j, x). (j, f x)) ` set m)"
  by (induction m) (auto split: if_splits)

lemma fuse_loop_bounded:
  assumes p: "rrf_params_ok p" and m: "\<forall>(i, v, ch) \<in> set f. bounded_energy v"
    and run: "fuse_loop p ss (f, b) = (f', b')"
  shows "\<forall>(i, v, ch) \<in> set f'. bounded_energy v"
  using m run
proof (induction ss arbitrary: f b)
  case (Cons s ss)
  let ?c = "rrf_contrib p s"
  have c: "bounded_energy ?c" "bounded_energy (v + ?c)" if "bounded_energy v" for v
    using rrf_contrib_unit[OF p] bounded_energy_unit bounded_energy_add_unit(1)[OF that] by blast+
  have c0: "bounded_energy ?c" using rrf_contrib_unit[OF p] bounded_energy_unit by blast
  have "\<forall>(i, v, ch) \<in> set (entry_upsert (sd_id s) (\<lambda>(v, ch). (v + ?c, ch)) (?c, sd_channel s) f). bounded_energy v"
    using Cons.prems(1) c(2) c0 entry_upsert_subset[of "sd_id s" "\<lambda>(v, ch). (v + ?c, ch)" "(?c, sd_channel s)" f]
    by fastforce
  from Cons.IH[OF this] Cons.prems(2) show ?case by (simp add: Let_def)
qed simp

lemma fused_ok_bounded: "\<forall>(i, v, ch) \<in> set f. bounded_energy v \<Longrightarrow> fused_ok f"
  by (fastforce simp: fused_ok_def list_all_iff elim!: bounded_energyE)

lemma rrf_fuse_bounded:
  assumes "rrf_params_ok p"
  shows "\<forall>(i, v, ch) \<in> set (rrf_fuse ss p). bounded_energy v"
proof -
  obtain k where k: "rrf_k p = F32 k" "1 \<le> k" using assms by (auto simp: rrf_params_ok_def)
  obtain f b where fb: "fuse_loop p ss ([], []) = (f, b)" by fastforce
  have "\<forall>(i, v, ch) \<in> set f. bounded_energy v" by (rule fuse_loop_bounded[OF assms _ fb]) simp
  then show ?thesis using k by (auto simp: rrf_fuse_def fb set_best_channel_def)
qed

section \<open>Loading\<close>

lemma load_units_by_ids_ok:
  assumes "fault_free r"
  shows "load_units_by_ids r bc ids d = Inr (List.map_filter (\<lambda>i. unit_at r bc d (as_u128 i)) ids)"
  using assms by (simp add: load_units_by_ids_def unit_at_def List.map_filter_simps)

text \<open>A map of units that agrees with the store where it is defined.\<close>

definition units_from :: "('d, 'b) redb \<Rightarrow> 'b bincode \<Rightarrow> 'd \<Rightarrow> unit_map \<Rightarrow> bool" where
  "units_from r bc d m \<longleftrightarrow> (\<forall>i u. m i = Some u \<longrightarrow> unit_at r bc d (as_u128 i) = Some u)"

lemma stored_unit_id:
  assumes "store_sync r bc d" "unit_at r bc d (as_u128 i) = Some u"
  shows "mem_id u = i"
  using unit_at_mem_id[OF assms] by simp

lemma insert_units_map:
  assumes "\<forall>u \<in> set us. unit_at r bc d (as_u128 (mem_id u)) = Some u"
  shows "insert_units us m i = (if i \<in> mem_id ` set us then unit_at r bc d (as_u128 i) else m i)"
  using assms by (induction us arbitrary: m) (auto simp: insert_units_def)

lemma insert_new_units_map:
  assumes "\<forall>u \<in> set us. unit_at r bc d (as_u128 (mem_id u)) = Some u" "units_from r bc d m"
  shows "insert_new_units us m i = (if i \<in> mem_id ` set us then unit_at r bc d (as_u128 i) else m i)"
  using assms
proof (induction us arbitrary: m)
  case (Cons u us)
  define m' where "m' = (if m (mem_id u) = None then m(mem_id u \<mapsto> u) else m)"
  have u: "unit_at r bc d (as_u128 (mem_id u)) = Some u" using Cons.prems(1) by simp
  have "units_from r bc d m'" using Cons.prems(2) u by (simp add: m'_def units_from_def)
  then have "insert_new_units us m' i = (if i \<in> mem_id ` set us then unit_at r bc d (as_u128 i) else m' i)"
    using Cons.IH Cons.prems(1) by simp
  moreover have "m' i = (if i = mem_id u then unit_at r bc d (as_u128 i) else m i)"
    using u Cons.prems(2) by (cases "m i") (auto simp: m'_def units_from_def)
  moreover have "insert_new_units (u # us) m i = insert_new_units us m' i"
    by (simp add: insert_new_units_def m'_def)
  ultimately show ?case by (cases "i = mem_id u") simp_all
qed (simp add: insert_new_units_def)

lemma loaded_units:
  assumes "store_sync r bc d"
  defines "us \<equiv> \<lambda>ids. List.map_filter (\<lambda>i. unit_at r bc d (as_u128 i)) ids"
  shows "\<forall>u \<in> set (us ids). unit_at r bc d (as_u128 (mem_id u)) = Some u"
    and "i \<in> mem_id ` set (us ids) \<longleftrightarrow> i \<in> set ids \<and> unit_at r bc d (as_u128 i) \<noteq> None"
proof -
  show 1: "\<forall>u \<in> set (us ids). unit_at r bc d (as_u128 (mem_id u)) = Some u"
    using stored_unit_id[OF assms(1)] by (auto simp: us_def map_filter_set)
  show "i \<in> mem_id ` set (us ids) \<longleftrightarrow> i \<in> set ids \<and> unit_at r bc d (as_u128 i) \<noteq> None"
  proof
    assume "i \<in> mem_id ` set (us ids)"
    then obtain u j where u: "i = mem_id u" "j \<in> set ids" "unit_at r bc d (as_u128 j) = Some u"
      by (auto simp: us_def map_filter_set)
    with stored_unit_id[OF assms(1) u(3)] show "i \<in> set ids \<and> unit_at r bc d (as_u128 i) \<noteq> None" by simp
  next
    assume "i \<in> set ids \<and> unit_at r bc d (as_u128 i) \<noteq> None"
    then obtain u where u: "i \<in> set ids" "unit_at r bc d (as_u128 i) = Some u" by blast
    then have "u \<in> set (us ids)" "mem_id u = i" using stored_unit_id[OF assms(1)] by (auto simp: us_def map_filter_set)
    then show "i \<in> mem_id ` set (us ids)" by blast
  qed
qed

lemma get_outgoing_wf:
  assumes "fault_free r" "\<forall>j. links_wf (links_at r bc d j)" "get_outgoing r bc j d = Inr ls"
  shows "links_wf ls"
  using get_outgoing_cases[OF assms(1), of bc "as_u128 j" d] assms(2,3) by auto

lemma add_links_Cons:
  "add_links r bc d (j # ids) lm =
     add_links r bc d ids (case get_outgoing r bc j d of Inr ls \<Rightarrow> lm(j \<mapsto> ls) | Inl _ \<Rightarrow> lm)"
  by (simp add: add_links_def)

lemma add_links_wf:
  assumes "fault_free r" "\<forall>j. links_wf (links_at r bc d j)" "links_map_ok lm"
  shows "links_map_ok (add_links r bc d ids lm)"
  using assms(3)
proof (induction ids arbitrary: lm)
  case (Cons j ids)
  have "links_map_ok (case get_outgoing r bc j d of Inr ls \<Rightarrow> lm(j \<mapsto> ls) | Inl _ \<Rightarrow> lm)"
    using Cons.prems get_outgoing_wf[OF assms(1,2)] by (auto simp: links_map_ok_def split: sum.splits)
  then show ?case unfolding add_links_Cons by (rule Cons.IH)
qed (simp add: add_links_def)

lemma add_links_dom: "add_links r bc d ids lm i \<noteq> None \<Longrightarrow> lm i \<noteq> None \<or> i \<in> set ids"
proof (induction ids arbitrary: lm)
  case (Cons j ids)
  from Cons.IH[OF Cons.prems[unfolded add_links_Cons]] show ?case by (auto split: sum.splits if_splits)
qed (simp add: add_links_def)

lemma add_links_at:
  assumes "fault_free r" "\<And>i ls. lm i = Some ls \<Longrightarrow> ls = links_at r bc d (as_u128 i)"
    and "add_links r bc d ids lm i = Some ls"
  shows "ls = links_at r bc d (as_u128 i)"
  using assms(2,3)
proof (induction ids arbitrary: lm)
  case (Cons j ids)
  let ?lm = "case get_outgoing r bc j d of Inr ls \<Rightarrow> lm(j \<mapsto> ls) | Inl _ \<Rightarrow> lm"
  have "ls = links_at r bc d (as_u128 k)" if "?lm k = Some ls" for k ls
    using that Cons.prems(1)[of k ls] get_outgoing_cases[OF assms(1), of bc "as_u128 j" d]
    by (auto split: sum.splits if_splits)
  from Cons.IH[OF this] Cons.prems(2) show ?case unfolding add_links_Cons by blast
qed (simp add: add_links_def)

section \<open>Traces start at seeds\<close>

definition headed :: "memory_id set \<Rightarrow> activation_step list \<Rightarrow> bool" where
  "headed S tr \<longleftrightarrow> tr \<noteq> [] \<and> step_to (hd tr) \<in> S"

definition spread_headed :: "memory_id set \<Rightarrow> spread_state \<Rightarrow> bool" where
  "spread_headed S st \<longleftrightarrow>
     (\<forall>x \<in> set (sp_results st). headed S (snd (snd x))) \<and>
     (\<forall>i tr. trace_map st i = Some tr \<longrightarrow> headed S tr) \<and>
     (\<forall>x \<in> set (frontier st). trace_map st (fst x) \<noteq> None)"

definition round_headed :: "memory_id set \<Rightarrow> round_state \<Rightarrow> bool" where
  "round_headed S rs \<longleftrightarrow>
     (\<forall>i tr. round_traces rs i = Some tr \<longrightarrow> headed S tr) \<and>
     (\<forall>x \<in> set (round_energy rs). round_traces rs (fst x) \<noteq> None)"

lemma reach_node_headed: "spread_headed S st \<Longrightarrow> headed S tr \<Longrightarrow> spread_headed S (reach_node i e tr st)"
  by (auto simp: spread_headed_def reach_node_def)

lemma init_spread_headed:
  assumes "fst ` set fused \<subseteq> S"
  shows "spread_headed S (init_spread p importance fused)"
proof -
  have all: "spread_headed S (fold (init_seed p importance m) sds st)"
    if "fst ` set sds \<subseteq> S" "spread_headed S st" for sds st m
    using that
  proof (induction sds arbitrary: st)
    case (Cons x sds)
    have "spread_headed S (init_seed p importance m x st)"
      using Cons.prems reach_node_headed
      by (cases x) (auto simp: init_seed_def Let_def headed_def seed_step_def)
    then show ?case using Cons by simp
  qed simp
  show ?thesis
    unfolding init_spread_def
    by (rule all) (use assms in \<open>simp_all add: seed_items_def spread_headed_def empty_spread_def\<close>)
qed

lemma visit_link_headed:
  assumes "spread_headed S st" "trace_map st i \<noteq> None" "round_headed S rs"
  shows "round_headed S (visit_link p hop st i e l rs)"
proof -
  obtain tr where tr: "trace_map st i = Some tr" "headed S tr"
    using assms(1,2) by (auto simp: spread_headed_def)
  then have new: "headed S (tr @ [x])" for x by (simp add: headed_def)
  let ?R = "visit_link p hop st i e l rs" and ?t = "target_id l"
  have "?R = rs \<or> (\<exists>f v x. round_energy ?R = entry_upsert ?t f v (round_energy rs) \<and>
      (round_traces ?R = (round_traces rs)(?t \<mapsto> tr @ [x]) \<or>
       round_traces ?R = round_traces rs \<and> round_traces rs ?t \<noteq> None))"
  proof (cases "?t \<in> expanded st \<or> propagated_energy e l hop p < min_propagation_energy p")
    case False
    define M where "M = (case map_of (round_energy rs) ?t of
        Some existing \<Rightarrow> merge_energy existing (propagated_energy e l hop p) p | None \<Rightarrow> propagated_energy e l hop p)"
    let ?x = "hop_step i l hop (propagated_energy e l hop p)"
    have en: "round_energy ?R = entry_upsert ?t (\<lambda>_. M) M (round_energy rs)"
      using False by (simp add: visit_link_def Let_def M_def)
    have t: "round_traces ?R = (case round_traces rs ?t of
        Some old \<Rightarrow> if f32_eq M (propagated_energy e l hop p) then (round_traces rs)(?t \<mapsto> tr @ [?x]) else round_traces rs
      | None \<Rightarrow> (round_traces rs)(?t \<mapsto> tr @ [?x]))"
      using False tr(1) by (simp add: visit_link_def Let_def M_def)
    have "round_traces ?R = (round_traces rs)(?t \<mapsto> tr @ [?x]) \<or>
        round_traces ?R = round_traces rs \<and> round_traces rs ?t \<noteq> None"
      unfolding t by (cases "round_traces rs ?t") simp_all
    with en show ?thesis by blast
  qed (auto simp: visit_link_def Let_def)
  then show ?thesis
  proof (elim disjE exE conjE)
    fix f v x
    assume e: "round_energy ?R = entry_upsert ?t f v (round_energy rs)"
      and t: "round_traces ?R = (round_traces rs)(?t \<mapsto> tr @ [x])"
    have "round_traces ?R j \<noteq> None" if "j \<in> fst ` set (round_energy ?R)" for j
      using that assms(3) unfolding e t keys_entry_upsert by (auto simp: round_headed_def)
    moreover have "headed S t'" if "round_traces ?R j = Some t'" for j t'
      using that assms(3) new unfolding t by (auto simp: round_headed_def split: if_splits)
    ultimately show ?thesis by (simp add: round_headed_def)
  next
    fix f v x
    assume e: "round_energy ?R = entry_upsert ?t f v (round_energy rs)"
      and t: "round_traces ?R = round_traces rs" "round_traces rs ?t \<noteq> None"
    have "round_traces ?R j \<noteq> None" if "j \<in> fst ` set (round_energy ?R)" for j
      using that assms(3) t(2) unfolding e t(1) keys_entry_upsert by (auto simp: round_headed_def)
    then show ?thesis using assms(3) unfolding round_headed_def t(1) by simp
  qed (use assms(3) in simp)
qed

lemma visit_node_headed:
  assumes "spread_headed S st" "trace_map st (fst node) \<noteq> None" "round_headed S rs"
  shows "round_headed S (visit_node p lm hop st node rs)"
proof -
  obtain i e where n: "node = (i, e)" by (cases node)
  have "round_headed S (fold (visit_link p hop st i e) ls rs)" for ls
    using assms(3)
  proof (induction ls arbitrary: rs)
    case (Cons l ls)
    then show ?case using visit_link_headed[OF assms(1)] assms(2) by (simp add: n)
  qed simp
  then show ?thesis using assms(3) by (simp add: visit_node_def n split: option.split)
qed

lemma spread_round_headed:
  assumes st: "spread_headed S st"
  shows "spread_headed S (spread_round p lm hop st)"
proof -
  have "round_headed S (fold (visit_node p lm hop st) ns rs)"
    if "\<forall>x \<in> set ns. trace_map st (fst x) \<noteq> None" "round_headed S rs" for ns rs
    using that by (induction ns arbitrary: rs) (simp_all add: visit_node_headed[OF st])
  moreover have "\<forall>x \<in> set (frontier st). trace_map st (fst x) \<noteq> None" using st by (simp add: spread_headed_def)
  moreover have "round_headed S \<lparr>round_energy = [], round_traces = (\<lambda>_. None), round_merges = 0\<rparr>"
    by (simp add: round_headed_def)
  ultimately obtain rs where rs: "round_headed S rs" "spread_round p lm hop st = finish_round rs st"
    by (auto simp: spread_round_def)
  have all: "spread_headed S (fold (\<lambda>(t, e). reach_node t e (case round_traces rs t of Some tr \<Rightarrow> tr | None \<Rightarrow> [])) xs st')"
    if "set xs \<subseteq> set (round_energy rs)" "spread_headed S st'" for xs st'
    using that
  proof (induction xs arbitrary: st')
    case (Cons x xs)
    obtain t e where x: "x = (t, e)" by (cases x)
    obtain tr where "round_traces rs t = Some tr" "headed S tr"
      using Cons.prems(1) rs(1) by (fastforce simp: round_headed_def x)
    then show ?case using Cons reach_node_headed by (simp add: x)
  qed simp
  show ?thesis
    unfolding rs(2) finish_round_def by (rule all) (use st in \<open>simp_all add: spread_headed_def\<close>)
qed

lemma spread_rounds_headed: "spread_headed S st \<Longrightarrow> spread_headed S (spread_rounds p lm n hop st)"
  by (induction p lm n hop st rule: spread_rounds.induct) (simp_all add: spread_round_headed)

text \<open>What a spread returns.\<close>

lemma spread_results:
  assumes ok: "spread_inputs_ok fused lm p importance ov"
    and run: "spread_multi_hop_fused fused lm p importance ov = (act, merged)"
  shows "distinct (map fst act)"
    and "(i, e, tr) \<in> set act \<Longrightarrow> bounded_energy e"
    and "(i, e, tr) \<in> set act \<Longrightarrow> headed (fst ` set fused) tr"
    and "(i, e, tr) \<in> set act \<Longrightarrow> \<exists>n \<le> hop_limit p ov. activation_path lm tr i n"
proof -
  let ?st = "spread_rounds p lm (hop_limit p ov) 1 (init_spread p importance fused)"
  obtain k where k: "k \<le> hop_limit p ov" "spread_inv p lm k ?st" using spread_final_inv[OF ok] .
  have act: "act = sort_by (cmp_f32_desc (\<lambda>(_, e, _). e)) (sp_results ?st)"
    using run by (simp add: spread_multi_hop_fused_def Let_def hop_limit_def)
  show "distinct (map fst act)" using k(2) by (simp add: act spread_inv_def)
  assume m: "(i, e, tr) \<in> set act"
  then have m': "(i, e, tr) \<in> set (sp_results ?st)" by (simp add: act)
  show "bounded_energy e" using spread_inv_results(1)[OF k(2) m'] by (simp add: energy_ok_def)
  have "spread_headed (fst ` set fused) ?st" by (intro spread_rounds_headed init_spread_headed) simp
  then show "headed (fst ` set fused) tr" using m' by (force simp: spread_headed_def)
  show "\<exists>n \<le> hop_limit p ov. activation_path lm tr i n"
    using spread_inv_results(2)[OF k(2) m'] k(1) le_trans by blast
qed

section \<open>Gathering\<close>

lemma fused_seeds_ok:
  assumes "fault_free r" "rrf_params_ok p"
  obtains fused where "fused_seeds r bc p seeds d = Inr fused" "\<forall>(i, v, ch) \<in> set fused. bounded_energy v"
proof (cases "seeds = []")
  case True
  have c: "bounded_energy (f32_of_rat (3/10))" by (intro bounded_energy_unit unit_f32_of_rat) simp_all
  have "\<forall>(i, v, ch) \<in> set (fold (\<lambda>u. entry_upsert (mem_id u) (\<lambda>_. (f32_of_rat (3/10), RC_RecentActivation))
      (f32_of_rat (3/10), RC_RecentActivation)) us m). bounded_energy v"
    if "\<forall>(i, v, ch) \<in> set m. bounded_energy v" for us :: "memory_unit list" and m
    using that
  proof (induction us arbitrary: m)
    case (Cons u us)
    have "\<forall>(i, v, ch) \<in> set (entry_upsert (mem_id u) (\<lambda>_. (f32_of_rat (3/10), RC_RecentActivation))
        (f32_of_rat (3/10), RC_RecentActivation) m). bounded_energy v"
      using Cons.prems c entry_upsert_subset[of "mem_id u" "\<lambda>_. (f32_of_rat (3/10), RC_RecentActivation)"
          "(f32_of_rat (3/10), RC_RecentActivation)" m] by fastforce
    from Cons.IH[OF this] show ?case by simp
  qed simp
  from this[of "[]"] show thesis
    using that assms(1) True by (simp add: fused_seeds_def load_limited_units_def Let_def)
next
  case False
  then show thesis using that rrf_fuse_bounded[OF assms(2)] by (simp add: fused_seeds_def)
qed

definition excluded_at :: "('d, 'b) redb \<Rightarrow> 'b bincode \<Rightarrow> 'd \<Rightarrow> memory_id \<Rightarrow> bool" where
  "excluded_at r bc d i \<longleftrightarrow> (\<exists>u. unit_at r bc d (as_u128 i) = Some u \<and> is_retrieval_seed_excluded u)"

text \<open>What the reading half knows after spreading: \<open>lm\<close> are the edges the energy could travel along.\<close>

definition gathered_ok ::
    "('d, 'b) redb \<Rightarrow> 'b bincode \<Rightarrow> 'd \<Rightarrow> nat \<Rightarrow> links_map \<Rightarrow> gathered \<Rightarrow> bool" where
  "gathered_ok r bc d hops lm ga \<longleftrightarrow>
     distinct (map fst (ga_activated ga)) \<and>
     (\<forall>(i, e, tr) \<in> set (ga_activated ga). bounded_energy e \<and> headed {i. \<not> excluded_at r bc d i} tr \<and>
        (\<exists>n \<le> hops. activation_path lm tr i n)) \<and>
     (\<forall>i ls. lm i = Some ls \<longrightarrow> \<not> excluded_at r bc d i \<and> ls = links_at r bc d (as_u128 i)) \<and>
     units_from r bc d (ga_units ga) \<and>
     (\<forall>x \<in> set (ga_activated ga). ga_units ga (fst x) = unit_at r bc d (as_u128 (fst x)))"

lemma excluded_in_at: "m i = unit_at r bc d (as_u128 i) \<Longrightarrow> excluded_in m i \<longleftrightarrow> excluded_at r bc d i"
  by (simp add: excluded_in_def excluded_at_def split: option.split)

lemma gather_ok:
  assumes r: "fault_free r" and sync: "store_sync r bc d" and units: "units_ok r bc d"
    and p: "query_params_ok p max_hops" and fused0: "\<forall>(i, v, ch) \<in> set fused0. bounded_energy v"
  obtains ga lm where "gather r bc p max_hops fused0 d = Inr ga"
    "gathered_ok r bc d (hop_limit p (map_option of_nat max_hops)) lm ga"
proof -
  let ?load = "\<lambda>ids. List.map_filter (\<lambda>i. unit_at r bc d (as_u128 i)) ids"
  note loaded = loaded_units[OF sync]
  define m1 where "m1 = insert_units (?load (map fst fused0)) (\<lambda>_. None)"
  define fused where "fused = filter (\<lambda>(i, _). \<not> excluded_in m1 i) fused0"
  define imp where "imp = (\<lambda>i. map_option (\<lambda>u. score_value (mu_importance (understanding u))) (m1 i))"
  define lm1 where "lm1 = add_links r bc d (map fst fused) (\<lambda>_. None)"
  define ids where "ids = neighbour_ids (map fst fused) lm1"
  define m2 where "m2 = insert_new_units (?load ids) m1"
  define lm2 where "lm2 = add_links r bc d (filter (\<lambda>i. \<not> excluded_in m2 i) ids) lm1"
  obtain act merged where run: "spread_multi_hop_fused fused lm2 p imp (map_option of_nat max_hops) = (act, merged)"
    by fastforce
  define extra where "extra = filter (\<lambda>i. m2 i = None) (map fst act)"
  define m3 where "m3 = insert_units (?load extra) m2"
  have m1: "m1 i = (if i \<in> set (map fst fused0) then unit_at r bc d (as_u128 i) else None)" for i
    unfolding m1_def insert_units_map[OF loaded(1)] loaded(2) by simp
  have from1: "units_from r bc d m1" by (simp add: units_from_def m1)
  have m2: "m2 i = (if i \<in> set ids \<and> unit_at r bc d (as_u128 i) \<noteq> None then unit_at r bc d (as_u128 i) else m1 i)" for i
    unfolding m2_def insert_new_units_map[OF loaded(1) from1] loaded(2) by simp
  have from2: "units_from r bc d m2" using from1 by (simp add: units_from_def m2)
  have m3: "m3 i = (if i \<in> set extra \<and> unit_at r bc d (as_u128 i) \<noteq> None then unit_at r bc d (as_u128 i) else m2 i)" for i
    unfolding m3_def insert_units_map[OF loaded(1)] loaded(2) by simp
  have from3: "units_from r bc d m3" using from2 by (simp add: units_from_def m3)
  have ex1: "\<not> excluded_at r bc d i" if i: "i \<in> fst ` set fused" for i
  proof -
    obtain x where x: "x \<in> set fused0" "fst x = i" "\<not> excluded_in m1 i" using i by (auto simp: fused_def)
    then have "m1 i = unit_at r bc d (as_u128 i)" unfolding m1 by auto
    with x(3) show ?thesis by (simp add: excluded_in_at)
  qed
  have ex2: "\<not> excluded_at r bc d i" if "i \<in> set (filter (\<lambda>i. \<not> excluded_in m2 i) ids)" for i
  proof -
    have i: "i \<in> set ids" "\<not> excluded_in m2 i" using that by simp_all
    have "m2 i = unit_at r bc d (as_u128 i)"
      using i(1) from1 unfolding m2 by (cases "m1 i") (auto simp: units_from_def)
    with i(2) show ?thesis by (simp add: excluded_in_at)
  qed
  have wf: "\<forall>j. links_wf (links_at r bc d j)" using units by (simp add: units_ok_def)
  have "lm1 i \<noteq> None \<Longrightarrow> i \<in> fst ` set fused" for i
    using add_links_dom[of r bc d "map fst fused" "\<lambda>_. None" i] by (simp add: lm1_def)
  then have dom2: "lm2 i \<noteq> None \<Longrightarrow> \<not> excluded_at r bc d i" for i
    using add_links_dom[of r bc d "filter (\<lambda>i. \<not> excluded_in m2 i) ids" lm1 i] ex1 ex2 by (auto simp: lm2_def)
  have at1: "ls = links_at r bc d (as_u128 i)" if "lm1 i = Some ls" for i ls
    using that unfolding lm1_def by (rule add_links_at[OF r, rotated]) simp
  have at2: "ls = links_at r bc d (as_u128 i)" if "lm2 i = Some ls" for i ls
    using that unfolding lm2_def by (rule add_links_at[OF r, rotated]) (rule at1)
  have lmok: "links_map_ok lm2"
    unfolding lm2_def lm1_def by (intro add_links_wf[OF r wf]) (simp add: links_map_ok_def)
  have "importance_ok imp"
    using units by (auto simp: importance_ok_def imp_def m1 units_ok_def score_wf_def split: if_splits)
  moreover have "fused_ok fused" by (rule fused_ok_bounded) (use fused0 in \<open>auto simp: fused_def\<close>)
  ultimately have ok: "spread_inputs_ok fused lm2 p imp (map_option of_nat max_hops)"
    using p lmok by (simp add: spread_inputs_ok_def query_params_ok_def)
  note res = spread_results[OF ok run]
  have "gather r bc p max_hops fused0 d = Inr \<lparr>ga_units = m3, ga_activated = act, ga_merged = merged\<rparr>"
    using run
    by (simp add: gather_def load_units_by_ids_ok[OF r] Let_def lm2_def m2_def m3_def extra_def
        ids_def lm1_def imp_def fused_def m1_def)
  moreover have "gathered_ok r bc d (hop_limit p (map_option of_nat max_hops)) lm2
      \<lparr>ga_units = m3, ga_activated = act, ga_merged = merged\<rparr>"
  proof -
    have "headed {i. \<not> excluded_at r bc d i} tr" if "(i, e, tr) \<in> set act" for i e tr
      using res(3)[OF that] ex1 by (auto simp: headed_def)
    then have A: "\<forall>(i, e, tr) \<in> set act. bounded_energy e \<and> headed {i. \<not> excluded_at r bc d i} tr \<and>
        (\<exists>n \<le> hop_limit p (map_option of_nat max_hops). activation_path lm2 tr i n)"
      using res(2,4) by blast
    have "m3 i = unit_at r bc d (as_u128 i)" if "i \<in> fst ` set act" for i
    proof (cases "m2 i")
      case None
      then have "i \<in> set extra" using that by (auto simp: extra_def)
      then show ?thesis using None by (simp add: m3)
    next
      case (Some u)
      then have "unit_at r bc d (as_u128 i) = Some u" using from2 by (simp add: units_from_def)
      then show ?thesis using Some by (simp add: m3)
    qed
    then have B: "\<forall>x \<in> set act. m3 (fst x) = unit_at r bc d (as_u128 (fst x))" by simp
    have C: "\<forall>i ls. lm2 i = Some ls \<longrightarrow> \<not> excluded_at r bc d i \<and> ls = links_at r bc d (as_u128 i)"
    proof (intro allI impI)
      fix i ls assume "lm2 i = Some ls"
      then show "\<not> excluded_at r bc d i \<and> ls = links_at r bc d (as_u128 i)" using dom2[of i] at2[of i ls] by simp
    qed
    show ?thesis unfolding gathered_ok_def gathered.simps by (intro conjI res(1) A C from3 B)
  qed
  ultimately show thesis by (rule that)
qed

section \<open>Ranking\<close>

definition scored_key :: "scored \<Rightarrow> memory_id \<times> activation_step list \<times> memory_unit" where
  "scored_key x = (case x of (i, e, tr, u) \<Rightarrow> (i, tr, u))"

definition energies_ok :: "scored list \<Rightarrow> bool" where
  "energies_ok xs \<longleftrightarrow> (\<forall>x \<in> set xs. F32 0 \<le> fst (snd x))"

lemma scored_key_simps [simp]:
  "fst (scored_key x) = fst x" "scored_key (i, e, tr, u) = (i, tr, u)"
  by (simp_all add: scored_key_def case_prod_unfold)

lemma map_fst_scored_key: "map fst xs = map fst (map scored_key xs)"
  by simp

lemma by_energy_ok:
  assumes "energies_ok xs"
  shows "mset (map scored_key (by_energy xs)) = mset (map scored_key xs)"
    and "energies_ok (by_energy xs)" and "sorted_wrt (\<lambda>x y. fst (snd y) \<le> fst (snd x)) (by_energy xs)"
proof -
  show "mset (map scored_key (by_energy xs)) = mset (map scored_key xs)"
    by (simp add: by_energy_def)
  show "energies_ok (by_energy xs)" using assms by (simp add: energies_ok_def by_energy_def)
  have "list_all (\<lambda>x. (\<lambda>(_, e, _, _). e) x \<noteq> F32_NaN) (sort_by cmp_hit_id xs)"
    unfolding list_all_iff set_sort_by
  proof
    fix x assume "x \<in> set xs"
    then have "F32 0 \<le> fst (snd x)" using assms by (simp add: energies_ok_def)
    then show "(\<lambda>(_, e, _, _). e) x \<noteq> F32_NaN" using f32_le_not_nan by (auto split: prod.split)
  qed
  from sorted_desc_by[OF this]
  have "sorted_wrt (\<lambda>x y. (\<lambda>(_, e, _, _). e) y \<le> (\<lambda>(_, e, _, _). e) x) (by_energy xs)"
    unfolding by_energy_def .
  then show "sorted_wrt (\<lambda>x y. fst (snd y) \<le> fst (snd x)) (by_energy xs)"
    by (rule sorted_wrt_mono_rel[rotated]) auto
qed

text \<open>Multiplying by a finite factor of at least one.\<close>

lemma f32_of_rat_finite:
  assumes "0 \<le> q" "q \<le> 2 ^ 100"
  shows "\<exists>a. f32_of_rat q = F32 a \<and> 0 \<le> a \<and> a \<le> 2 ^ 100"
proof -
  have "f32_valid (F32 (2 ^ 100))" by code_simp
  then have "f32_of_rat q \<le> F32 (2 ^ 100)" using assms(2) by (rule f32_of_rat_le)
  then show ?thesis using f32_of_rat_nonneg[OF assms(1)] by (cases "f32_of_rat q") auto
qed

lemma energy_mult:
  assumes "F32 0 \<le> e" "0 \<le> q"
  shows "F32 0 \<le> e * (1 + F32 q) \<or> F32_Inf = 1 + F32 q"
proof -
  have "f32_of_rat (1 + q) = F32_Inf \<or> (\<exists>m. f32_of_rat (1 + q) = F32 m \<and> 1 \<le> m)"
    using f32_of_rat_ge[OF f32_valid_01(2), of "1 + q"] assms(2) by (cases "f32_of_rat (1 + q)") auto
  then show ?thesis
    using assms(1) by (cases e) (auto simp: times_f32_def f32_signed_inf_def f32_of_rat_nonneg)
qed

lemma energy_factor:
  assumes "F32 0 \<le> e" "0 \<le> q" "q \<le> 2 ^ 99"
  shows "F32 0 \<le> e * (1 + F32 q)"
  using energy_mult[OF assms(1,2)] f32_of_rat_finite[of "1 + q"] assms(2,3) by auto

lemma context_factor:
  assumes "F32 0 \<le> e" "unit_f32 s"
  shows "F32 0 \<le> e * (1 + CONTEXT_BOOST_ALPHA * s)"
proof -
  have "unit_f32 (CONTEXT_BOOST_ALPHA * s)"
    using assms(2) by (intro unit_f32_mult) (simp_all add: CONTEXT_BOOST_ALPHA_def unit_f32_of_rat)
  then obtain q where q: "CONTEXT_BOOST_ALPHA * s = F32 q" "0 \<le> q" "q \<le> 1" by (rule unit_f32E)
  then have "q \<le> 2 ^ 99" using order_trans[OF q(3), of "2 ^ 99"] by simp
  then show ?thesis unfolding q(1) using energy_factor assms(1) q(2) by blast
qed

lemma f32_of_nat_finite:
  assumes "n < 2 ^ 64"
  shows "\<exists>a. f32_of_nat n = F32 a \<and> 0 \<le> a \<and> a \<le> 2 ^ 64 \<and> (1 \<le> n \<longrightarrow> 1 \<le> a)"
proof -
  have "f32_valid (F32 (2 ^ 64))" by code_simp
  moreover have "(of_nat n :: rat) \<le> 2 ^ 64" using assms of_nat_mono[of n "2 ^ 64", where 'a = rat] by simp
  ultimately have "f32_of_rat (of_nat n) \<le> F32 (2 ^ 64)" by (rule f32_of_rat_le)
  moreover have "F32 1 \<le> f32_of_rat (of_nat n)" if "1 \<le> n"
    using that by (intro f32_of_rat_ge) simp_all
  ultimately show ?thesis
    using f32_of_rat_nonneg[of "of_nat n"] by (cases "f32_of_rat (of_nat n)") (auto simp: f32_of_nat_def)
qed

lemma coverage_factor:
  assumes "F32 0 \<le> e" "c < 2 ^ 64" "1 \<le> n" "n < 2 ^ 64"
  shows "F32 0 \<le> e * (1 + ENTITY_COVERAGE_BETA * (f32_of_nat c / f32_of_nat n))"
proof -
  obtain a where a: "f32_of_nat c = F32 a" "0 \<le> a" "a \<le> 2 ^ 64" using f32_of_nat_finite[OF assms(2)] by blast
  obtain b where b: "f32_of_nat n = F32 b" "1 \<le> b" using f32_of_nat_finite[OF assms(4)] assms(3) by blast
  have ab: "0 \<le> a / b" "a / b \<le> 2 ^ 64"
    using a b mult_mono[of a "2 ^ 64" 1 b] by (simp_all add: divide_le_eq)
  have v: "f32_valid (F32 (2 ^ 64))" by code_simp
  have "f32_of_rat (a / b) \<le> F32 (2 ^ 64)" by (rule f32_of_rat_le[OF v ab(2)])
  then obtain x where x: "f32_of_nat c / f32_of_nat n = F32 x" "0 \<le> x" "x \<le> 2 ^ 64"
    using f32_of_rat_nonneg[OF ab(1)] b by (cases "f32_of_rat (a / b)") (auto simp: a b(1) f32_div_simp)
  have "unit_f32 ENTITY_COVERAGE_BETA" by (simp add: ENTITY_COVERAGE_BETA_def unit_f32_of_rat)
  then obtain y where y: "ENTITY_COVERAGE_BETA = F32 y" "0 \<le> y" "y \<le> 1" by (rule unit_f32E)
  have "y * x \<le> 2 ^ 64" "0 \<le> y * x" using x y mult_mono[of y 1 x "2 ^ 64"] by simp_all
  then have "f32_of_rat (y * x) \<le> F32 (2 ^ 64)" "F32 0 \<le> f32_of_rat (y * x)"
    using f32_of_rat_le[OF v] f32_of_rat_nonneg by blast+
  then obtain q where q: "ENTITY_COVERAGE_BETA * (f32_of_nat c / f32_of_nat n) = F32 q" "0 \<le> q" "q \<le> 2 ^ 64"
    by (cases "f32_of_rat (y * x)") (auto simp: x(1) y(1))
  then have "q \<le> 2 ^ 99" using order_trans[OF q(3), of "2 ^ 99"] by simp
  then show ?thesis unfolding q(1) using energy_factor assms(1) q(2) by blast
qed

text \<open>A step of the ranking: it keeps the candidates and leaves them sorted.\<close>

definition reorders :: "scored list \<Rightarrow> scored list \<Rightarrow> bool" where
  "reorders xs ys \<longleftrightarrow> mset (map scored_key ys) = mset (map scored_key xs) \<and> energies_ok ys \<and>
     sorted_wrt (\<lambda>x y. fst (snd y) \<le> fst (snd x)) ys"

lemma reorders_trans: "reorders xs ys \<Longrightarrow> reorders ys zs \<Longrightarrow> reorders xs zs"
  by (simp add: reorders_def)

lemma reorders_by_energy:
  "energies_ok ys \<Longrightarrow> map scored_key ys = map scored_key xs \<Longrightarrow> reorders xs (by_energy ys)"
  using by_energy_ok[of ys] by (simp add: reorders_def)

lemma context_correction_ok:
  assumes xs: "energies_ok xs" "sorted_wrt (\<lambda>x y. fst (snd y) \<le> fst (snd x)) xs"
    and unit: "\<forall>(i, s) \<in> set strengths. unit_f32 s"
  shows "reorders xs (context_correction strengths xs)"
proof (cases "strengths = []")
  case True
  then show ?thesis using xs by (simp add: context_correction_def reorders_def)
next
  case False
  let ?f = "\<lambda>(i, e, tr, u). (i, case map_of strengths (as_u128 i) of
      Some s \<Rightarrow> e * (1 + CONTEXT_BOOST_ALPHA * s) | None \<Rightarrow> e, tr, u)"
  have "F32 0 \<le> fst (snd (?f x))" if "x \<in> set xs" for x
  proof -
    obtain i e tr u where x: "x = (i, e, tr, u)" by (cases x)
    have e: "F32 0 \<le> e" using that xs(1) by (force simp: energies_ok_def x)
    show ?thesis
    proof (cases "map_of strengths (as_u128 i)")
      case (Some s)
      then have "unit_f32 s" using unit map_of_SomeD by fastforce
      then show ?thesis using context_factor[OF e] by (simp add: x Some)
    qed (use e in \<open>simp add: x\<close>)
  qed
  then have "energies_ok (map ?f xs)" by (auto simp: energies_ok_def)
  moreover have "map scored_key (map ?f xs) = map scored_key xs" by (auto simp: scored_key_def)
  ultimately have "reorders xs (by_energy (map ?f xs))" by (rule reorders_by_energy)
  then show ?thesis using False by (simp add: context_correction_def)
qed

lemma coverage_correction_ok:
  assumes xs: "energies_ok xs" "sorted_wrt (\<lambda>x y. fst (snd y) \<le> fst (snd x)) xs"
    and lens: "length ems < 2 ^ 64" "\<And>i e tr u. (i, e, tr, u) \<in> set xs \<Longrightarrow> length (mu_entities (understanding u)) < 2 ^ 64"
  shows "reorders xs (coverage_correction ems xs)"
proof (cases "length ems < 2")
  case True
  then show ?thesis using xs by (simp add: coverage_correction_def reorders_def)
next
  case False
  let ?g = "\<lambda>u e. let covered = covered_entities ems u
        in if 0 < covered then e * (1 + ENTITY_COVERAGE_BETA * (f32_of_nat covered / f32_of_nat (length ems))) else e"
  have "F32 0 \<le> ?g u e" if m: "(i, e, tr, u) \<in> set xs" for i e tr u
  proof -
    have e: "F32 0 \<le> e" using m xs(1) by (force simp: energies_ok_def)
    have "covered_entities ems u \<le> length (mu_entities (understanding u))" by (simp add: covered_entities_def)
    then have "covered_entities ems u < 2 ^ 64" using lens(2)[OF m] by (rule le_less_trans)
    from coverage_factor[OF e this _ lens(1)] False e show ?thesis by (simp add: Let_def)
  qed
  then have "energies_ok (map_energy ?g xs)" by (auto simp: energies_ok_def map_energy_def)
  moreover have "map scored_key (map_energy ?g xs) = map scored_key xs" by (auto simp: scored_key_def map_energy_def)
  ultimately have "reorders xs (by_energy (map_energy ?g xs))" by (rule reorders_by_energy)
  then show ?thesis using False by (simp add: coverage_correction_def)
qed

lemma question_boost_ok:
  assumes cap: "unit_f32 (seed_energy_cap p)" and b: "\<forall>x \<in> set xs. bounded_energy (fst (snd x))"
  shows "reorders xs (apply_question_aware_boost env upper q xs p)"
proof -
  let ?f = "boosted_energy env upper q (seed_energy_cap p)"
  have "bounded_energy (?f u e)" if "(i, e, tr, u) \<in> set xs" for i e tr u
    using boosted_energy_raises[OF cap, of env upper q u] b that by (force simp: raises_def)
  then have pos: "F32 0 \<le> ?f u e" if "(i, e, tr, u) \<in> set xs" for i e tr u
    using that by (simp add: bounded_energy_def)
  let ?ys = "map_energy ?f xs"
  have ok: "energies_ok ?ys" using pos by (auto simp: energies_ok_def map_energy_def)
  have keys: "map scored_key ?ys = map scored_key xs" by (auto simp: scored_key_def map_energy_def)
  have "list_all (\<lambda>x. (\<lambda>(_, e, _, _). e) x \<noteq> F32_NaN) ?ys"
    using ok f32_le_not_nan by (fastforce simp: energies_ok_def list_all_iff)
  from sorted_desc_by[OF this]
  have "sorted_wrt (\<lambda>x y. (\<lambda>(_, e, _, _). e) y \<le> (\<lambda>(_, e, _, _). e) x) (apply_question_aware_boost env upper q xs p)"
    unfolding question_boost_eq .
  then have "sorted_wrt (\<lambda>x y. fst (snd y) \<le> fst (snd x)) (apply_question_aware_boost env upper q xs p)"
    by (rule sorted_wrt_mono_rel[rotated]) auto
  moreover have "mset (map scored_key (apply_question_aware_boost env upper q xs p)) = mset (map scored_key xs)"
    unfolding question_boost_eq mset_map_sort_by keys ..
  moreover have "energies_ok (apply_question_aware_boost env upper q xs p)"
    using ok unfolding question_boost_eq by (simp add: energies_ok_def)
  ultimately show ?thesis by (simp add: reorders_def)
qed

lemma reorders_set:
  assumes "reorders xs ys"
  shows "scored_key ` set ys = scored_key ` set xs"
proof -
  have "mset (map scored_key ys) = mset (map scored_key xs)" using assms by (simp only: reorders_def)
  then have "set (map scored_key ys) = set (map scored_key xs)" by (rule mset_eq_setD)
  then show ?thesis by simp
qed

lemma reorders_distinct:
  assumes "reorders xs ys"
  shows "distinct (map fst ys) \<longleftrightarrow> distinct (map fst xs)"
proof -
  have "mset (map scored_key ys) = mset (map scored_key xs)" using assms by (simp only: reorders_def)
  then have "image_mset fst (mset (map scored_key ys)) = image_mset fst (mset (map scored_key xs))" by (rule arg_cong)
  then have "mset (map fst (map scored_key ys)) = mset (map fst (map scored_key xs))" by (simp only: mset_map)
  then show ?thesis unfolding map_fst_scored_key by (rule mset_eq_imp_distinct_iff)
qed

text \<open>The ranked candidates are the activated memories that are stored and not compressed.\<close>

lemma rank_candidates_ok:
  assumes g: "gathered_ok r bc d hops lm ga" and sync: "store_sync r bc d" and units: "units_ok r bc d"
    and cap: "unit_f32 (seed_energy_cap p)" and unit: "\<forall>(i, s) \<in> set strengths. unit_f32 s"
    and lens: "length (ie_entities imm) < 2 ^ 64"
    and res: "res = rank_candidates env upper p q imm strengths ga"
  shows "distinct (map fst res)" and "sorted_wrt (\<lambda>x y. fst (snd y) \<le> fst (snd x)) res"
    and "scored_key ` set res = {(i, tr, u). unit_at r bc d (as_u128 i) = Some u \<and> \<not> compressed_unit u \<and>
      (\<exists>e. (i, e, tr) \<in> set (ga_activated ga))}"
proof -
  let ?act = "ga_activated ga"
  let ?loaded = "List.map_filter (\<lambda>(i, _, _). ga_units ga i) ?act"
  define xs where "xs = rerank_by_energy ?act ?loaded"
  define ys where "ys = apply_question_aware_boost env upper q xs p"
  define zs where "zs = filter (\<lambda>(_, _, _, u). \<not> compressed_unit u) ys"
  have at: "ga_units ga i = unit_at r bc d (as_u128 i)" if "(i, e, tr) \<in> set ?act" for i e tr
    using g that unfolding gathered_ok_def by force
  have ids: "mem_id u = i" if "(i, e, tr) \<in> set ?act" "ga_units ga i = Some u" for i e tr u
    using stored_unit_id[OF sync] at that by simp
  have loaded_in: "u \<in> set ?loaded \<longleftrightarrow> (\<exists>(i, e, tr) \<in> set ?act. ga_units ga i = Some u)" for u
    by (auto simp: map_filter_set case_prod_unfold)
  have found: "find_first (\<lambda>u. mem_id u = i) ?loaded = ga_units ga i" if m: "(i, e, tr) \<in> set ?act" for i e tr
  proof (cases "ga_units ga i")
    case None
    have "mem_id u \<noteq> i" if u: "u \<in> set ?loaded" for u
      using u ids None unfolding loaded_in by fastforce
    then show ?thesis using None by simp
  next
    case (Some u)
    then have "u \<in> set ?loaded" using m unfolding loaded_in by blast
    then obtain v where v: "find_first (\<lambda>u. mem_id u = i) ?loaded = Some v"
      using ids[OF m Some] find_first_None[of "\<lambda>u. mem_id u = i" ?loaded] by (cases "find_first (\<lambda>u. mem_id u = i) ?loaded") auto
    from find_first_Some[OF v] have "mem_id v = i" "v \<in> set ?loaded" by simp_all
    then show ?thesis using ids Some v unfolding loaded_in by fastforce
  qed
  have xs_in: "(i, e, tr, u) \<in> set xs \<longleftrightarrow> (i, e, tr) \<in> set ?act \<and> unit_at r bc d (as_u128 i) = Some u" for i e tr u
  proof -
    let ?L = ?loaded
    have "(i, e, tr, u) \<in> set xs \<longleftrightarrow> (i, e, tr) \<in> set ?act \<and> find_first (\<lambda>u. mem_id u = i) ?L = Some u"
      unfolding xs_def rerank_by_energy_def set_sort_by map_filter_set by (auto intro!: bexI[of _ "(i, e, tr)"])
    then show ?thesis using found[of i e tr] at[of i e tr] by auto
  qed
  have "distinct (map fst (List.map_filter (\<lambda>(i, e, tr). map_option (\<lambda>u. (i, e, tr, u)) (f i)) ac))"
    if "distinct (map fst ac)" for f :: "memory_id \<Rightarrow> memory_unit option" and ac :: "activated list"
    using that
  proof (induction ac)
    case (Cons x ac)
    obtain i e tr where x: "x = (i, e, tr)" by (cases x)
    have "i \<notin> fst ` set (List.map_filter (\<lambda>(i, e, tr). map_option (\<lambda>u. (i, e, tr, u)) (f i)) ac)"
      using Cons.prems by (force simp: x map_filter_set)
    then show ?case using Cons by (simp add: x List.map_filter_simps split: option.split)
  qed (simp add: List.map_filter_simps)
  then have dist: "distinct (map fst xs)"
    using g unfolding xs_def rerank_by_energy_def gathered_ok_def by simp
  have bnd: "\<forall>x \<in> set xs. bounded_energy (fst (snd x))"
    using g xs_in unfolding gathered_ok_def by fastforce
  have ys: "reorders xs ys" unfolding ys_def by (rule question_boost_ok[OF cap bnd])
  have zs: "energies_ok zs" "sorted_wrt (\<lambda>x y. fst (snd y) \<le> fst (snd x)) zs"
    using ys by (auto simp: zs_def reorders_def energies_ok_def sorted_wrt_filter)
  have ctx: "reorders zs (context_correction strengths zs)" by (rule context_correction_ok[OF zs unit])
  have len: "length (mu_entities (understanding u)) < 2 ^ 64" if "(i, e, tr, u) \<in> set (context_correction strengths zs)" for i e tr u
  proof -
    have "(i, tr, u) \<in> scored_key ` set zs" using that reorders_set[OF ctx] by (force simp: scored_key_def)
    then have "(i, tr, u) \<in> scored_key ` set ys" by (auto simp: zs_def)
    then obtain e' where "(i, e', tr, u) \<in> set xs" using reorders_set[OF ys] by (auto simp: scored_key_def)
    then show ?thesis using units xs_in by (auto simp: units_ok_def)
  qed
  have cov: "reorders (context_correction strengths zs) res"
    unfolding res rank_candidates_def Let_def xs_def[symmetric] ys_def[symmetric] zs_def[symmetric]
    using ctx len by (intro coverage_correction_ok lens) (auto simp: reorders_def)
  note all = reorders_trans[OF ctx cov]
  have dz: "distinct (map fst zs)"
    using dist reorders_distinct[OF ys] by (simp add: zs_def distinct_map_filter)
  then show "distinct (map fst res)" using reorders_distinct[OF all] by simp
  show "sorted_wrt (\<lambda>x y. fst (snd y) \<le> fst (snd x)) res" using all by (simp add: reorders_def)
  have "scored_key ` set zs = {k \<in> scored_key ` set ys. \<not> compressed_unit (snd (snd k))}"
    by (force simp: zs_def scored_key_def)
  also have "\<dots> = {k \<in> scored_key ` set xs. \<not> compressed_unit (snd (snd k))}" using reorders_set[OF ys] by simp
  also have "\<dots> = {(i, tr, u). unit_at r bc d (as_u128 i) = Some u \<and> \<not> compressed_unit u \<and>
      (\<exists>e. (i, e, tr) \<in> set (ga_activated ga))}"
    using xs_in by (force simp: scored_key_def)
  finally show "scored_key ` set res = {(i, tr, u). unit_at r bc d (as_u128 i) = Some u \<and> \<not> compressed_unit u \<and>
      (\<exists>e. (i, e, tr) \<in> set (ga_activated ga))}"
    using reorders_set[OF all] by simp
qed

section \<open>The reading half\<close>

definition search_inputs_ok ::
    "('d, 'b) redb \<Rightarrow> 'b bincode \<Rightarrow> 'f backends \<Rightarrow> 'f search_backends \<Rightarrow> retrieve_input \<Rightarrow> 'd \<Rightarrow> bool" where
  "search_inputs_ok r bc be sb input d \<longleftrightarrow>
     units_ok r bc d \<and> ctx_ok r bc d \<and> query_params_ok (be_algo be) (ri_max_hops input) \<and> powf_half_ok (sb_powf sb)"

definition results_ok ::
    "('d, 'b) redb \<Rightarrow> 'b bincode \<Rightarrow> 'd \<Rightarrow> gathered \<Rightarrow> retrieval_result list \<Rightarrow> bool" where
  "results_ok r bc d ga results \<longleftrightarrow>
     distinct (map (\<lambda>x. mem_id (rr_memory x)) results) \<and>
     sorted_wrt (\<lambda>x y. rr_final_score y \<le> rr_final_score x) results \<and>
     (\<forall>x \<in> set results. unit_at r bc d (as_u128 (mem_id (rr_memory x))) = Some (rr_memory x) \<and>
        \<not> compressed_unit (rr_memory x) \<and>
        (\<exists>e. (mem_id (rr_memory x), e, rr_activation_trace x) \<in> set (ga_activated ga)))"

lemma strengths_unit:
  assumes "fault_free r" "powf_half_ok powf" "ctx_ok r bc d"
  shows "\<forall>(i, s) \<in> set (collect_link_strengths r bc powf ctx now d). unit_f32 s"
proof -
  have "read_fault r d (T64 CONTEXT_LINKS) = None" using assms(1) by (simp add: fault_free_def)
  from collect_link_strengths_spec[OF assms(2,3) this, of ctx now] show ?thesis unfolding list_all_iff by blast
qed

lemma result_of_simps [simp]:
  "rr_memory (result_of x) = snd (snd (snd x))" "rr_final_score (result_of x) = fst (snd x)"
  "rr_activation_trace (result_of x) = fst (snd (snd x))"
  by (simp_all add: result_of_def split: prod.split)

lemma search_ok:
  assumes r: "redb_ok r" "fault_free r" and sync: "store_sync r bc (eg_db st)"
    and ok: "search_inputs_ok r bc be sb input (eg_db st)" and len: "length (ie_entities imm) < 2 ^ 64"
  obtains fused ga lm results where "search r bc be sb clock input imm st = Inr (ga, results)"
    "fused_seeds r bc (be_algo be) (query_seeds r bc be sb clock input imm st) (eg_db st) = Inr fused"
    "gather r bc (be_algo be) (ri_max_hops input) fused (eg_db st) = Inr ga"
    "gathered_ok r bc (eg_db st) (hop_limit (be_algo be) (map_option of_nat (ri_max_hops input))) lm ga"
    "results_ok r bc (eg_db st) ga results" "length results \<le> ri_top_k input"
    "\<And>i e tr u. length results < ri_top_k input \<Longrightarrow> (i, e, tr) \<in> set (ga_activated ga) \<Longrightarrow>
       unit_at r bc (eg_db st) (as_u128 i) = Some u \<Longrightarrow> \<not> compressed_unit u \<Longrightarrow> u \<in> rr_memory ` set results"
proof -
  let ?d = "eg_db st" and ?p = "be_algo be"
  have p: "query_params_ok ?p (ri_max_hops input)" using ok by (simp add: search_inputs_ok_def)
  have units: "units_ok r bc ?d" using ok by (simp add: search_inputs_ok_def)
  obtain fused where fused: "fused_seeds r bc ?p (query_seeds r bc be sb clock input imm st) ?d = Inr fused"
    "\<forall>(i, v, ch) \<in> set fused. bounded_energy v"
    using fused_seeds_ok[OF r(2)] p unfolding query_params_ok_def by metis
  obtain ga lm where ga: "gather r bc ?p (ri_max_hops input) fused ?d = Inr ga"
    "gathered_ok r bc ?d (hop_limit ?p (map_option of_nat (ri_max_hops input))) lm ga"
    by (rule gather_ok[OF r(2) sync units p fused(2)])
  define strengths where
    "strengths = collect_link_strengths r bc (sb_powf sb) (fingerprint (be_text be) imm) (qc_context_ms clock) ?d"
  define ranked where "ranked = rank_candidates (be_text be) (sb_is_uppercase sb) ?p (ri_query input) imm strengths ga"
  define k where "k = min (ri_top_k input) (length (ga_activated ga))"
  have unit: "\<forall>(i, s) \<in> set strengths. unit_f32 s"
    unfolding strengths_def using ok by (intro strengths_unit[OF r(2)]) (simp_all add: search_inputs_ok_def)
  have cap: "unit_f32 (seed_energy_cap ?p)" using p by (simp add: query_params_ok_def energy_params_ok_def)
  note ranks = rank_candidates_ok[OF ga(2) sync units cap unit len ranked_def]
  let ?res = "map result_of (take k ranked)"
  have run: "search r bc be sb clock input imm st = Inr (ga, ?res)"
    using fused(1) ga(1) by (simp add: search_def Let_def ranked_def strengths_def k_def)
  have inr: "unit_at r bc ?d (as_u128 i) = Some u \<and> \<not> compressed_unit u \<and> (\<exists>e. (i, e, tr) \<in> set (ga_activated ga))"
    if "(i, e, tr, u) \<in> set ranked" for i e tr u
  proof -
    have "(i, tr, u) \<in> scored_key ` set ranked" using that by (rule rev_image_eqI) simp
    then show ?thesis unfolding ranks(3) by simp
  qed
  have ids: "mem_id (snd (snd (snd x))) = fst x" if "x \<in> set ranked" for x
    using inr[of "fst x" "fst (snd x)" "fst (snd (snd x))" "snd (snd (snd x))"] that stored_unit_id[OF sync] by simp
  have eq: "map (\<lambda>x. mem_id (rr_memory x)) ?res = map fst (take k ranked)"
    using ids by (auto dest: in_set_takeD)
  have "distinct (map (\<lambda>x. mem_id (rr_memory x)) ?res)"
    using distinct_take[OF ranks(1), of k] unfolding eq by (simp only: take_map)
  moreover have "sorted_wrt (\<lambda>x y. rr_final_score y \<le> rr_final_score x) ?res"
    using sorted_wrt_take[OF ranks(2)] by (simp add: sorted_wrt_map)
  moreover have "unit_at r bc ?d (as_u128 (mem_id (rr_memory y))) = Some (rr_memory y) \<and> \<not> compressed_unit (rr_memory y) \<and>
        (\<exists>e. (mem_id (rr_memory y), e, rr_activation_trace y) \<in> set (ga_activated ga))" if y: "y \<in> set ?res" for y
  proof -
    obtain x where x: "y = result_of x" "x \<in> set ranked" using y by (auto dest: in_set_takeD)
    then show ?thesis
      using inr[of "fst x" "fst (snd x)" "fst (snd (snd x))" "snd (snd (snd x))"] ids[OF x(2)] by simp
  qed
  ultimately have res: "results_ok r bc ?d ga ?res" by (simp add: results_ok_def)
  have le: "length ?res \<le> ri_top_k input" by (simp add: k_def)
  have complete: "u \<in> rr_memory ` set ?res"
    if h: "length ?res < ri_top_k input" "(i, e, tr) \<in> set (ga_activated ga)"
      "unit_at r bc ?d (as_u128 i) = Some u" "\<not> compressed_unit u" for i e tr u
  proof -
    have "fst x \<in> set (map fst (ga_activated ga))" if x: "x \<in> set ranked" for x
    proof -
      obtain i e tr u where y: "x = (i, e, tr, u)" by (cases x)
      from inr[OF x[unfolded y]] show ?thesis by (force simp: y)
    qed
    then have "card (set (map fst ranked)) \<le> card (set (map fst (ga_activated ga)))"
      by (intro card_mono) auto
    moreover have "distinct (map fst (ga_activated ga))" using ga(2) by (simp only: gathered_ok_def)
    note da = distinct_card[OF this]
    ultimately have "length ranked \<le> length (ga_activated ga)"
      unfolding da distinct_card[OF ranks(1)] by simp
    then have "take k ranked = ranked" using h(1) by (auto simp: k_def min_def split: if_splits)
    moreover have "(i, tr, u) \<in> scored_key ` set ranked" unfolding ranks(3) using h by blast
    then obtain e' where "(i, e', tr, u) \<in> set ranked" by (auto simp: scored_key_def)
    ultimately show ?thesis by force
  qed
  show thesis by (rule that[OF run fused(1) ga(1,2) res le complete])
qed

section \<open>The writing half\<close>

definition retrieval_cells :: "activation_record \<Rightarrow> cell set" where
  "retrieval_cells rec = {C128 ACTIVATION_LOG (activation_key rec), C64 QUERY_CONTEXT (retrieval_id rec),
     C64 RETRIEVAL_PATHS (retrieval_id rec)}"

lemma write_query_context_ok:
  assumes "redb_ok r" "bincode_ok bc" "fault_free r"
  obtains d' where "write_query_context r bc rid ctx d = Inr d'" "read_query_context r bc rid d' = Some ctx"
    "\<And>c. c \<noteq> C64 QUERY_CONTEXT rid \<Longrightarrow> db_get r d' c = db_get r d c"
proof -
  obtain b where "enc (c_context bc) ctx = Inr b" "dec (c_context bc) b = Inr ctx"
    using bincode_okD(5)[OF assms(2)] by (rule codec_okE)
  then show thesis
    using assms by (intro that[of "db_insert r (C64 QUERY_CONTEXT rid) b d"])
      (auto simp: write_query_context_def read_query_context_def fault_free_def write_txn_def)
qed

lemma write_retrieval_paths_ok:
  assumes "redb_ok r" "bincode_ok bc" "fault_free r"
  obtains d' where "write_retrieval_paths r bc rid ps d = Inr d'" "ps \<noteq> [] \<Longrightarrow> read_retrieval_paths r bc rid d' = ps"
    "\<And>c. c \<noteq> C64 RETRIEVAL_PATHS rid \<Longrightarrow> db_get r d' c = db_get r d c"
proof (cases "ps = []")
  case True
  then show thesis by (intro that[of d]) (simp_all add: write_retrieval_paths_def)
next
  case False
  obtain b where "enc (c_paths bc) ps = Inr b" "dec (c_paths bc) b = Inr ps"
    using bincode_okD(7)[OF assms(2)] by (rule codec_okE)
  then show thesis
    using assms False by (intro that[of "db_insert r (C64 RETRIEVAL_PATHS rid) b d"])
      (auto simp: write_retrieval_paths_def read_retrieval_paths_def postings_def fault_free_def write_txn_def)
qed

lemma record_retrieval_ok:
  assumes r: "redb_ok r" "bincode_ok bc" "fault_free r"
  obtains d' where "record_retrieval r bc rec ctx paths d = (d', Inr ())"
    "map_option (decode_record bc) (db_get r d' (C128 ACTIVATION_LOG (activation_key rec))) = Some (Some rec)"
    "read_query_context r bc (retrieval_id rec) d' = Some ctx"
    "paths \<noteq> [] \<Longrightarrow> read_retrieval_paths r bc (retrieval_id rec) d' = paths"
    "\<And>c. c \<notin> retrieval_cells rec \<Longrightarrow> db_get r d' c = db_get r d c"
proof -
  obtain d1 where d1: "record_activation r bc rec d = Inr d1"
    "\<And>v. db_get r d1 (C128 ACTIVATION_LOG (activation_key rec)) = Some v \<Longrightarrow> decode_record bc v = Some rec"
    "db_get r d1 (C128 ACTIVATION_LOG (activation_key rec)) \<noteq> None"
    "\<And>c. c \<noteq> C128 ACTIVATION_LOG (activation_key rec) \<Longrightarrow> db_get r d1 c = db_get r d c"
    by (rule record_activation_ok[OF r, of rec d]) (rule that)
  obtain d2 where d2: "write_query_context r bc (retrieval_id rec) ctx d1 = Inr d2"
    "read_query_context r bc (retrieval_id rec) d2 = Some ctx"
    "\<And>c. c \<noteq> C64 QUERY_CONTEXT (retrieval_id rec) \<Longrightarrow> db_get r d2 c = db_get r d1 c"
    by (rule write_query_context_ok[OF r, of "retrieval_id rec" ctx d1]) (rule that)
  obtain d3 where d3: "write_retrieval_paths r bc (retrieval_id rec) paths d2 = Inr d3"
    "paths \<noteq> [] \<Longrightarrow> read_retrieval_paths r bc (retrieval_id rec) d3 = paths"
    "\<And>c. c \<noteq> C64 RETRIEVAL_PATHS (retrieval_id rec) \<Longrightarrow> db_get r d3 c = db_get r d2 c"
    by (rule write_retrieval_paths_ok[OF r, of "retrieval_id rec" paths d2]) (rule that)
  have run: "record_retrieval r bc rec ctx paths d = (d3, Inr ())"
    using d1(1) d2(1) d3(1) by (simp add: record_retrieval_def eng_ignore_def)
  have act: "map_option (decode_record bc) (db_get r d3 (C128 ACTIVATION_LOG (activation_key rec))) = Some (Some rec)"
    using d1(2,3) d2(3) d3(3) by auto
  have ctx: "read_query_context r bc (retrieval_id rec) d3 = Some ctx"
    using d2(2) d3(3) r(3) by (simp add: read_query_context_def fault_free_def)
  have frame: "db_get r d3 c = db_get r d c" if "c \<notin> retrieval_cells rec" for c
    using that d1(4) d2(3) d3(3) by (simp add: retrieval_cells_def)
  show thesis by (rule that[OF run act ctx d3(2) frame])
qed

lemma touch_unit_simps [simp]:
  "mem_id (touch_unit now k ids i u) = mem_id u" "links (touch_unit now k ids i u) = links u"
  by (simp_all add: touch_unit_def)

lemma touch_one_ok:
  assumes r: "redb_ok r" "bincode_ok bc" "fault_free r" and sync: "store_sync r bc d"
  obtains d' where "touch_one r bc now k ids i () d = (d', Inr ())" "store_sync r bc d'"
    "\<And>j. unit_at r bc d' j = (if j = as_u128 i then map_option (touch_unit now k ids i) (unit_at r bc d j) else unit_at r bc d j)"
    "\<And>c. c \<noteq> C128 MEMORY_KV (as_u128 i) \<Longrightarrow> db_get r d' c = db_get r d c"
proof (cases "db_get r d (C128 MEMORY_KV (as_u128 i))")
  case None
  then have "unit_at r bc d (as_u128 i) = None" by (simp add: unit_at_def)
  then show thesis
    using that[of d] None r(3) sync by (simp add: touch_one_def kv_get_def)
next
  case (Some v)
  obtain u where u: "dec (c_unit bc) v = Inr u" "mem_id u = i" "links_at r bc d (as_u128 i) = links u"
    "unit_at r bc d (as_u128 i) = Some u"
    using store_syncD[OF sync Some] by (metis memory_id.collapse)
  let ?u = "touch_unit now k ids i u"
  obtain b where b: "enc (c_unit bc) ?u = Inr b" "dec (c_unit bc) b = Inr ?u"
    using bincode_okD(1)[OF r(2)] by (rule codec_okE)
  let ?d' = "db_insert r (C128 MEMORY_KV (as_u128 i)) b d"
  have run: "touch_one r bc now k ids i () d = (?d', Inr ())"
    using r(3) Some u(1) b(1) by (simp add: touch_one_def kv_get_def kv_put_def)
  have sync': "store_sync r bc ?d'"
    by (rule store_sync_update[OF sync, of "as_u128 i"])
      (use r(1) b(2) u in \<open>auto simp: links_at_def postings_def\<close>)
  have at: "unit_at r bc ?d' j =
      (if j = as_u128 i then map_option (touch_unit now k ids i) (unit_at r bc d j) else unit_at r bc d j)" for j
    using r(1) b(2) u(4) by (simp add: unit_at_def)
  show thesis by (rule that[OF run sync' at]) (use r(1) in simp)
qed

lemma touch_all_ok:
  assumes r: "redb_ok r" "bincode_ok bc" "fault_free r" and sync: "store_sync r bc d" and dist: "distinct js"
  shows "\<exists>d'. eng_loop (touch_one r bc now k ids) js () d = (d', Inr ()) \<and> store_sync r bc d' \<and>
    (\<forall>i. unit_at r bc d' (as_u128 i) =
       (if i \<in> set js then map_option (touch_unit now k ids i) (unit_at r bc d (as_u128 i)) else unit_at r bc d (as_u128 i))) \<and>
    (\<forall>c. c \<notin> (\<lambda>i. C128 MEMORY_KV (as_u128 i)) ` set js \<longrightarrow> db_get r d' c = db_get r d c)"
  using sync dist
proof (induction js arbitrary: d)
  case (Cons j js)
  obtain d1 where d1: "touch_one r bc now k ids j () d = (d1, Inr ())" "store_sync r bc d1"
    "\<And>i. unit_at r bc d1 i = (if i = as_u128 j then map_option (touch_unit now k ids j) (unit_at r bc d i) else unit_at r bc d i)"
    "\<And>c. c \<noteq> C128 MEMORY_KV (as_u128 j) \<Longrightarrow> db_get r d1 c = db_get r d c"
    by (rule touch_one_ok[OF r Cons.prems(1), of now k ids j]) (rule that)
  obtain d' where d': "eng_loop (touch_one r bc now k ids) js () d1 = (d', Inr ())" "store_sync r bc d'"
    "\<forall>i. unit_at r bc d' (as_u128 i) =
       (if i \<in> set js then map_option (touch_unit now k ids i) (unit_at r bc d1 (as_u128 i)) else unit_at r bc d1 (as_u128 i))"
    "\<forall>c. c \<notin> (\<lambda>i. C128 MEMORY_KV (as_u128 i)) ` set js \<longrightarrow> db_get r d' c = db_get r d1 c"
    using Cons.IH[OF d1(2)] Cons.prems(2) by auto
  have inj: "as_u128 i = as_u128 j \<longleftrightarrow> i = j" for i j by (cases i; cases j) simp
  have "eng_loop (touch_one r bc now k ids) (j # js) () d = (d', Inr ())"
    using d1(1) d'(1) by simp
  moreover have "unit_at r bc d' (as_u128 i) = (if i \<in> set (j # js)
      then map_option (touch_unit now k ids i) (unit_at r bc d (as_u128 i)) else unit_at r bc d (as_u128 i))" for i
    using d'(3) d1(3) Cons.prems(2) by (auto simp: inj)
  ultimately show ?case using d'(2,4) d1(4) by auto
qed simp

section \<open>The whole retrieval\<close>

definition result_ids :: "retrieve_output \<Rightarrow> memory_id list" where
  "result_ids out = map (\<lambda>x. mem_id (rr_memory x)) (ro_results out)"

lemma retrieve_run:
  assumes r: "redb_ok r" "bincode_ok bc" "fault_free r" and sync: "store_sync r bc (eg_db st)"
    and ok: "search_inputs_ok r bc be sb input (eg_db st)"
    and imm: "query_understanding be (ri_query input) = Some imm" "length (ie_entities imm) < 2 ^ 64"
  obtains st' out fused ga lm d1 where "retrieve r bc be sb clock input st = (st', Inr out)"
    "fused_seeds r bc (be_algo be) (query_seeds r bc be sb clock input imm st) (eg_db st) = Inr fused"
    "gather r bc (be_algo be) (ri_max_hops input) fused (eg_db st) = Inr ga"
    "gathered_ok r bc (eg_db st) (hop_limit (be_algo be) (map_option of_nat (ri_max_hops input))) lm ga"
    "results_ok r bc (eg_db st) ga (ro_results out)" "length (ro_results out) \<le> ri_top_k input"
    "\<And>i e tr u. length (ro_results out) < ri_top_k input \<Longrightarrow> (i, e, tr) \<in> set (ga_activated ga) \<Longrightarrow>
       unit_at r bc (eg_db st) (as_u128 i) = Some u \<Longrightarrow> \<not> compressed_unit u \<Longrightarrow> u \<in> rr_memory ` set (ro_results out)"
    "st' = st\<lparr>eg_db := eg_db st'\<rparr>" "store_sync r bc (eg_db st')"
    "record_retrieval r bc (retrieval_record (qc_record_ms clock) (ro_results out)) (fingerprint (be_text be) imm)
       (result_paths (ga_activated ga)) (eg_db st) = (d1, Inr ())"
    "tc_steps (ro_trace out) = concat (map (\<lambda>(_, _, tr). tr) (ga_activated ga))"
    "\<And>i. unit_at r bc (eg_db st') (as_u128 i) = (if i \<in> set (result_ids out)
       then map_option (touch_unit (Timestamp (sint (of_int (qc_record_ms clock) :: u64)))
         (unat (co_activation_keep (be_algo be))) (result_ids out) i) (unit_at r bc (eg_db st) (as_u128 i))
       else unit_at r bc (eg_db st) (as_u128 i))"
    "\<And>c. c \<notin> (\<lambda>i. C128 MEMORY_KV (as_u128 i)) ` set (result_ids out) \<Longrightarrow> db_get r (eg_db st') c = db_get r d1 c"
proof -
  obtain fused ga lm results where s: "search r bc be sb clock input imm st = Inr (ga, results)"
    "fused_seeds r bc (be_algo be) (query_seeds r bc be sb clock input imm st) (eg_db st) = Inr fused"
    "gather r bc (be_algo be) (ri_max_hops input) fused (eg_db st) = Inr ga"
    "gathered_ok r bc (eg_db st) (hop_limit (be_algo be) (map_option of_nat (ri_max_hops input))) lm ga"
    "results_ok r bc (eg_db st) ga results" "length results \<le> ri_top_k input"
    "\<And>i e tr u. length results < ri_top_k input \<Longrightarrow> (i, e, tr) \<in> set (ga_activated ga) \<Longrightarrow>
       unit_at r bc (eg_db st) (as_u128 i) = Some u \<Longrightarrow> \<not> compressed_unit u \<Longrightarrow> u \<in> rr_memory ` set results"
    by (rule search_ok[OF r(1,3) sync ok imm(2), of clock]) (rule that)
  define rec where "rec = retrieval_record (qc_record_ms clock) results"
  define ids where "ids = map (\<lambda>x. mem_id (rr_memory x)) results"
  define now where "now = Timestamp (sint (of_int (qc_record_ms clock) :: u64))"
  let ?k = "unat (co_activation_keep (be_algo be))"
  obtain d1 where d1: "record_retrieval r bc rec (fingerprint (be_text be) imm) (result_paths (ga_activated ga)) (eg_db st) = (d1, Inr ())"
    "\<And>c. c \<notin> retrieval_cells rec \<Longrightarrow> db_get r d1 c = db_get r (eg_db st) c"
    by (rule record_retrieval_ok[OF r, of rec "fingerprint (be_text be) imm" "result_paths (ga_activated ga)" "eg_db st"])
      (rule that)
  have graph: "db_get r d1 c = db_get r (eg_db st) c" if "graph_cell c" for c
    by (rule d1(2)) (use that in \<open>auto simp: graph_cell_def retrieval_cells_def\<close>)
  have sync1: "store_sync r bc d1" by (rule store_sync_frame[OF sync graph])
  have at1: "unit_at r bc d1 j = unit_at r bc (eg_db st) j" for j
    using graph[of "C128 MEMORY_KV j"] by (simp add: unit_at_def graph_cell_def)
  have dist: "distinct ids" using s(5) by (simp add: results_ok_def ids_def)
  obtain d' where d': "eng_loop (touch_one r bc now ?k ids) ids () d1 = (d', Inr ())" "store_sync r bc d'"
    "\<forall>i. unit_at r bc d' (as_u128 i) = (if i \<in> set ids
       then map_option (touch_unit now ?k ids i) (unit_at r bc d1 (as_u128 i)) else unit_at r bc d1 (as_u128 i))"
    "\<forall>c. c \<notin> (\<lambda>i. C128 MEMORY_KV (as_u128 i)) ` set ids \<longrightarrow> db_get r d' c = db_get r d1 c"
    using touch_all_ok[OF r sync1 dist, of now ?k ids] by blast
  define out where "out = retrieval_output sb clock (query_seeds r bc be sb clock input imm st) ga results"
  have outs: "ro_results out = results" "result_ids out = ids"
    "tc_steps (ro_trace out) = concat (map (\<lambda>(_, _, tr). tr) (ga_activated ga))"
    by (simp_all add: out_def retrieval_output_def Let_def result_ids_def ids_def)
  have rid: "retrieval_id rec = of_int (qc_record_ms clock)" by (simp add: rec_def retrieval_record_def)
  have run: "retrieve r bc be sb clock input st = (st\<lparr>eg_db := d'\<rparr>, Inr out)"
    using s(1) d1(1) d'(1)
    by (simp add: retrieve_def imm(1) Let_def rec_def[symmetric] ids_def[symmetric] rid now_def[symmetric] out_def)
  show thesis
  proof (rule that[OF run s(2-4), where ?d1.0 = d1])
    show "results_ok r bc (eg_db st) ga (ro_results out)" "length (ro_results out) \<le> ri_top_k input"
      unfolding outs by (rule s(5), rule s(6))
    show "u \<in> rr_memory ` set (ro_results out)" if "length (ro_results out) < ri_top_k input"
      "(i, e, tr) \<in> set (ga_activated ga)" "unit_at r bc (eg_db st) (as_u128 i) = Some u" "\<not> compressed_unit u" for i e tr u
      using s(7)[OF that(1)[unfolded outs] that(2-4)] unfolding outs .
  qed (use d1(1) d' in \<open>simp_all add: outs at1 rec_def now_def\<close>)
qed

section \<open>Properties\<close>

text \<open>C33: on a store without faults a retrieval succeeds when the extractor does not panic, whatever the
  extractor, the embedder and the full-text engine return. It returns at most the number of memories
  asked for, each once, by descending score, each as it was stored and none that is compressed into a
  summary; all of them were reached by the spreading, and when it returns fewer than asked for, no
  memory that was reached and may be returned is missing.\<close>

theorem retrieve_spec:
  assumes r: "redb_ok r" "bincode_ok bc" "fault_free r" and sync: "store_sync r bc (eg_db st)"
    and ok: "search_inputs_ok r bc be sb input (eg_db st)"
    and imm: "query_understanding be (ri_query input) = Some imm" "length (ie_entities imm) < 2 ^ 64"
  shows "\<exists>st' out fused ga. retrieve r bc be sb clock input st = (st', Inr out) \<and>
    length (ro_results out) \<le> ri_top_k input \<and> distinct (result_ids out) \<and>
    sorted_wrt (\<lambda>x y. rr_final_score y \<le> rr_final_score x) (ro_results out) \<and>
    (\<forall>x \<in> set (ro_results out). unit_at r bc (eg_db st) (as_u128 (mem_id (rr_memory x))) = Some (rr_memory x) \<and>
       (\<forall>s. lifecycle (rr_memory x) \<noteq> LC_Compressed s)) \<and>
    fused_seeds r bc (be_algo be) (query_seeds r bc be sb clock input imm st) (eg_db st) = Inr fused \<and>
    gather r bc (be_algo be) (ri_max_hops input) fused (eg_db st) = Inr ga \<and>
    set (result_ids out) \<subseteq> fst ` set (ga_activated ga) \<and>
    (length (ro_results out) < ri_top_k input \<longrightarrow>
       (\<forall>i \<in> fst ` set (ga_activated ga). \<forall>u. unit_at r bc (eg_db st) (as_u128 i) = Some u \<longrightarrow>
          (\<forall>s. lifecycle u \<noteq> LC_Compressed s) \<longrightarrow> i \<in> set (result_ids out)))"
proof -
  have visible: "\<not> compressed_unit u \<longleftrightarrow> (\<forall>s. lifecycle u \<noteq> LC_Compressed s)" for u
    by (cases "lifecycle u") (simp_all add: compressed_unit_def)
  obtain st' out fused ga lm where run: "retrieve r bc be sb clock input st = (st', Inr out)"
    and steps: "fused_seeds r bc (be_algo be) (query_seeds r bc be sb clock input imm st) (eg_db st) = Inr fused"
      "gather r bc (be_algo be) (ri_max_hops input) fused (eg_db st) = Inr ga"
    and res: "results_ok r bc (eg_db st) ga (ro_results out)" "length (ro_results out) \<le> ri_top_k input"
    and all: "\<And>i e tr u. length (ro_results out) < ri_top_k input \<Longrightarrow> (i, e, tr) \<in> set (ga_activated ga) \<Longrightarrow>
       unit_at r bc (eg_db st) (as_u128 i) = Some u \<Longrightarrow> \<not> compressed_unit u \<Longrightarrow> u \<in> rr_memory ` set (ro_results out)"
    by (rule retrieve_run[OF r sync ok imm, of clock]) (rule that)
  have "i \<in> set (result_ids out)" if few: "length (ro_results out) < ri_top_k input"
    "i \<in> fst ` set (ga_activated ga)" "unit_at r bc (eg_db st) (as_u128 i) = Some u" "\<forall>s. lifecycle u \<noteq> LC_Compressed s" for i u
  proof -
    obtain e tr where "(i, e, tr) \<in> set (ga_activated ga)" using few(2) by force
    from all[OF few(1) this few(3)] have "u \<in> rr_memory ` set (ro_results out)" using few(4) visible by blast
    moreover have "mem_id u = i" by (rule stored_unit_id[OF sync few(3)])
    ultimately show ?thesis by (auto simp: result_ids_def)
  qed
  then show ?thesis
    using run steps res unfolding results_ok_def visible result_ids_def by force
qed

text \<open>C34: what a retrieval changes: units and graph stay in step, the in-memory indexes are untouched; the
  memories returned have their activation state updated and are otherwise as before, every other memory
  is as before; the log holds the record with the memories returned, the fingerprint of the query is
  kept under the identifier of the retrieval, and no other cell of the store changes.\<close>

theorem retrieve_effects:
  assumes r: "redb_ok r" "bincode_ok bc" "fault_free r" and sync: "store_sync r bc (eg_db st)"
    and ok: "search_inputs_ok r bc be sb input (eg_db st)"
    and imm: "query_understanding be (ri_query input) = Some imm" "length (ie_entities imm) < 2 ^ 64"
  shows "\<exists>st' out rec. retrieve r bc be sb clock input st = (st', Inr out) \<and>
    rec = retrieval_record (qc_record_ms clock) (ro_results out) \<and>
    store_sync r bc (eg_db st') \<and> st' = st\<lparr>eg_db := eg_db st'\<rparr> \<and>
    (\<forall>i. unit_at r bc (eg_db st') (as_u128 i) = (if i \<in> set (result_ids out)
       then map_option (touch_unit (Timestamp (sint (retrieval_id rec)))
         (unat (co_activation_keep (be_algo be))) (result_ids out) i) (unit_at r bc (eg_db st) (as_u128 i))
       else unit_at r bc (eg_db st) (as_u128 i))) \<and>
    map_option (decode_record bc) (db_get r (eg_db st') (C128 ACTIVATION_LOG (activation_key rec))) = Some (Some rec) \<and>
    read_query_context r bc (retrieval_id rec) (eg_db st') = Some (fingerprint (be_text be) imm) \<and>
    (\<forall>c. c \<notin> retrieval_cells rec \<longrightarrow> c \<notin> (\<lambda>i. C128 MEMORY_KV (as_u128 i)) ` set (result_ids out) \<longrightarrow>
       db_get r (eg_db st') c = db_get r (eg_db st) c)"
proof -
  obtain st' out d1 and ga :: gathered where run: "retrieve r bc be sb clock input st = (st', Inr out)"
      "st' = st\<lparr>eg_db := eg_db st'\<rparr>" "store_sync r bc (eg_db st')"
    and rec1: "record_retrieval r bc (retrieval_record (qc_record_ms clock) (ro_results out)) (fingerprint (be_text be) imm)
       (result_paths (ga_activated ga)) (eg_db st) = (d1, Inr ())"
    and at: "\<And>i. unit_at r bc (eg_db st') (as_u128 i) = (if i \<in> set (result_ids out)
       then map_option (touch_unit (Timestamp (sint (of_int (qc_record_ms clock) :: u64)))
         (unat (co_activation_keep (be_algo be))) (result_ids out) i) (unit_at r bc (eg_db st) (as_u128 i))
       else unit_at r bc (eg_db st) (as_u128 i))"
    and frame: "\<And>c. c \<notin> (\<lambda>i. C128 MEMORY_KV (as_u128 i)) ` set (result_ids out) \<Longrightarrow> db_get r (eg_db st') c = db_get r d1 c"
    by (rule retrieve_run[OF r sync ok imm, of clock]) (rule that)
  define rec where "rec = retrieval_record (qc_record_ms clock) (ro_results out)"
  have rid: "retrieval_id rec = of_int (qc_record_ms clock)" by (simp add: rec_def retrieval_record_def)
  obtain d1' where d1': "record_retrieval r bc rec (fingerprint (be_text be) imm) (result_paths (ga_activated ga)) (eg_db st) = (d1', Inr ())"
    "map_option (decode_record bc) (db_get r d1' (C128 ACTIVATION_LOG (activation_key rec))) = Some (Some rec)"
    "read_query_context r bc (retrieval_id rec) d1' = Some (fingerprint (be_text be) imm)"
    "\<And>c. c \<notin> retrieval_cells rec \<Longrightarrow> db_get r d1' c = db_get r (eg_db st) c"
    by (rule record_retrieval_ok[OF r, of rec "fingerprint (be_text be) imm" "result_paths (ga_activated ga)" "eg_db st"])
      (rule that)
  have d1: "d1' = d1" using d1'(1) rec1 by (simp add: rec_def)
  have logs: "db_get r (eg_db st') (C128 ACTIVATION_LOG k) = db_get r d1 (C128 ACTIVATION_LOG k)"
    "db_get r (eg_db st') (C64 QUERY_CONTEXT q) = db_get r d1 (C64 QUERY_CONTEXT q)" for k q
    by (rule frame, auto)+
  have ctx: "read_query_context r bc (retrieval_id rec) (eg_db st') = Some (fingerprint (be_text be) imm)"
    using d1'(3) r(3) by (simp add: read_query_context_def fault_free_def logs d1)
  have other: "db_get r (eg_db st') c = db_get r (eg_db st) c"
    if "c \<notin> retrieval_cells rec" "c \<notin> (\<lambda>i. C128 MEMORY_KV (as_u128 i)) ` set (result_ids out)" for c
    using frame[OF that(2)] d1'(4)[OF that(1)] by (simp add: d1)
  show ?thesis
  proof (intro exI[of _ st'] exI[of _ out] exI[of _ rec] conjI run allI impI)
    show "rec = retrieval_record (qc_record_ms clock) (ro_results out)" by (rule rec_def)
  qed (use at d1'(2) ctx other in \<open>simp_all add: rid logs d1\<close>)
qed

text \<open>C35: how energy travels: the trace of every memory returned starts at a memory that is neither
  compressed nor a summary; every further step follows an edge stored with the memory it leaves, which
  is neither compressed nor a summary either; it ends at the memory and has at most the number of hops
  asked for.\<close>

theorem retrieve_guides:
  assumes r: "redb_ok r" "bincode_ok bc" "fault_free r" and sync: "store_sync r bc (eg_db st)"
    and ok: "search_inputs_ok r bc be sb input (eg_db st)"
    and imm: "query_understanding be (ri_query input) = Some imm" "length (ie_entities imm) < 2 ^ 64"
  shows "\<exists>st' out. retrieve r bc be sb clock input st = (st', Inr out) \<and>
    (\<forall>x \<in> set (ro_results out). let tr = rr_activation_trace x in
       tr \<noteq> [] \<and> length tr \<le> Suc (hop_limit (be_algo be) (map_option of_nat (ri_max_hops input))) \<and>
       step_to (last tr) = mem_id (rr_memory x) \<and> \<not> excluded_at r bc (eg_db st) (step_to (hd tr)) \<and>
       (\<forall>k. Suc k < length tr \<longrightarrow> \<not> excluded_at r bc (eg_db st) (step_to (tr ! k)) \<and>
          step_from (tr ! Suc k) = Some (step_to (tr ! k)) \<and>
          (\<exists>l \<in> set (links_at r bc (eg_db st) (as_u128 (step_to (tr ! k)))).
             step_to (tr ! Suc k) = target_id l \<and> step_via_link (tr ! Suc k) = Some (link_type l))))"
proof -
  obtain st' out ga lm where run: "retrieve r bc be sb clock input st = (st', Inr out)"
    and g: "gathered_ok r bc (eg_db st) (hop_limit (be_algo be) (map_option of_nat (ri_max_hops input))) lm ga"
    and res: "results_ok r bc (eg_db st) ga (ro_results out)"
    by (rule retrieve_run[OF r sync ok imm, of clock]) (rule that)
  have edges: "\<not> excluded_at r bc (eg_db st) i \<and> ls = links_at r bc (eg_db st) (as_u128 i)" if "lm i = Some ls" for i ls
    using g that unfolding gathered_ok_def by blast
  {
    fix x assume x: "x \<in> set (ro_results out)"
    define tr where "tr = rr_activation_trace x"
    obtain e where "(mem_id (rr_memory x), e, tr) \<in> set (ga_activated ga)"
      using res x unfolding results_ok_def tr_def by blast
    then have h: "headed {i. \<not> excluded_at r bc (eg_db st) i} tr"
      and "\<exists>n \<le> hop_limit (be_algo be) (map_option of_nat (ri_max_hops input)). activation_path lm tr (mem_id (rr_memory x)) n"
      using g unfolding gathered_ok_def by blast+
    then obtain n where n: "n \<le> hop_limit (be_algo be) (map_option of_nat (ri_max_hops input))"
      "activation_path lm tr (mem_id (rr_memory x)) n" by blast
    have "\<not> excluded_at r bc (eg_db st) (step_to (tr ! k)) \<and> step_from (tr ! Suc k) = Some (step_to (tr ! k)) \<and>
        (\<exists>l \<in> set (links_at r bc (eg_db st) (as_u128 (step_to (tr ! k)))).
           step_to (tr ! Suc k) = target_id l \<and> step_via_link (tr ! Suc k) = Some (link_type l))"
      if k: "Suc k < length tr" for k
    proof -
      obtain ls l where "lm (step_to (tr ! k)) = Some ls" "l \<in> set ls"
        "step_via_link (tr ! Suc k) = Some (link_type l)" "step_to (tr ! Suc k) = target_id l"
        using activation_path_edges[OF n(2) k] by blast
      with edges activation_path_chain[OF n(2) k] show ?thesis by blast
    qed
    then have "tr \<noteq> [] \<and> length tr \<le> Suc (hop_limit (be_algo be) (map_option of_nat (ri_max_hops input))) \<and>
       step_to (last tr) = mem_id (rr_memory x) \<and> \<not> excluded_at r bc (eg_db st) (step_to (hd tr)) \<and>
       (\<forall>k. Suc k < length tr \<longrightarrow> \<not> excluded_at r bc (eg_db st) (step_to (tr ! k)) \<and>
          step_from (tr ! Suc k) = Some (step_to (tr ! k)) \<and>
          (\<exists>l \<in> set (links_at r bc (eg_db st) (as_u128 (step_to (tr ! k)))).
             step_to (tr ! Suc k) = target_id l \<and> step_via_link (tr ! Suc k) = Some (link_type l)))"
      using h activation_path_ends[OF n(2)] activation_path_length[OF n(2)] n(1) by (simp add: headed_def)
  }
  then show ?thesis using run unfolding Let_def by blast
qed

section \<open>A concrete retrieval\<close>

definition demo_search :: "unit search_backends" where
  "demo_search = \<lparr>sb_is_uppercase = (\<lambda>_. False), sb_ft_search = (\<lambda>_ _ _. Inr []), sb_tanh = (\<lambda>x. x),
     sb_powf = powf_step, sb_embedder_id = ''demo''\<rparr>"

definition demo_clock :: query_clock where
  "demo_clock = \<lparr>qc_now = Timestamp 5, qc_context_ms = 5, qc_record_ms = 5, qc_latency_ms = 0\<rparr>"

definition demo_query :: retrieve_input where
  "demo_query = \<lparr>ri_query = ''note'', ri_context = \<lparr>rx_conversation_id = None, rx_session_id = None,
     rx_project_id = None, rx_task_id = None, rx_user_id = None, rx_recent_memory_ids = [MemoryId 2]\<rparr>,
     ri_top_k = 5, ri_max_hops = None, ri_retrieval_mode = Balanced\<rparr>"

lemma rrf_params_ok_default: "rrf_params_ok algo_params_default"
proof -
  have "unit_f32 (rrf_channel_weight algo_params_default ch)" for ch
    by (cases ch) (simp_all add: algo_params_default_def unit_f32_of_rat one_f32_def)
  then show ?thesis by (simp add: rrf_params_ok_def algo_params_default_def one_f32_def)
qed

lemma demo_units_ok: "units_ok cells_redb cells_bincode demo_pair"
  by (auto simp: units_ok_def unit_at_def links_at_def postings_def cells_redb_def cells_bincode_def demo_pair_def
      demo_unit_def score_wf_default links_wf_def demo_link_wf split: if_splits)

lemma demo_search_inputs_ok:
  "search_inputs_ok cells_redb cells_bincode demo_backends demo_search demo_query (eg_db demo_state)"
proof -
  have "ctx_ok cells_redb cells_bincode demo_pair"
    by (auto simp: ctx_ok_def ctx_list_ok_def postings_def cells_redb_def demo_pair_def)
  moreover have "query_params_ok algo_params_default None"
    unfolding query_params_ok_def
    by (intro conjI energy_params_ok_default rrf_params_ok_default) (simp add: hop_limit_def algo_params_default_def)
  ultimately show ?thesis
    using demo_units_ok powf_step_ok
    by (simp add: search_inputs_ok_def demo_state_def demo_backends_def demo_query_def demo_search_def)
qed

lemma demo_understanding: "query_understanding demo_backends q = Some no_extraction" "length (ie_entities no_extraction) < 2 ^ 64"
  by (simp_all add: query_understanding_def demo_backends_ok no_extraction_def)

lemmas demo_retrieval = cells_redb_ok cells_bincode_ok cells_fault_free demo_state_ok(1) demo_search_inputs_ok
  demo_understanding

theorem retrieve_spec_witness:
  "\<exists>st' out. retrieve cells_redb cells_bincode demo_backends demo_search demo_clock demo_query demo_state = (st', Inr out) \<and>
     length (ro_results out) \<le> 5 \<and> distinct (result_ids out)"
  using retrieve_spec[OF demo_retrieval, of demo_clock] by (auto simp: demo_query_def)

theorem retrieve_effects_witness:
  "\<exists>st' out. retrieve cells_redb cells_bincode demo_backends demo_search demo_clock demo_query demo_state = (st', Inr out) \<and>
     read_query_context cells_redb cells_bincode 5 (eg_db st') = Some \<lparr>entity_hashes = [], topic_hashes = []\<rparr>"
  using retrieve_effects[OF demo_retrieval, of demo_clock]
  by (auto simp: demo_clock_def retrieval_record_def fingerprint_def no_extraction_def)

theorem retrieve_guides_witness:
  "\<exists>st' out. retrieve cells_redb cells_bincode demo_backends demo_search demo_clock demo_query demo_state = (st', Inr out) \<and>
     (\<forall>x \<in> set (ro_results out). length (rr_activation_trace x) \<le> 3)"
proof -
  have hops: "hop_limit (be_algo demo_backends) (map_option of_nat (ri_max_hops demo_query)) = 2"
    by (simp add: hop_limit_def demo_backends_def demo_query_def algo_params_default_def)
  from retrieve_guides[OF demo_retrieval, of demo_clock] show ?thesis unfolding hops Let_def by auto
qed

end
