(* ===== verification/Engine_Records.thy ===== *)
theory Engine_Records
  imports Engine_Retrieve
begin

text \<open>
  What a retrieval leaves behind (\<open>retrieve\<close> in \<open>hippmem-engine/src/retrieve_api.rs\<close>): the list of
  co-activations of a returned memory and the path recorded for feedback.
\<close>

section \<open>Co-activations\<close>

lemma ca_with_bump_co: "ca_with ` set (bump_co now j co) = insert j (ca_with ` set co)"
  by (induction co) auto

lemma distinct_bump_co: "distinct (map ca_with co) \<Longrightarrow> distinct (map ca_with (bump_co now j co))"
proof (induction co)
  case (Cons c co)
  have "set (map ca_with (bump_co now j co)) = insert j (set (map ca_with co))"
    using ca_with_bump_co[of now j co] by simp
  then show ?case using Cons by auto
qed simp

text \<open>The counter of a memory in a list of co-activations; 0 when it has none.\<close>

definition co_count :: "co_activation_count list \<Rightarrow> memory_id \<Rightarrow> u32" where
  "co_count co j = (case find_first (\<lambda>c. ca_with c = j) co of Some c \<Rightarrow> ca_count c | None \<Rightarrow> 0)"

lemma co_count_Cons: "co_count (c # co) j = (if ca_with c = j then ca_count c else co_count co j)"
  by (simp add: co_count_def)

lemma co_count_in: "distinct (map ca_with co) \<Longrightarrow> c \<in> set co \<Longrightarrow> ca_count c = co_count co (ca_with c)"
  by (induction co) (auto simp: co_count_Cons image_iff dest: sym)

lemma u32_saturating_add_0: "u32_saturating_add 0 1 = 1"
  by (simp add: u32_saturating_add_def)

lemma co_count_bump_co:
  "co_count (bump_co now j co) i = (if i = j then u32_saturating_add (co_count co j) 1 else co_count co i)"
  by (induction co) (auto simp: co_count_Cons u32_saturating_add_0, simp add: co_count_def u32_saturating_add_0)

lemma set_bump_co:
  "c \<in> set (bump_co now j co) \<Longrightarrow> c \<in> set co \<or> ca_with c = j \<and> ca_last_at c = now"
  by (induction co) (auto split: if_splits)

lemma bump_co_self: "\<exists>c \<in> set (bump_co now j co). ca_with c = j \<and> ca_last_at c = now"
  by (induction co) auto

abbreviation bump_others :: "timestamp \<Rightarrow> memory_id \<Rightarrow> memory_id list \<Rightarrow> co_activation_count list \<Rightarrow> co_activation_count list" where
  "bump_others now i ids co \<equiv> fold (\<lambda>j co. if j = i then co else bump_co now j co) ids co"

lemma bump_others_with: "ca_with ` set (bump_others now i ids co) = ca_with ` set co \<union> (set ids - {i})"
  by (induction ids arbitrary: co) (auto simp: ca_with_bump_co)

lemma distinct_bump_others: "distinct (map ca_with co) \<Longrightarrow> distinct (map ca_with (bump_others now i ids co))"
  by (induction ids arbitrary: co) (simp_all add: distinct_bump_co)

lemma set_bump_others:
  "c \<in> set (bump_others now i ids co) \<Longrightarrow> c \<in> set co \<or> ca_with c \<in> set ids - {i} \<and> ca_last_at c = now"
proof (induction ids arbitrary: co)
  case (Cons j ids)
  then show ?case using Cons.IH[of "if j = i then co else bump_co now j co"]
    by (auto split: if_splits dest: set_bump_co)
qed simp

lemma co_count_bump_others:
  "distinct ids \<Longrightarrow> co_count (bump_others now i ids co) j =
     (if j \<in> set ids \<and> j \<noteq> i then u32_saturating_add (co_count co j) 1 else co_count co j)"
  by (induction ids arbitrary: co) (auto simp: co_count_bump_co)

lemma bump_co_keeps:
  "c \<in> set co \<Longrightarrow> ca_last_at c = now \<Longrightarrow> \<exists>c' \<in> set (bump_co now j co). ca_with c' = ca_with c \<and> ca_last_at c' = now"
  by (induction co) auto

lemma bump_others_keeps:
  "c \<in> set co \<Longrightarrow> ca_last_at c = now \<Longrightarrow>
     \<exists>c' \<in> set (bump_others now i ids co). ca_with c' = ca_with c \<and> ca_last_at c' = now"
proof (induction ids arbitrary: c co)
  case (Cons j ids)
  let ?co = "if j = i then co else bump_co now j co"
  obtain c1 where c1: "c1 \<in> set ?co" "ca_with c1 = ca_with c" "ca_last_at c1 = now"
    using bump_co_keeps[OF Cons.prems, of j] Cons.prems by (cases "j = i") auto
  have "bump_others now i (j # ids) co = bump_others now i ids ?co" by simp
  then show ?case using Cons.IH[OF c1(1,3)] unfolding c1(2) by (simp only:)
qed (intro bexI[where P = "\<lambda>c'. ca_with c' = ca_with c \<and> ca_last_at c' = now" for c now], simp_all)

lemma bump_others_fresh:
  "j \<in> set ids \<Longrightarrow> j \<noteq> i \<Longrightarrow> \<exists>c \<in> set (bump_others now i ids co). ca_with c = j \<and> ca_last_at c = now"
proof (induction ids arbitrary: co)
  case (Cons k ids)
  show ?case
  proof (cases "k = j")
    case True
    obtain c where c: "c \<in> set (bump_co now j co)" "ca_with c = j" "ca_last_at c = now"
      using bump_co_self[of now j co] by blast
    have "bump_others now i (k # ids) co = bump_others now i ids (bump_co now j co)"
      using True Cons.prems(2) by simp
    then show ?thesis using bump_others_keeps[OF c(1,3), of i ids] unfolding c(2) by (simp only:)
  next
    case False
    then have "j \<in> set ids" using Cons.prems(1) by simp
    have "bump_others now i (k # ids) co = bump_others now i ids (if k = i then co else bump_co now k co)" by simp
    then show ?thesis using Cons.IH[OF \<open>j \<in> set ids\<close> Cons.prems(2), of "if k = i then co else bump_co now k co"]
      by (simp only:)
  qed
qed simp

interpretation recency: cmp_preorder "\<lambda>a b. cmp_lin (as_i64 (ca_last_at b)) (as_i64 (ca_last_at a))" "\<lambda>_. True"
  by unfold_locales simp_all

text \<open>In a list that is sorted by recency the entries of the present come first.\<close>

lemma take_recent:
  assumes sorted: "sorted_wrt (\<lambda>a b. as_i64 (ca_last_at b) \<le> as_i64 (ca_last_at a)) cs"
    and dist: "distinct (map ca_with cs)" and card: "card J \<le> k" "finite J"
    and old: "\<And>c. c \<in> set cs \<Longrightarrow> as_i64 (ca_last_at c) \<le> n"
    and fresh: "\<And>c. c \<in> set cs \<Longrightarrow> as_i64 (ca_last_at c) = n \<Longrightarrow> ca_with c \<in> J"
    and c: "c \<in> set cs" "as_i64 (ca_last_at c) = n"
  shows "c \<in> set (take k cs)"
proof (rule ccontr)
  assume no: "c \<notin> set (take k cs)"
  obtain p where p: "p < length cs" "cs ! p = c" using c(1) by (auto simp: in_set_conv_nth)
  have "k \<le> p"
  proof (rule ccontr)
    assume "\<not> k \<le> p"
    then have "take k cs ! p = c" "p < length (take k cs)" using p by simp_all
    with no show False by (metis nth_mem)
  qed
  have "ca_with x \<in> J" if x: "x \<in> set (take (Suc p) cs)" for x
  proof -
    obtain q where "q < length (take (Suc p) cs)" "take (Suc p) cs ! q = x"
      using x unfolding in_set_conv_nth by blast
    then have q: "q \<le> p" "x = cs ! q" "q < length cs" using p(1) by auto
    have "n \<le> as_i64 (ca_last_at x)"
    proof (cases "q = p")
      case False
      then show ?thesis using sorted_wrt_nth_less[OF sorted, of q p] q p c(2) by simp
    qed (use q p c(2) in simp)
    with old[of x] q have "as_i64 (ca_last_at x) = n" by (simp add: antisym)
    then show ?thesis using fresh q by simp
  qed
  then have "set (map ca_with (take (Suc p) cs)) \<subseteq> J" by auto
  moreover have "distinct (map ca_with (take (Suc p) cs))" using dist by (simp add: take_map[symmetric] distinct_take)
  moreover have "length (map ca_with (take (Suc p) cs)) = Suc p" using p(1) by simp
  ultimately have "Suc p \<le> card J" using card_mono[OF card(2)] distinct_card by metis
  with \<open>k \<le> p\<close> card(1) show False by simp
qed

text \<open>C36: the co-activations of a returned memory: at most \<open>co_activation_keep\<close> counters, one per memory,
  none for the memory itself; when the earlier ones are older than this retrieval and the other results
  are not more than the bound, each of them has a counter that is one more than before (saturating)
  and dated by this retrieval: the bound never drops them.\<close>

theorem co_activate_spec:
  assumes co: "distinct (map ca_with co)" "i \<notin> ca_with ` set co"
  shows "length (co_activate now k ids i co) \<le> k \<and> distinct (map ca_with (co_activate now k ids i co)) \<and>
    ca_with ` set (co_activate now k ids i co) \<subseteq> ca_with ` set co \<union> (set ids - {i}) \<and>
    (distinct ids \<and> card (set ids - {i}) \<le> k \<and> (\<forall>c \<in> set co. as_i64 (ca_last_at c) < as_i64 now) \<longrightarrow>
      (\<forall>j \<in> set ids - {i}. \<exists>c \<in> set (co_activate now k ids i co).
         ca_with c = j \<and> ca_last_at c = now \<and> ca_count c = u32_saturating_add (co_count co j) 1))"
proof -
  let ?all = "bump_others now i ids co" and ?cmp = "\<lambda>a b. cmp_lin (as_i64 (ca_last_at b)) (as_i64 (ca_last_at a))"
  have dist: "distinct (map ca_with ?all)" by (rule distinct_bump_others[OF co(1)])
  have run: "co_activate now k ids i co = (if k < length ?all then take k (sort_by ?cmp ?all) else ?all)"
    by (simp add: co_activate_def)
  have sub: "set (co_activate now k ids i co) \<subseteq> set ?all"
    unfolding run using set_take_subset[of k "sort_by ?cmp ?all"] by simp
  have "distinct (map ca_with (co_activate now k ids i co))"
    unfolding run using dist by (simp add: take_map[symmetric] distinct_take)
  moreover have "length (co_activate now k ids i co) \<le> k" unfolding run by simp
  moreover have "ca_with ` set (co_activate now k ids i co) \<subseteq> ca_with ` set co \<union> (set ids - {i})"
    using image_mono[OF sub, of ca_with] unfolding bump_others_with .
  moreover have "\<exists>c \<in> set (co_activate now k ids i co).
      ca_with c = j \<and> ca_last_at c = now \<and> ca_count c = u32_saturating_add (co_count co j) 1"
    if h: "distinct ids" "card (set ids - {i}) \<le> k" "\<forall>c \<in> set co. as_i64 (ca_last_at c) < as_i64 now"
      "j \<in> set ids - {i}" for j
  proof -
    obtain c where c: "c \<in> set ?all" "ca_with c = j" "ca_last_at c = now"
      using bump_others_fresh[of j ids i now co] h(4) by blast
    have "ca_count c = u32_saturating_add (co_count co j) 1"
      using co_count_in[OF dist c(1)] co_count_bump_others[OF h(1), of i now co j] c(2) h(4) by simp
    moreover have "c \<in> set (co_activate now k ids i co)"
    proof (cases "k < length ?all")
      case True
      have "c \<in> set (take k (sort_by ?cmp ?all))"
      proof (rule take_recent[where J = "set ids - {i}" and n = "as_i64 now"])
        show "sorted_wrt (\<lambda>a b. as_i64 (ca_last_at b) \<le> as_i64 (ca_last_at a)) (sort_by ?cmp ?all)"
          using recency.sorted_sort_by[of ?all] by (simp add: not_less list_all_iff)
        show "as_i64 (ca_last_at x) \<le> as_i64 now" if "x \<in> set (sort_by ?cmp ?all)" for x
          using that set_bump_others[of x i now ids co] h(3) by force
        show "ca_with x \<in> set ids - {i}" if x: "x \<in> set (sort_by ?cmp ?all)" "as_i64 (ca_last_at x) = as_i64 now" for x
          using x set_bump_others[of x i now ids co] h(3) by force
      qed (use dist h(2) c in simp_all)
      then show ?thesis using True by (simp add: run)
    qed (use c(1) in \<open>simp add: run\<close>)
    ultimately show ?thesis using c(2,3) by blast
  qed
  ultimately show ?thesis by blast
qed

theorem co_activate_spec_witness:
  "\<exists>c \<in> set (co_activate (Timestamp 5) 1 [MemoryId 1, MemoryId 2] (MemoryId 1)
     [\<lparr>ca_with = MemoryId 3, ca_count = 7, ca_last_at = Timestamp 4\<rparr>]). ca_with c = MemoryId 2 \<and> ca_count c = 1"
proof -
  have "card ({MemoryId 1, MemoryId 2} - {MemoryId 1}) \<le> 1" by simp
  with co_activate_spec[of "[\<lparr>ca_with = MemoryId 3, ca_count = 7, ca_last_at = Timestamp 4\<rparr>]" "MemoryId 1"
    "Timestamp 5" 1 "[MemoryId 1, MemoryId 2]"]
  show ?thesis by (auto simp: co_count_def u32_saturating_add_0)
qed

section \<open>Recorded paths\<close>

text \<open>C37: the path recorded for an activated memory is the first edge of its trace, not the last: it starts
  at the seed and ends at the first memory behind it; for a memory that is itself a seed no path is
  recorded.\<close>

theorem result_path_spec:
  assumes "activation_path lm tr i n"
  shows "result_path tr = (if n = 0 then None
    else Some \<lparr>path_from = as_u128 (step_to (tr ! 0)), path_to = as_u128 (step_to (tr ! 1))\<rparr>)"
proof -
  note p = activation_path_length[OF assms] activation_path_ends[OF assms]
  obtain s ss where tr: "tr = s # ss" "step_from s = None" using p by (cases tr) auto
  show ?thesis
  proof (cases ss)
    case (Cons s2 rest)
    then have "step_from s2 = Some (step_to s)"
      using activation_path_chain[OF assms, of 0] by (simp add: tr)
    then show ?thesis using p tr Cons by (simp add: result_path_def)
  qed (use p tr in \<open>simp add: result_path_def\<close>)
qed

text \<open>The third memory is reached over the second: what is recorded for it is the edge to the second.\<close>

theorem result_path_spec_witness:
  "\<exists>tr. activation_path (\<lambda>i. if i = MemoryId 1 then Some [demo_link 2 LT_Causal 1] else if i = MemoryId 2
        then Some [demo_link 3 LT_Causal 1] else None) tr (MemoryId 3) 2 \<and>
     result_path tr = Some \<lparr>path_from = 1, path_to = 2\<rparr>"
proof -
  let ?lm = "\<lambda>i. if i = MemoryId 1 then Some [demo_link 2 LT_Causal 1] else if i = MemoryId 2
        then Some [demo_link 3 LT_Causal 1] else None"
  let ?t1 = "[seed_step (MemoryId 1) RC_Bm25 1] @ [hop_step (MemoryId 1) (demo_link 2 LT_Causal 1) (of_nat (Suc 0)) 1]"
  let ?tr = "?t1 @ [hop_step (MemoryId 2) (demo_link 3 LT_Causal 1) (of_nat (Suc (Suc 0))) 1]"
  have t: "target_id (demo_link 2 LT_Causal 1) = MemoryId 2" "target_id (demo_link 3 LT_Causal 1) = MemoryId 3"
    by (simp_all add: demo_link_def)
  have "activation_path ?lm ?t1 (target_id (demo_link 2 LT_Causal 1)) (Suc 0)"
    by (rule activation_path.hop[OF activation_path.seed], simp, simp)
  then have "activation_path ?lm ?t1 (MemoryId 2) (Suc 0)" unfolding t .
  then have "activation_path ?lm ?tr (target_id (demo_link 3 LT_Causal 1)) (Suc (Suc 0))"
    by (rule activation_path.hop, simp, simp)
  then have path: "activation_path ?lm ?tr (MemoryId 3) 2" unfolding t Suc_1[symmetric] One_nat_def .
  have "result_path ?tr = Some \<lparr>path_from = 1, path_to = 2\<rparr>"
    using result_path_spec[OF path] by (simp add: seed_step_def hop_step_def t)
  with path show ?thesis by blast
qed

end
