(* ===== verification/Spec2Isabelle.thy ===== *)
theory Spec2Isabelle
  imports Core_Time Consolidation_Worker Consolidation_Summarize Retrieval_Results Write_Keys
    Write_Association Store_Semantic Engine_Delete Engine_Feedback Engine_List Engine_Traverse Engine_Views
    Model_Extract Engine_Write Engine_Consolidate Model_Time_Query
    Engine_Query Engine_Recall Engine_Records
begin

text \<open>
  HIPPMEM, an associative memory engine.
\<close>

end
